(* ===== verification/HNC_Prelude.thy ===== *)
theory HNC_Prelude
  imports Main "HOL-Library.Word" "HOL-Library.Sublist" "HOL-Library.Multiset"
begin

unbundle bit_operations_syntax

text \<open>
  Shared vocabulary of the development: the model of the C library that the daemon uses, and
  the generic lemmas the component theories rest on.

  A C string is a \<^typ>\<open>string\<close> that holds its bytes without the terminating NUL
  (\<open>nulfree\<close>); \<open>cget s i\<close> reads byte \<open>i\<close> of it, the terminator included.
  A write of a string into a buffer of \<open>n\<close> bytes (\<^verbatim>\<open>snprintf(dst, n, "%s", s)\<close>, or
  \<^verbatim>\<open>strncpy(dst, s, n - 1); dst[n - 1] = 0\<close>) is \<open>cbuf n s\<close>: the first \<open>n - 1\<close> bytes.
  Text scanners of the C code (\<^verbatim>\<open>strstr\<close>, \<^verbatim>\<open>strchr\<close>) return suffixes of the scanned text
  in place of pointers.
\<close>

named_theorems cstr_simps \<open>unfolding rules of the C string primitives\<close>
named_theorems inv_intros \<open>preservation of the component invariants\<close>

type_synonym byte = "8 word"
type_synonym time_t = int

abbreviation NUL :: char where "NUL \<equiv> CHR 0x00"
abbreviation DQ :: char where "DQ \<equiv> CHR 0x22"
abbreviation BSL :: char where "BSL \<equiv> CHR 0x5C"
abbreviation LF :: char where "LF \<equiv> CHR 0x0A"
abbreviation CR :: char where "CR \<equiv> CHR 0x0D"
abbreviation TAB :: char where "TAB \<equiv> CHR 0x09"

abbreviation ord :: "char \<Rightarrow> nat" where "ord c \<equiv> of_char c"
abbreviation chr :: "nat \<Rightarrow> char" where "chr n \<equiv> char_of n"

section \<open>C strings\<close>

definition nulfree :: "string \<Rightarrow> bool" where
  "nulfree s \<longleftrightarrow> NUL \<notin> set s"

definition cget :: "string \<Rightarrow> nat \<Rightarrow> char" where
  "cget s i = (if i < length s then s ! i else NUL)"

text \<open>The C string that starts at a memory area: everything before the first NUL.\<close>

definition cstr :: "string \<Rightarrow> string" where
  "cstr buf = takeWhile (\<lambda>c. c \<noteq> NUL) buf"

definition cbuf :: "nat \<Rightarrow> string \<Rightarrow> string" where
  "cbuf n s = take (n - 1) s"

definition c_isdigit :: "char \<Rightarrow> bool" where
  "c_isdigit c \<longleftrightarrow> 0x30 \<le> ord c \<and> ord c \<le> (0x39 :: nat)"

definition c_isspace :: "char \<Rightarrow> bool" where
  "c_isspace c \<longleftrightarrow> ord c = (0x20 :: nat) \<or> (0x09 \<le> ord c \<and> ord c \<le> (0x0D :: nat))"

definition c_isupper :: "char \<Rightarrow> bool" where
  "c_isupper c \<longleftrightarrow> 0x41 \<le> ord c \<and> ord c \<le> (0x5A :: nat)"

definition c_isxdigit :: "char \<Rightarrow> bool" where
  "c_isxdigit c \<longleftrightarrow> c_isdigit c \<or> (0x61 \<le> ord c \<and> ord c \<le> (0x66 :: nat))
     \<or> (0x41 \<le> ord c \<and> ord c \<le> (0x46 :: nat))"

definition c_tolower :: "char \<Rightarrow> char" where
  "c_tolower c = (if c_isupper c then chr (ord c + 32 :: nat) else c)"

definition strcasecmp_eq :: "string \<Rightarrow> string \<Rightarrow> bool" where
  "strcasecmp_eq a b \<longleftrightarrow> map c_tolower a = map c_tolower b"

text \<open>\<^verbatim>\<open>strncmp(s, p, strlen(p)) == 0\<close> is \<open>prefix p s\<close>; the scanners follow.\<close>

fun strstr :: "string \<Rightarrow> string \<Rightarrow> string option" where
  "strstr needle [] = (if needle = [] then Some [] else None)"
| "strstr needle (c # cs) = (if prefix needle (c # cs) then Some (c # cs) else strstr needle cs)"

fun strchr :: "char \<Rightarrow> string \<Rightarrow> string option" where
  "strchr d [] = None"
| "strchr d (c # cs) = (if c = d then Some (c # cs) else strchr d cs)"

text \<open>A \<^verbatim>\<open>size_t\<close> decrement wraps around at zero.\<close>

definition size_dec :: "nat \<Rightarrow> nat" where
  "size_dec n = (if n = 0 then 2 ^ 64 - 1 else n - 1)"

section \<open>Numbers as text\<close>

definition hexdigit :: "nat \<Rightarrow> char" where
  "hexdigit n = (if n < 10 then chr (48 + n) else chr (87 + n))"

text \<open>\<^verbatim>\<open>%04x\<close> and \<^verbatim>\<open>%02x\<close> of a value that fits in the field.\<close>

definition hex4 :: "nat \<Rightarrow> string" where
  "hex4 n = [hexdigit (n div 4096 mod 16), hexdigit (n div 256 mod 16),
             hexdigit (n div 16 mod 16), hexdigit (n mod 16)]"

definition hex2 :: "nat \<Rightarrow> string" where
  "hex2 n = [hexdigit (n div 16 mod 16), hexdigit (n mod 16)]"

fun dec_nat :: "nat \<Rightarrow> string" where
  "dec_nat n = (if n < 10 then [chr (48 + n)] else dec_nat (n div 10) @ [chr (48 + n mod 10)])"

declare dec_nat.simps [simp del]

text \<open>\<^verbatim>\<open>%d\<close>, \<^verbatim>\<open>%ld\<close> and \<^verbatim>\<open>%lld\<close>.\<close>

definition dec_int :: "int \<Rightarrow> string" where
  "dec_int i = (if i < 0 then CHR ''-'' # dec_nat (nat (- i)) else dec_nat (nat i))"

text \<open>The digits at the front of a text, as a number: the core of \<^verbatim>\<open>strtol(s, NULL, 10)\<close>.\<close>

fun scan_dec :: "nat \<Rightarrow> string \<Rightarrow> nat \<times> string" where
  "scan_dec acc [] = (acc, [])"
| "scan_dec acc (c # cs) =
     (if c_isdigit c then scan_dec (10 * acc + (ord c - 48)) cs else (acc, c # cs))"

definition strtol10 :: "string \<Rightarrow> int" where
  "strtol10 s = (case dropWhile c_isspace s of
       [] \<Rightarrow> 0
     | c # cs \<Rightarrow> if c = CHR ''-'' then - int (fst (scan_dec 0 cs))
                else if c = CHR ''+'' then int (fst (scan_dec 0 cs))
                else int (fst (scan_dec 0 (c # cs))))"

section \<open>Facts about the C library model\<close>

lemma length_cbuf [simp]: "length (cbuf n s) = min (length s) (n - 1)"
  by (simp add: cbuf_def)

lemma length_cbuf_less: "0 < n \<Longrightarrow> length (cbuf n s) < n"
  by simp

lemma cbuf_id [simp]: "length s < n \<Longrightarrow> cbuf n s = s"
  by (simp add: cbuf_def)

lemma cbuf_cbuf [simp]: "cbuf n (cbuf n s) = cbuf n s"
  by (simp add: cbuf_def)

lemma set_cbuf_subset: "set (cbuf n s) \<subseteq> set s"
  by (simp add: cbuf_def set_take_subset)

lemma nulfree_cbuf [simp]: "nulfree s \<Longrightarrow> nulfree (cbuf n s)"
  using set_cbuf_subset by (fastforce simp: nulfree_def)

lemma nulfree_simps [simp]:
  "nulfree []" "nulfree (c # s) \<longleftrightarrow> c \<noteq> NUL \<and> nulfree s"
  "nulfree (s @ t) \<longleftrightarrow> nulfree s \<and> nulfree t"
  by (auto simp: nulfree_def)

lemma nulfree_cstr [simp]: "nulfree (cstr s)"
  by (auto simp: nulfree_def cstr_def dest: set_takeWhileD)

lemma cstr_nulfree [simp]: "nulfree s \<Longrightarrow> cstr s = s"
  by (auto simp: nulfree_def cstr_def takeWhile_eq_all_conv)

lemma cget_Cons [simp]: "cget (c # s) 0 = c" "cget (c # s) (Suc i) = cget s i"
  by (simp_all add: cget_def)

lemma cget_Nil [simp]: "cget [] i = NUL"
  by (simp add: cget_def)

lemma ord_less_256 [simp]: "ord c < 256"
  using range_nat_of_char by (metis UNIV_I atLeastLessThan_iff imageI)

lemma strstr_suffix: "strstr n s = Some t \<Longrightarrow> suffix t s"
  by (induction s) (auto simp: suffix_Cons split: if_splits)

lemma strstr_prefix: "strstr n s = Some t \<Longrightarrow> prefix n t"
  by (induction s) (auto split: if_splits)

lemma strstr_length: "strstr n s = Some t \<Longrightarrow> length t \<le> length s"
  by (auto dest: strstr_suffix suffix_length_le)

lemma strchr_suffix: "strchr d s = Some t \<Longrightarrow> suffix t s"
  by (induction s) (auto simp: suffix_Cons split: if_splits)

lemma strchr_Some_Cons: "strchr d s = Some t \<Longrightarrow> \<exists>u. t = d # u"
  by (induction s) (auto split: if_splits)

lemma strchr_length: "strchr d s = Some t \<Longrightarrow> length t \<le> length s"
  by (auto dest: strchr_suffix suffix_length_le)

lemma strchr_append_notin: "d \<notin> set xs \<Longrightarrow> strchr d (xs @ ys) = strchr d ys"
  by (induction xs) auto

text \<open>A separator splits a text in one way only.\<close>

lemma append_sep_eq:
  "x \<notin> set xs \<Longrightarrow> x \<notin> set ys \<Longrightarrow> xs @ x # a = ys @ x # b \<longleftrightarrow> xs = ys \<and> a = b"
proof (induction xs arbitrary: ys)
  case Nil
  then show ?case by (cases ys) auto
next
  case (Cons z zs)
  then show ?case by (cases ys) auto
qed

lemma c_tolower_eq_iff:
  "\<not> c_isupper d \<Longrightarrow> \<not> (0x61 \<le> ord d \<and> ord d \<le> (0x7A :: nat)) \<Longrightarrow> c_tolower c = d \<longleftrightarrow> c = d"
  by (auto simp: c_tolower_def c_isupper_def)

lemma c_tolower_punct [simp]:
  "c_tolower c = DQ \<longleftrightarrow> c = DQ" "c_tolower c = CHR '':'' \<longleftrightarrow> c = CHR '':''"
  "DQ = c_tolower c \<longleftrightarrow> c = DQ" "CHR '':'' = c_tolower c \<longleftrightarrow> c = CHR '':''"
  "c_tolower DQ = DQ" "c_tolower (CHR '':'') = CHR '':''"
proof -
  show a: "c_tolower c = DQ \<longleftrightarrow> c = DQ" and b: "c_tolower c = CHR '':'' \<longleftrightarrow> c = CHR '':''" for c
    by (rule c_tolower_eq_iff; simp add: c_isupper_def)+
  show "DQ = c_tolower c \<longleftrightarrow> c = DQ" "CHR '':'' = c_tolower c \<longleftrightarrow> c = CHR '':''"
    by (simp_all only: eq_commute[of _ "c_tolower c"] a b)
  show "c_tolower DQ = DQ" "c_tolower (CHR '':'') = CHR '':''" by (simp_all only: a b)
qed

lemma ord_tolower: "ord (c_tolower c) = (if c_isupper c then ord c + 32 else (ord c :: nat))"
proof (cases "c_isupper c")
  case True
  then have "(ord c + 32 :: nat) < 256" by (simp add: c_isupper_def)
  with True show ?thesis by (simp add: c_tolower_def)
qed (simp add: c_tolower_def)

lemma c_isxdigit_tolower [simp]: "c_isxdigit (c_tolower c) = c_isxdigit c"
proof (cases "c_isupper c")
  case True
  then show ?thesis unfolding c_isxdigit_def c_isdigit_def ord_tolower c_isupper_def by simp
next
  case False
  then show ?thesis by (simp add: c_tolower_def)
qed

lemma c_tolower_idem [simp]: "c_tolower (c_tolower c) = c_tolower c"
  by (auto simp: c_tolower_def c_isupper_def)

lemma c_tolower_NUL [simp]: "c_tolower c = NUL \<longleftrightarrow> c = NUL" "NUL = c_tolower c \<longleftrightarrow> c = NUL" "c_tolower NUL = NUL"
proof -
  show a: "c_tolower c = NUL \<longleftrightarrow> c = NUL" for c by (rule c_tolower_eq_iff) (simp_all add: c_isupper_def)
  show "NUL = c_tolower c \<longleftrightarrow> c = NUL" using a[of c] by auto
  show "c_tolower NUL = NUL" by (simp add: a)
qed

lemma strcasecmp_eq_equiv:
  "strcasecmp_eq a a" "strcasecmp_eq a b \<Longrightarrow> strcasecmp_eq b a" "strcasecmp_eq a b \<Longrightarrow> strcasecmp_eq b c \<Longrightarrow> strcasecmp_eq a c"
  by (auto simp: strcasecmp_eq_def)

lemma strcasecmp_eq_length: "strcasecmp_eq a b \<Longrightarrow> length a = length b"
  by (metis length_map strcasecmp_eq_def)

lemma push_or: "b < 2 ^ n \<Longrightarrow> push_bit n a OR b = a * 2 ^ n + (b :: nat)"
proof -
  assume "b < 2 ^ n"
  then have "take_bit n b = b" by (simp add: take_bit_nat_eq_self)
  then have "bit b m \<Longrightarrow> m < n" for m by (metis bit_take_bit_iff)
  then have "push_bit n a + b = push_bit n a OR b"
    by (intro disjunctive_add) (auto simp: bit_push_bit_iff not_le[symmetric])
  then show ?thesis by (simp add: push_bit_eq_mult)
qed

section \<open>Facts about numbers as text\<close>

lemma dec_nat_digits: "\<forall>c \<in> set (dec_nat n). c_isdigit c"
  by (induction n rule: dec_nat.induct) (subst dec_nat.simps, auto simp: c_isdigit_def)

lemma dec_nat_nonempty: "dec_nat n \<noteq> []"
  by (subst dec_nat.simps) simp

lemma dec_int_chars: "c \<in> set (dec_int t) \<Longrightarrow> c_isdigit c \<or> c = CHR ''-''"
  using dec_nat_digits by (auto simp: dec_int_def split: if_splits)

lemma dec_int_nonempty: "dec_int t \<noteq> []"
  by (simp add: dec_int_def dec_nat_nonempty)

lemma dec_int_notin: "\<not> c_isdigit c \<Longrightarrow> c \<noteq> CHR ''-'' \<Longrightarrow> c \<notin> set (dec_int t)"
  using dec_int_chars by blast

lemma scan_dec_append:
  "\<forall>c \<in> set ds. c_isdigit c \<Longrightarrow> scan_dec a (ds @ r) = scan_dec (fst (scan_dec a ds)) r"
  by (induction ds arbitrary: a) auto

lemma scan_dec_nat: "scan_dec 0 (dec_nat n) = (n, [])"
proof (induction n rule: dec_nat.induct)
  case (1 n)
  show ?case
  proof (cases "n < 10")
    case True
    then show ?thesis by (subst dec_nat.simps) (simp add: c_isdigit_def)
  next
    case False
    with 1 have "scan_dec 0 (dec_nat (n div 10) @ [chr (48 + n mod 10)]) = scan_dec (n div 10) [chr (48 + n mod 10)]"
      using scan_dec_append[OF dec_nat_digits, of 0] by simp
    with False show ?thesis by (subst dec_nat.simps) (simp add: c_isdigit_def)
  qed
qed

lemma scan_dec_nat_sep: "\<not> c_isdigit c \<Longrightarrow> scan_dec 0 (dec_nat n @ c # r) = (n, c # r)"
  using scan_dec_append[OF dec_nat_digits, of 0 n "c # r"] by (simp add: scan_dec_nat)

lemma strtol10_dec_int: "\<not> c_isdigit c \<Longrightarrow> strtol10 (dec_int t @ c # r) = t"
proof -
  assume c: "\<not> c_isdigit c"
  have dig: "\<not> c_isspace d \<and> d \<noteq> CHR ''-'' \<and> d \<noteq> CHR ''+''" if "c_isdigit d" for d
    using that by (auto simp: c_isdigit_def c_isspace_def)
  show ?thesis
  proof (cases "t < 0")
    case True
    then show ?thesis using c by (simp add: strtol10_def dec_int_def c_isspace_def scan_dec_nat_sep)
  next
    case False
    obtain d ds where ds: "dec_nat (nat t) = d # ds" using dec_nat_nonempty[of "nat t"] by (auto simp: neq_Nil_conv)
    then have "c_isdigit d" using dec_nat_digits[of "nat t"] by simp
    with False c ds dig[of d] scan_dec_nat_sep[OF c, of "nat t" r] show ?thesis
      by (simp add: strtol10_def dec_int_def)
  qed
qed

lemma length_dec_nat: "n < 10 ^ k \<Longrightarrow> 0 < k \<Longrightarrow> length (dec_nat n) \<le> k"
proof (induction k arbitrary: n)
  case (Suc k)
  show ?case
  proof (cases "n < 10")
    case True
    then show ?thesis by (subst dec_nat.simps) simp
  next
    case False
    then have "0 < k" "n div 10 < 10 ^ k" using Suc.prems by (cases k; auto)+
    with Suc.IH[of "n div 10"] False show ?thesis by (subst dec_nat.simps) simp
  qed
qed simp

lemma length_dec_int: "- (2 ^ 31) \<le> i \<Longrightarrow> i < 2 ^ 31 \<Longrightarrow> length (dec_int i) \<le> 11"
  using length_dec_nat[of "nat i" 10] length_dec_nat[of "nat (- i)" 10] by (auto simp: dec_int_def nat_less_iff)

section \<open>Arrays\<close>

lemma take_Suc_update: "i < length xs \<Longrightarrow> take (Suc i) (xs[i := e]) = take i xs @ [e]"
  by (simp add: take_Suc_conv_app_nth)

lemma map_update_same: "i < length xs \<Longrightarrow> f (xs ! i) = f e \<Longrightarrow> map f (xs[i := e]) = map f xs"
  by (metis list_update_id map_update nth_map)

lemma list_all_update: "list_all P xs \<Longrightarrow> P e \<Longrightarrow> list_all P (xs[i := e])"
  using set_update_subset_insert[of xs i e] by (fastforce simp: list_all_iff)

text \<open>The first index with a property: a \<^verbatim>\<open>for\<close> loop that stops at a hit.\<close>

fun find_index :: "('a \<Rightarrow> bool) \<Rightarrow> 'a list \<Rightarrow> nat option" where
  "find_index P [] = None"
| "find_index P (x # xs) = (if P x then Some 0 else map_option Suc (find_index P xs))"

lemma find_index_Some:
  "find_index P xs = Some i \<Longrightarrow> i < length xs \<and> P (xs ! i) \<and> (\<forall>j < i. \<not> P (xs ! j))"
proof (induction xs arbitrary: i)
  case (Cons x xs)
  then show ?case by (cases i) (auto simp: less_Suc_eq_0_disj split: if_splits)
qed simp

lemma find_index_None: "find_index P xs = None \<longleftrightarrow> (\<forall>x \<in> set xs. \<not> P x)"
  by (induction xs) auto

lemma find_index_find: "find P xs = map_option (\<lambda>i. xs ! i) (find_index P xs)"
  by (induction xs) (auto simp: option.map_comp comp_def)

lemma find_index_cong: "(\<And>x. x \<in> set xs \<Longrightarrow> P x = Q x) \<Longrightarrow> find_index P xs = find_index Q xs"
  by (induction xs) auto

lemma find_update_hit:
  "find_index P xs = Some i \<Longrightarrow> P e \<Longrightarrow> find P (xs[i := e]) = Some e"
  by (induction xs arbitrary: i) (auto split: if_splits)

lemma find_update_fresh:
  "find P xs = None \<Longrightarrow> i < length xs \<Longrightarrow> P e \<Longrightarrow> find P (xs[i := e]) = Some e"
  by (induction xs arbitrary: i) (auto split: if_splits nat.splits)

lemma find_update_other:
  "i < length xs \<Longrightarrow> \<not> P (xs ! i) \<Longrightarrow> \<not> P e \<Longrightarrow> find P (xs[i := e]) = find P xs"
  by (induction xs arbitrary: i) (auto split: nat.splits)

section \<open>Flat JSON objects of strings\<close>

text \<open>
  The shape in which the scripts write the files of string pairs that the daemon reads
  (\<^verbatim>\<open>device_names.json\<close>, \<^verbatim>\<open>oui_overrides.json\<close>): one object, no white space, with \<open>"\<close> and \<open>\\<close>
  escaped in the values.
\<close>

definition esc_name :: "string \<Rightarrow> string" where
  "esc_name v = concat (map (\<lambda>c. if c = DQ \<or> c = BSL then [BSL, c] else [c]) v)"

definition names_entry :: "string \<times> string \<Rightarrow> string" where
  "names_entry e = DQ # fst e @ [DQ, CHR '':'', DQ] @ esc_name (snd e) @ [DQ]"

fun names_body :: "(string \<times> string) list \<Rightarrow> string" where
  "names_body [] = []"
| "names_body [e] = names_entry e"
| "names_body (e # es) = names_entry e @ CHR '','' # names_body es"

definition names_json :: "(string \<times> string) list \<Rightarrow> string" where
  "names_json es = CHR ''{'' # names_body es @ [CHR ''}'']"

lemma esc_name_simps [simp]:
  "esc_name [] = []"
  "esc_name (c # v) = (if c = DQ \<or> c = BSL then [BSL, c] else [c]) @ esc_name v"
  by (simp_all add: esc_name_def)

lemma nulfree_esc_name: "nulfree (esc_name v) \<longleftrightarrow> nulfree v"
  by (induction v) auto

end
