(* ===== verification/Helpers.thy ===== *)
theory Helpers
  imports HNC_Prelude
begin

text \<open>
  The shared helpers of \<^verbatim>\<open>daemon/hotspotd/hnc_helpers.c\<close> (the OUI lookup is in its own theory):
  the re-resolve and pending windows, JSON string escaping with the UTF-8 boundary
  roll-back, the MAC fallback name, the scan of \<^verbatim>\<open>device_names.json\<close> and the fast
  (non-blocking) host name resolution.  A file is a \<^typ>\<open>string option\<close>: \<^const>\<open>None\<close> when it
  cannot be opened.
\<close>

section \<open>Time windows\<close>

definition hnc_should_re_resolve :: "string \<Rightarrow> time_t \<Rightarrow> time_t \<Rightarrow> bool" where
  "hnc_should_re_resolve hostname_src last_resolve now =
     (if hostname_src = ''mac'' then True else if now - last_resolve \<ge> 60 then True else False)"

definition HNC_PENDING_BREATHING_ROOM_SEC :: int where
  "HNC_PENDING_BREATHING_ROOM_SEC = 1"

definition hnc_pending_ready :: "string \<Rightarrow> time_t \<Rightarrow> time_t \<Rightarrow> bool" where
  "hnc_pending_ready hostname_src pending_since now =
     (if hostname_src \<noteq> ''pending'' then False
      else if now - pending_since < HNC_PENDING_BREATHING_ROOM_SEC then False else True)"

section \<open>JSON escaping\<close>

text \<open>
  The copy loop.  The third argument is the buffer written so far, so \<open>j\<close> of the code is its
  length; the flag of the result is \<^verbatim>\<open>truncated\<close>.
\<close>

fun json_escape_loop :: "nat \<Rightarrow> string \<Rightarrow> string \<Rightarrow> string \<times> bool" where
  "json_escape_loop n [] dst = (dst, False)"
| "json_escape_loop n (c # cs) dst =
     (if \<not> length dst + 1 < n then (dst, False)
      else if c = DQ \<or> c = BSL then
        (if length dst + 2 \<ge> n then (dst, True) else json_escape_loop n cs (dst @ [BSL, c]))
      else if c = LF then
        (if length dst + 2 \<ge> n then (dst, True) else json_escape_loop n cs (dst @ [BSL, CHR ''n'']))
      else if c = CR then
        (if length dst + 2 \<ge> n then (dst, True) else json_escape_loop n cs (dst @ [BSL, CHR ''r'']))
      else if c = TAB then
        (if length dst + 2 \<ge> n then (dst, True) else json_escape_loop n cs (dst @ [BSL, CHR ''t'']))
      else if ord c < (0x20 :: nat) then
        (if length dst + 6 \<ge> n then (dst, True)
         else json_escape_loop n cs (dst @ [BSL, CHR ''u''] @ hex4 (ord c)))
      else json_escape_loop n cs (dst @ [c]))"

definition utf8_cont :: "char \<Rightarrow> bool" where
  "utf8_cont c \<longleftrightarrow> (ord c AND 0xC0) = (0x80 :: nat)"

definition utf8_needed :: "char \<Rightarrow> nat" where
  "utf8_needed lead =
     (if (ord lead AND 0x80) = (0 :: nat) then 0
      else if (ord lead AND 0xE0) = (0xC0 :: nat) then 1
      else if (ord lead AND 0xF0) = (0xE0 :: nat) then 2
      else if (ord lead AND 0xF8) = (0xF0 :: nat) then 3
      else 0)"

text \<open>\<^verbatim>\<open>while (k > 0 && (dst[k-1] & 0xC0) == 0x80) k--\<close>\<close>

fun utf8_back :: "string \<Rightarrow> nat \<Rightarrow> nat" where
  "utf8_back dst 0 = 0"
| "utf8_back dst (Suc k) = (if utf8_cont (dst ! k) then utf8_back dst k else Suc k)"

definition utf8_rollback :: "string \<Rightarrow> string" where
  "utf8_rollback dst =
     (let j = length dst; k = utf8_back dst j
      in if k > 0 then
           (if j - k < utf8_needed (dst ! (k - 1)) then take (k - 1) dst else dst)
         else dst)"

text \<open>The text left in the buffer: \<^const>\<open>None\<close> when the buffer has no room at all and is not touched.\<close>

definition hnc_json_escape :: "string \<Rightarrow> nat \<Rightarrow> string option" where
  "hnc_json_escape src dst_size =
     (if dst_size = 0 then None
      else case json_escape_loop dst_size src [] of (dst, truncated) \<Rightarrow>
        Some (if truncated \<or> (src \<noteq> [] \<and> length dst + 1 \<ge> dst_size)
              then utf8_rollback dst else dst))"

section \<open>Fallback and manual names\<close>

definition hnc_mac_fallback :: "string \<Rightarrow> nat \<Rightarrow> string option" where
  "hnc_mac_fallback mac outlen =
     (if outlen = 0 then None
      else let no_colon = take 12 (filter (\<lambda>c. c \<noteq> CHR '':'') mac);
               ci = length no_colon
           in Some (cbuf outlen (if ci \<ge> 8 then drop (ci - 8) no_colon else no_colon)))"

definition ci_prefix :: "string \<Rightarrow> string \<Rightarrow> bool" where
  "ci_prefix m q \<longleftrightarrow> prefix (map c_tolower m) (map c_tolower q)"

definition json_ws :: "char \<Rightarrow> bool" where
  "json_ws c \<longleftrightarrow> c = CHR '' '' \<or> c = TAB \<or> c = LF \<or> c = CR"

text \<open>The text to the left of the scan position is kept reversed.\<close>

definition anchored :: "string \<Rightarrow> bool" where
  "anchored left = (case dropWhile json_ws left of [] \<Rightarrow> True | a # _ \<Rightarrow> a = CHR ''{'' \<or> a = CHR '','')"

fun copy_name :: "nat \<Rightarrow> string \<Rightarrow> string" where
  "copy_name 0 q = []"
| "copy_name (Suc n) [] = []"
| "copy_name (Suc n) (c # q) =
     (if c = DQ then []
      else if c = BSL \<and> (cget q 0 = DQ \<or> cget q 0 = BSL)
           then cget q 0 # copy_name n (tl q)
      else c # copy_name n q)"

fun manual_scan :: "string \<Rightarrow> nat \<Rightarrow> string \<Rightarrow> string \<Rightarrow> string option" where
  "manual_scan pat outlen left [] = None"
| "manual_scan pat outlen left (c # cs) =
     (if ci_prefix pat (c # cs) \<and> anchored left
      then Some (copy_name (size_dec outlen) (drop (length pat) (c # cs)))
      else manual_scan pat outlen (c # left) cs)"

text \<open>
  The return value and, when the output buffer is written, its new text.
\<close>

definition hnc_lookup_manual_name :: "string \<Rightarrow> string option \<Rightarrow> nat \<Rightarrow> bool \<times> string option" where
  "hnc_lookup_manual_name mac names_file outlen =
     (case names_file of
        None \<Rightarrow> (False, None)
      | Some content \<Rightarrow>
          (let buf = take 8191 content in
           if buf = [] then (False, None)
           else case manual_scan (cbuf 32 (DQ # mac @ [DQ, CHR '':'', DQ])) outlen [] (cstr buf) of
                  None \<Rightarrow> (False, None)
                | Some name \<Rightarrow> (name \<noteq> [], Some name)))"

text \<open>The host name and its source: the caller's two output buffers.\<close>

definition hnc_resolve_hostname_fast ::
  "string \<Rightarrow> string option \<Rightarrow> nat \<Rightarrow> nat \<Rightarrow> string \<times> string" where
  "hnc_resolve_hostname_fast mac names_file hn_len src_len =
     (case hnc_lookup_manual_name mac names_file hn_len of
        (True, Some name) \<Rightarrow> (name, cbuf src_len ''manual'')
      | (_, written) \<Rightarrow>
          (case hnc_mac_fallback mac hn_len of
             Some hn \<Rightarrow> (hn, cbuf src_len ''mac'')
           | None \<Rightarrow> ((case written of Some w \<Rightarrow> w | None \<Rightarrow> []), cbuf src_len ''mac'')))"

section \<open>Reference definitions\<close>

text \<open>The escape sequence of one byte, and what the escaper may leave in the buffer.\<close>

definition json_esc :: "char \<Rightarrow> string" where
  "json_esc c =
     (if c = DQ \<or> c = BSL then [BSL, c] else if c = LF then [BSL, CHR ''n'']
      else if c = CR then [BSL, CHR ''r''] else if c = TAB then [BSL, CHR ''t'']
      else if ord c < (0x20 :: nat) then [BSL, CHR ''u''] @ hex4 (ord c) else [c])"

definition json_escs :: "string \<Rightarrow> string" where
  "json_escs s = concat (map json_esc s)"

text \<open>Well-formed UTF-8, by the lead-byte classes that the code distinguishes.\<close>

definition utf8_char :: "string \<Rightarrow> bool" where
  "utf8_char b = (case b of [] \<Rightarrow> False
     | c # cs \<Rightarrow> \<not> utf8_cont c \<and> ord c < (0xF8 :: nat) \<and> length cs = utf8_needed c \<and> list_all utf8_cont cs)"

function (sequential) utf8_wf :: "string \<Rightarrow> bool" where
  "utf8_wf [] = True"
| "utf8_wf (c # cs) =
     (utf8_char (c # take (utf8_needed c) cs) \<and> utf8_wf (drop (utf8_needed c) cs))"
  by pat_completeness auto
termination by (relation "measure length") auto

section \<open>The escape loop writes a prefix of the escaped text\<close>

lemma json_escs_simps [simp]:
  "json_escs [] = []" "json_escs (c # s) = json_esc c @ json_escs s"
  "json_escs (s @ t) = json_escs s @ json_escs t"
  by (simp_all add: json_escs_def)

lemma length_hex4 [simp]: "length (hex4 n) = 4"
  by (simp add: hex4_def)

lemma json_escape_loop_unfold:
  "json_escape_loop n (c # cs) dst =
     (if \<not> length dst + 1 < n then (dst, False)
      else if length dst + length (json_esc c) < n then json_escape_loop n cs (dst @ json_esc c)
      else (dst, True))"
  by (simp add: json_esc_def)

declare json_escape_loop.simps(2) [simp del]

lemma json_esc_nonempty: "json_esc c \<noteq> []"
  by (simp add: json_esc_def)

lemma json_escape_loop_prefix:
  assumes "json_escape_loop n src dst = (out, t)" and "length dst < n"
  shows "\<exists>k \<le> length src. out = dst @ json_escs (take k src) \<and> length out < n \<and>
           (k < length src \<longrightarrow> t \<or> length out + 1 \<ge> n)"
  using assms
proof (induction src arbitrary: dst)
  case Nil
  then show ?case by simp
next
  case (Cons c cs)
  show ?case
  proof (cases "length dst + 1 < n \<and> length dst + length (json_esc c) < n")
    case True
    with Cons.prems have "json_escape_loop n cs (dst @ json_esc c) = (out, t)"
      by (simp add: json_escape_loop_unfold)
    from Cons.IH[OF this] True obtain k where
      "k \<le> length cs" "out = (dst @ json_esc c) @ json_escs (take k cs)" "length out < n"
      "k < length cs \<longrightarrow> t \<or> length out + 1 \<ge> n"
      by (metis length_append)
    then show ?thesis by (intro exI[of _ "Suc k"]) auto
  next
    case False
    with Cons.prems have "out = dst \<and> (t \<or> length out + 1 \<ge> n)"
      by (auto simp: json_escape_loop_unfold split: if_splits)
    with Cons.prems(2) show ?thesis by (intro exI[of _ 0]) auto
  qed
qed

lemma json_escape_loop_fits:
  "length dst + length (json_escs src) < n \<Longrightarrow>
   json_escape_loop n src dst = (dst @ json_escs src, False)"
proof (induction src arbitrary: dst)
  case Nil
  then show ?case by simp
next
  case (Cons c cs)
  have "1 \<le> length (json_esc c)" using json_esc_nonempty[of c] by (cases "json_esc c") auto
  with Cons show ?case by (simp add: json_escape_loop_unfold)
qed

section \<open>UTF-8 roll-back\<close>

text \<open>The byte classes as intervals, by the eight bits of a byte.\<close>

lemma byte_class_simps:
  "((ord c AND 0xC0) = (0x80 :: nat)) = (0x80 \<le> (ord c :: nat) \<and> ord c < (0xC0 :: nat))"
  "((ord c AND 0x80) = (0 :: nat)) = (ord c < (0x80 :: nat))"
  "((ord c AND 0xE0) = (0xC0 :: nat)) = (0xC0 \<le> (ord c :: nat) \<and> ord c < (0xE0 :: nat))"
  "((ord c AND 0xF0) = (0xE0 :: nat)) = (0xE0 \<le> (ord c :: nat) \<and> ord c < (0xF0 :: nat))"
  "((ord c AND 0xF8) = (0xF0 :: nat)) = (0xF0 \<le> (ord c :: nat) \<and> ord c < (0xF8 :: nat))"
  by (cases c, simp flip: numeral_2_eq_2 numeral_3_eq_3)+

lemma utf8_cont_iff: "utf8_cont c \<longleftrightarrow> 0x80 \<le> ord c \<and> ord c < (0xC0 :: nat)"
  by (simp add: utf8_cont_def byte_class_simps)

lemma utf8_needed_iff:
  "utf8_needed c = (if ord c < (0xC0 :: nat) then 0 else if ord c < (0xE0 :: nat) then 1
     else if ord c < (0xF0 :: nat) then 2 else if ord c < (0xF8 :: nat) then 3 else 0)"
  by (auto simp: utf8_needed_def byte_class_simps)

lemma utf8_back_conts:
  "list_all utf8_cont cs \<Longrightarrow> \<not> utf8_cont lead \<Longrightarrow>
   utf8_back (x @ lead # cs) (Suc (length x + length cs)) = Suc (length x)"
proof (induction cs rule: rev_induct)
  case Nil
  then show ?case by simp
next
  case (snoc d ds)
  have eq: "utf8_back (x @ lead # ds @ [d]) k = utf8_back (x @ lead # ds) k"
    if "k \<le> Suc (length x + length ds)" for k
    using that
  proof (induction k)
    case (Suc k)
    then have "(x @ lead # ds @ [d]) ! k = (x @ lead # ds) ! k"
      using nth_append[of "x @ lead # ds" "[d]" k] by simp
    with Suc show ?case by simp
  qed simp
  have "(x @ lead # ds @ [d]) ! Suc (length x + length ds) = d"
    using nth_append_length[of "x @ lead # ds" d] by simp
  moreover have "utf8_back (x @ lead # ds @ [d]) (Suc (length x + length ds)) = Suc (length x)"
    using snoc eq[of "Suc (length x + length ds)"] by simp
  ultimately show ?case using snoc.prems by (simp del: utf8_back.simps add: utf8_back.simps(2)[of _ "Suc (length x + length ds)"])
qed

lemma utf8_back_all_cont: "list_all utf8_cont (take k dst) \<Longrightarrow> k \<le> length dst \<Longrightarrow> utf8_back dst k = 0"
  by (induction k) (auto simp: take_Suc_conv_app_nth)

lemma utf8_rollback_tail:
  "list_all utf8_cont cs \<Longrightarrow> \<not> utf8_cont lead \<Longrightarrow>
   utf8_rollback (x @ lead # cs) = (if length cs < utf8_needed lead then x else x @ lead # cs)"
  using utf8_back_conts[of cs lead x] by (simp add: utf8_rollback_def Let_def)

lemma split_conts: "list_all utf8_cont s \<or> (\<exists>x lead cs. s = x @ lead # cs \<and> \<not> utf8_cont lead \<and> list_all utf8_cont cs)"
proof (induction s rule: rev_induct)
  case Nil
  then show ?case by simp
next
  case (snoc d s)
  show ?case
  proof (cases "utf8_cont d")
    case True
    from snoc show ?thesis
    proof (elim disjE exE conjE)
      fix x lead cs assume "s = x @ lead # cs" "\<not> utf8_cont lead" "list_all utf8_cont cs"
      with True show ?thesis by (intro disjI2 exI[of _ x] exI[of _ lead] exI[of _ "cs @ [d]"]) simp
    qed (simp add: True)
  next
    case False
    then show ?thesis by (intro disjI2 exI[of _ s] exI[of _ d] exI[of _ "[]"]) simp
  qed
qed

lemma utf8_rollback_all_cont: "list_all utf8_cont s \<Longrightarrow> utf8_rollback s = s"
  using utf8_back_all_cont[of "length s" s] by (simp add: utf8_rollback_def Let_def)

lemma utf8_rollback_cases:
  obtains (keep) "utf8_rollback s = s"
  | (cut) x lead cs where "s = x @ lead # cs" "utf8_rollback s = x" "list_all utf8_cont cs"
      "0xC0 \<le> (ord lead :: nat)" "length cs < utf8_needed lead"
proof -
  consider "list_all utf8_cont s" | x lead cs where "s = x @ lead # cs" "\<not> utf8_cont lead" "list_all utf8_cont cs"
    using split_conts by blast
  then show thesis
  proof cases
    case 1
    then show thesis using keep utf8_rollback_all_cont by blast
  next
    case 2
    then show thesis
      using keep cut utf8_rollback_tail[of cs lead x]
      by (cases "length cs < utf8_needed lead") (auto simp: utf8_needed_iff split: if_splits)
  qed
qed

lemma hexdigit_ascii: "n < 16 \<Longrightarrow> ord (hexdigit n) < (0x80 :: nat)"
  by (simp add: hexdigit_def)

lemma json_esc_high: "\<not> ord c < (0x80 :: nat) \<Longrightarrow> json_esc c = [c]"
  by (auto simp: json_esc_def)

lemma json_esc_ascii: "ord c < (0x80 :: nat) \<Longrightarrow> \<forall>d \<in> set (json_esc c). ord d < (0x80 :: nat)"
  by (auto simp: json_esc_def hex4_def intro: hexdigit_ascii)

lemma json_escs_raw: "\<forall>c \<in> set y. \<not> ord c < (0x80 :: nat) \<Longrightarrow> json_escs y = y"
  by (induction y) (auto simp: json_esc_high)

lemma json_escs_high_tail:
  "json_escs p = x @ y \<Longrightarrow> \<forall>c \<in> set y. \<not> ord c < (0x80 :: nat) \<Longrightarrow> \<exists>p'. p = p' @ y \<and> json_escs p' = x"
proof (induction p arbitrary: x y rule: rev_induct)
  case Nil
  then show ?case by simp
next
  case (snoc c p)
  show ?case
  proof (cases y rule: rev_cases)
    case Nil
    with snoc.prems show ?thesis by (intro exI[of _ "p @ [c]"]) simp
  next
    case (snoc y' d)
    with snoc.prems have eq: "json_escs p @ json_esc c = (x @ y') @ [d]" and d: "\<not> ord d < (0x80 :: nat)"
      by auto
    have "d \<in> set (json_esc c)"
      using eq json_esc_nonempty[of c] by (metis append_is_Nil_conv last_appendR last_in_set last_snoc)
    with d have c: "\<not> ord c < (0x80 :: nat)" using json_esc_ascii by blast
    with eq have "json_escs p = x @ y'" "c = d" by (simp_all add: json_esc_high)
    with snoc.IH snoc.prems(2) snoc show ?thesis by fastforce
  qed
qed

text \<open>The text the escaper leaves is the escape of a prefix of the source.\<close>

lemma json_escape_prefix:
  assumes "hnc_json_escape src n = Some out"
  shows "\<exists>k \<le> length src. out = json_escs (take k src)" and "length out < n"
proof -
  obtain dst t where loop: "json_escape_loop n src [] = (dst, t)" by fastforce
  from assms have n: "0 < n" by (auto simp: hnc_json_escape_def split: if_splits)
  from json_escape_loop_prefix[OF loop] n obtain k where
    k: "k \<le> length src" "dst = json_escs (take k src)" "length dst < n" by auto
  from assms loop have out: "out = utf8_rollback dst \<or> out = dst"
    by (auto simp: hnc_json_escape_def split: if_splits)
  have "(\<exists>k \<le> length src. out = json_escs (take k src)) \<and> length out < n"
  proof (cases dst rule: utf8_rollback_cases)
    case keep
    with out k show ?thesis by auto
  next
    case (cut x lead cs)
    have "\<forall>c \<in> set (lead # cs). \<not> ord c < (0x80 :: nat)"
      using cut by (auto simp: list_all_iff utf8_cont_iff)
    with json_escs_high_tail[of "take k src" x "lead # cs"] cut k obtain p' where
      p': "take k src = p' @ lead # cs" "json_escs p' = x" by auto
    then have "p' = take (length p') src"
      by (metis append_eq_conv_conj take_all_iff take_take min_def nle_le length_take)
    with p' have "x = json_escs (take (length p') src)" "length p' \<le> length src"
      using k(1) by (auto, metis append_eq_conv_conj length_take min.bounded_iff nle_le take_all_iff)
    with out k cut show ?thesis by fastforce
  qed
  then show "\<exists>k \<le> length src. out = json_escs (take k src)" "length out < n" by auto
qed

section \<open>UTF-8 well-formedness survives escaping and truncation\<close>

lemma utf8_char_append_wf: "utf8_char b \<Longrightarrow> utf8_wf (b @ s) = utf8_wf s"
  by (cases b) (auto simp: utf8_char_def)

lemma utf8_wf_append: "utf8_wf s \<Longrightarrow> utf8_wf (s @ t) = utf8_wf t"
proof (induction s rule: utf8_wf.induct)
  case (2 c cs)
  then have ch: "utf8_char (c # take (utf8_needed c) cs)" by simp
  have "(c # cs) @ t = (c # take (utf8_needed c) cs) @ (drop (utf8_needed c) cs @ t)" by simp
  with 2 utf8_char_append_wf[OF ch] show ?case by (metis utf8_wf.simps(2))
qed simp

lemma utf8_wf_ascii: "\<forall>c \<in> set s. ord c < (0x80 :: nat) \<Longrightarrow> utf8_wf s"
  by (induction s) (auto simp: utf8_char_def utf8_needed_iff utf8_cont_iff)

lemma json_escs_utf8_char: "utf8_char b \<Longrightarrow> utf8_wf (json_escs b)"
proof (cases b)
  case (Cons c cs)
  assume b: "utf8_char b"
  show ?thesis
  proof (cases "ord c < (0x80 :: nat)")
    case True
    with b Cons have "b = [c]" by (auto simp: utf8_char_def utf8_needed_iff)
    with True show ?thesis using utf8_wf_ascii json_esc_ascii by simp
  next
    case False
    with b Cons have "\<forall>d \<in> set b. \<not> ord d < (0x80 :: nat)"
      by (auto simp: utf8_char_def utf8_cont_iff list_all_iff)
    then have "json_escs b = b" by (rule json_escs_raw)
    with b Cons utf8_char_append_wf[of b "[]"] show ?thesis by simp
  qed
qed (simp add: utf8_char_def)

lemma utf8_char_wf: "utf8_char b \<Longrightarrow> utf8_wf b"
  using utf8_char_append_wf[of b "[]"] by simp

text \<open>A prefix of well-formed text is well-formed text and the beginning of one more character.\<close>

lemma utf8_wf_take:
  assumes "utf8_wf s" and "k < length s"
  shows "\<exists>w r b. take k s = w @ r \<and> utf8_wf w \<and> utf8_char b \<and> strict_prefix r b"
  using assms
proof (induction s arbitrary: k rule: utf8_wf.induct)
  case (2 c cs)
  let ?b = "c # take (utf8_needed c) cs" and ?t = "drop (utf8_needed c) cs"
  have split: "c # cs = ?b @ ?t" and ch: "utf8_char ?b" using 2 by auto
  show ?case
  proof (cases "k < length ?b")
    case True
    have "take k (c # cs) = take k ?b" using True split by (metis take_append diff_is_0_eq less_imp_le_nat take_0 append_Nil2)
    moreover have "strict_prefix (take k ?b) ?b"
      unfolding strict_prefix_def using True take_is_prefix[of k ?b] length_take[of k ?b] by force
    ultimately show ?thesis using ch by (metis append_Nil utf8_wf.simps(1))
  next
    case False
    have "utf8_wf ?t" "k - length ?b < length ?t" using 2 False by auto
    from "2.IH"[OF this] obtain w r b where
      wr: "take (k - length ?b) ?t = w @ r" "utf8_wf w" "utf8_char b" "strict_prefix r b" by blast
    have "take k (c # cs) = ?b @ take (k - length ?b) ?t"
      using False by (metis split take_append take_all_iff linorder_not_less)
    with wr have "take k (c # cs) = (?b @ w) @ r" "utf8_wf (?b @ w)"
      using utf8_char_append_wf[OF ch] by (simp_all only: append_assoc)
    with wr show ?thesis by blast
  qed
qed simp

lemma json_escs_wf: "utf8_wf s \<Longrightarrow> utf8_wf (json_escs s)"
proof (induction s rule: utf8_wf.induct)
  case (2 c cs)
  then have "utf8_wf (json_escs (c # take (utf8_needed c) cs))"
    by (intro json_escs_utf8_char) simp
  with 2 have "utf8_wf (json_escs (c # take (utf8_needed c) cs) @ json_escs (drop (utf8_needed c) cs))"
    by (subst utf8_wf_append) auto
  then show ?case by (metis append_Cons append_take_drop_id json_escs_simps(3))
qed simp

text \<open>Complete text ends in a complete character, so nothing is rolled back.\<close>

lemma utf8_wf_snoc_char: "utf8_wf s \<Longrightarrow> s \<noteq> [] \<Longrightarrow> \<exists>w b. s = w @ b \<and> utf8_char b \<and> utf8_wf w"
proof (induction s rule: utf8_wf.induct)
  case (2 c cs)
  let ?b = "c # take (utf8_needed c) cs" and ?t = "drop (utf8_needed c) cs"
  have split: "c # cs = ?b @ ?t" and ch: "utf8_char ?b" using 2 by auto
  show ?case
  proof (cases "?t = []")
    case True
    then show ?thesis using split ch by (metis append_Nil append_Nil2 utf8_wf.simps(1))
  next
    case False
    with 2 obtain w b where "?t = w @ b" "utf8_char b" "utf8_wf w" by auto
    then show ?thesis using split ch utf8_char_append_wf[OF ch] by (metis append_assoc)
  qed
qed simp

lemma utf8_rollback_wf: "utf8_wf s \<Longrightarrow> utf8_rollback s = s"
proof (cases "s = []")
  case True
  then show ?thesis by (simp add: utf8_rollback_def)
next
  case False
  assume "utf8_wf s"
  with False obtain w b where "s = w @ b" "utf8_char b" using utf8_wf_snoc_char by blast
  then show ?thesis
    by (cases b) (auto simp: utf8_char_def utf8_rollback_tail)
qed

lemma utf8_rollback_partial:
  assumes "utf8_wf w" and "utf8_char b" and "strict_prefix r b"
  shows "utf8_rollback (w @ r) = w"
proof (cases r)
  case Nil
  with assms show ?thesis by (simp add: utf8_rollback_wf)
next
  case (Cons c cs)
  from assms(3) obtain zs where "b = r @ zs" "zs \<noteq> []" by (auto simp: strict_prefix_def prefix_def)
  with Cons assms(2) have "list_all utf8_cont cs" "\<not> utf8_cont c" "length cs < utf8_needed c"
    by (auto simp: utf8_char_def simp flip: length_greater_0_conv)
  with Cons show ?thesis by (simp add: utf8_rollback_tail)
qed

lemma strict_prefix_escs_raw:
  assumes "utf8_char b" and "strict_prefix r b"
  shows "json_escs r = r"
proof (cases r)
  case (Cons c cs)
  from assms(2) obtain zs where "b = r @ zs" "zs \<noteq> []" by (auto simp: strict_prefix_def prefix_def)
  with Cons assms(1) have "0 < utf8_needed c" "list_all utf8_cont cs"
    by (auto simp: utf8_char_def simp flip: length_greater_0_conv)
  with Cons have "\<forall>d \<in> set r. \<not> ord d < (0x80 :: nat)"
    by (auto simp: utf8_cont_iff utf8_needed_iff list_all_iff not_less split: if_splits)
  then show ?thesis by (rule json_escs_raw)
qed simp

lemma json_escape_utf8:
  assumes "utf8_wf src" and "hnc_json_escape src n = Some out"
  shows "utf8_wf out"
proof -
  obtain dst t where loop: "json_escape_loop n src [] = (dst, t)" by fastforce
  from assms(2) have n: "0 < n" by (auto simp: hnc_json_escape_def split: if_splits)
  from json_escape_loop_prefix[OF loop] n obtain k where
    k: "k \<le> length src" "dst = json_escs (take k src)" "k < length src \<longrightarrow> t \<or> length dst + 1 \<ge> n" by auto
  show ?thesis
  proof (cases "k < length src")
    case True
    with k have "src \<noteq> []" "t \<or> length dst + 1 \<ge> n" by auto
    with assms(2) loop have out: "out = utf8_rollback dst"
      by (auto simp: hnc_json_escape_def split: if_splits)
    from utf8_wf_take[OF assms(1) True] obtain w r b where
      wr: "take k src = w @ r" "utf8_wf w" "utf8_char b" "strict_prefix r b" by blast
    then have "dst = json_escs w @ r" using k strict_prefix_escs_raw by simp
    with wr out have "out = json_escs w" using utf8_rollback_partial[OF json_escs_wf] by blast
    with wr json_escs_wf show ?thesis by simp
  next
    case False
    with k have wf: "utf8_wf dst" using json_escs_wf[OF assms(1)] by simp
    moreover have "out = dst"
      using assms(2) loop utf8_rollback_wf[OF wf] by (auto simp: hnc_json_escape_def split: if_splits)
    ultimately show ?thesis by simp
  qed
qed

text \<open>Text that fits is escaped completely.\<close>

lemma json_escape_complete:
  assumes "utf8_wf src" and "length (json_escs src) < n"
  shows "hnc_json_escape src n = Some (json_escs src)"
  using assms json_escape_loop_fits[of "[]" src n] utf8_rollback_wf[OF json_escs_wf[OF assms(1)]]
  by (auto simp: hnc_json_escape_def)

lemma json_escape_complete_room:
  "length (json_escs src) + 1 < n \<Longrightarrow> hnc_json_escape src n = Some (json_escs src)"
  using json_escape_loop_fits[of "[]" src n] by (auto simp: hnc_json_escape_def)

section \<open>The manual-name scan finds exactly the keys of a well-formed file\<close>

definition mac_text :: "string \<Rightarrow> bool" where
  "mac_text m \<longleftrightarrow> m \<noteq> [] \<and> length m \<le> 27 \<and> hd m \<noteq> CHR '':'' \<and> list_all (\<lambda>c. c_isxdigit c \<or> c = CHR '':'') m"

definition manual_pat :: "string \<Rightarrow> string" where
  "manual_pat m = DQ # m @ [DQ, CHR '':'', DQ]"

lemma ci_prefix_pat:
  "ci_prefix (manual_pat m) s \<longleftrightarrow>
     (\<exists>k t. s = DQ # k @ [DQ, CHR '':'', DQ] @ t \<and> strcasecmp_eq k m)"
proof
  assume "ci_prefix (manual_pat m) s"
  then obtain t' where "map c_tolower s = DQ # map c_tolower m @ DQ # CHR '':'' # DQ # t'"
    by (auto simp: ci_prefix_def prefix_def manual_pat_def)
  then show "\<exists>k t. s = DQ # k @ [DQ, CHR '':'', DQ] @ t \<and> strcasecmp_eq k m"
    by (fastforce simp: map_eq_Cons_conv map_eq_append_conv strcasecmp_eq_def)
qed (auto simp: ci_prefix_def prefix_def manual_pat_def strcasecmp_eq_def)

lemma mac_text_char:
  assumes "strcasecmp_eq k m" and "mac_text m" and "c \<in> set k"
  shows "c_isxdigit c \<or> c = CHR '':''"
proof -
  have "set (map c_tolower k) = set (map c_tolower m)" using assms(1) by (simp only: strcasecmp_eq_def)
  with assms(3) obtain d where "d \<in> set m" "c_tolower c = c_tolower d" by auto
  moreover from this(1) assms(2) have "c_isxdigit d \<or> d = CHR '':''" by (auto simp: mac_text_def list_all_iff)
  ultimately show ?thesis using c_isxdigit_tolower[of c] c_isxdigit_tolower[of d] by auto
qed

lemma mac_text_shape:
  assumes "strcasecmp_eq k m" and "mac_text m"
  shows "k \<noteq> []" "hd k \<noteq> CHR '':''" "DQ \<notin> set k" "BSL \<notin> set k" "CHR '','' \<notin> set k" "CHR ''}'' \<notin> set k"
proof -
  have notin: "c \<notin> set k" if "\<not> c_isxdigit c" "c \<noteq> CHR '':''" for c
    using mac_text_char[OF assms] that by blast
  show "DQ \<notin> set k" "BSL \<notin> set k" "CHR '','' \<notin> set k" "CHR ''}'' \<notin> set k"
    by (rule notin; simp add: c_isxdigit_def c_isdigit_def)+
  show "k \<noteq> []" using assms by (auto simp: strcasecmp_eq_def mac_text_def)
  show "hd k \<noteq> CHR '':''"
    using assms by (cases k; cases m) (auto simp: strcasecmp_eq_def mac_text_def)
qed

lemma value_no_match:
  assumes "mac_text m" and "sep = CHR '','' \<or> sep = CHR ''}''"
  shows "\<not> ci_prefix (manual_pat m) (DQ # esc_name v @ DQ # sep # rest)"
proof
  assume "ci_prefix (manual_pat m) (DQ # esc_name v @ DQ # sep # rest)"
  then obtain k t where eq: "esc_name v @ DQ # sep # rest = k @ DQ # CHR '':'' # DQ # t" and k: "strcasecmp_eq k m"
    by (auto simp: ci_prefix_pat)
  from mac_text_shape[OF k assms(1)] have "DQ \<notin> set k" "BSL \<notin> set k" by auto
  with eq assms(2) show False
  proof (induction v arbitrary: k)
    case Nil
    then show ?case by (cases k) auto
  next
    case (Cons c v)
    then show ?case by (cases k) (auto split: if_splits)
  qed
qed

lemma manual_scan_step:
  "\<not> ci_prefix pat (c # cs) \<Longrightarrow> manual_scan pat n left (c # cs) = manual_scan pat n (c # left) cs"
  by simp

lemma manual_scan_plain:
  "DQ \<notin> set u \<Longrightarrow> manual_scan (manual_pat m) n left (u @ s) = manual_scan (manual_pat m) n (rev u @ left) s"
  by (induction u arbitrary: left) (auto simp: ci_prefix_pat)

lemma manual_scan_value:
  assumes "mac_text m" and "sep = CHR '','' \<or> sep = CHR ''}''"
  shows "manual_scan (manual_pat m) n left (esc_name v @ DQ # sep # rest) =
         manual_scan (manual_pat m) n (rev (esc_name v) @ left) (DQ # sep # rest)"
proof (induction v arbitrary: left)
  case Nil
  then show ?case by simp
next
  case (Cons c v)
  consider "c = DQ" | "c = BSL" | "c \<noteq> DQ" "c \<noteq> BSL" by blast
  then show ?case
  proof cases
    case 1
    with Cons value_no_match[OF assms, of v rest] show ?thesis
      using manual_scan_plain[of "[BSL]" m n left] by (simp add: manual_scan_step)
  next
    case 2
    with Cons show ?thesis using manual_scan_plain[of "[BSL, BSL]" m n left] by simp
  next
    case 3
    with Cons show ?thesis using manual_scan_plain[of "[c]" m n left] by simp
  qed
qed

lemma copy_name_esc: "copy_name n (esc_name v @ DQ # rest) = take n v"
proof (induction v arbitrary: n)
  case Nil
  then show ?case by (cases n) auto
next
  case (Cons c v)
  then show ?case by (cases n) (auto simp: take_Cons')
qed

text \<open>An entry whose key is another address is skipped whole.\<close>

lemma manual_scan_entry_skip:
  assumes m: "mac_text m" and e: "mac_text k" and sep: "sep = CHR '','' \<or> sep = CHR ''}''"
    and ne: "\<not> strcasecmp_eq k m"
  shows "\<exists>left'. manual_scan (manual_pat m) n left (names_entry (k, v) @ sep # rest) =
         manual_scan (manual_pat m) n (DQ # left') (sep # rest)"
proof -
  let ?S = "manual_scan (manual_pat m) n"
  have kk: "DQ \<notin> set k" "hd k \<noteq> CHR '':''" "k \<noteq> []"
    using mac_text_shape[OF _ e, of k] by (auto simp: strcasecmp_eq_def)
  have "\<not> ci_prefix (manual_pat m) (names_entry (k, v) @ sep # rest)"
    using ne kk(1) mac_text_shape(3)[OF _ m] by (auto simp: ci_prefix_pat names_entry_def append_sep_eq)
  then have "?S left (names_entry (k, v) @ sep # rest) =
      ?S (rev k @ DQ # left) (DQ # CHR '':'' # DQ # esc_name v @ DQ # sep # rest)"
    using manual_scan_plain[OF kk(1), of m n "DQ # left"] by (simp add: names_entry_def manual_scan_step)
  also have "\<dots> = ?S (CHR '':'' # DQ # rev k @ DQ # left) (DQ # esc_name v @ DQ # sep # rest)"
  proof -
    have "\<not> ci_prefix (manual_pat m) (DQ # CHR '':'' # s)" for s
      using mac_text_shape(1,2)[OF _ m] by (fastforce simp: ci_prefix_pat Cons_eq_append_conv)
    then show ?thesis using manual_scan_plain[of "[CHR '':'']" m n] by (simp add: manual_scan_step)
  qed
  also have "\<dots> = ?S (rev (esc_name v) @ DQ # CHR '':'' # DQ # rev k @ DQ # left) (DQ # sep # rest)"
    using value_no_match[OF m sep, of v rest] manual_scan_value[OF m sep] by (simp add: manual_scan_step)
  also have "\<dots> = ?S (DQ # rev (esc_name v) @ DQ # CHR '':'' # DQ # rev k @ DQ # left) (sep # rest)"
  proof -
    have "\<not> ci_prefix (manual_pat m) (DQ # sep # rest)"
      using mac_text_shape(1,5,6)[OF _ m] sep by (fastforce simp: ci_prefix_pat Cons_eq_append_conv)
    then show ?thesis by (rule manual_scan_step)
  qed
  finally show ?thesis by blast
qed

lemma manual_scan_entry_hit:
  assumes "strcasecmp_eq k m" and "anchored left"
  shows "manual_scan (manual_pat m) n left (names_entry (k, v) @ rest) = Some (take (size_dec n) v)"
proof -
  have len: "length k = length m" using assms(1) by (metis length_map strcasecmp_eq_def)
  have "drop (length (manual_pat m)) (names_entry (k, v) @ rest) = esc_name v @ DQ # rest"
    using len by (simp add: names_entry_def manual_pat_def)
  moreover have "ci_prefix (manual_pat m) (names_entry (k, v) @ rest)"
    using assms(1) by (auto simp: ci_prefix_pat names_entry_def)
  ultimately show ?thesis using assms(2) copy_name_esc by (simp add: names_entry_def)
qed

lemma manual_scan_body:
  assumes "mac_text m" and "\<forall>e \<in> set es. mac_text (fst e)" and "anchored left"
  shows "manual_scan (manual_pat m) n left (names_body es @ [CHR ''}'']) =
         map_option (\<lambda>e. take (size_dec n) (snd e)) (find (\<lambda>e. strcasecmp_eq (fst e) m) es)"
  using assms(2,3)
proof (induction es arbitrary: left rule: names_body.induct)
  case 1
  then show ?case by (simp add: ci_prefix_pat)
next
  case (2 e)
  then show ?case
    using manual_scan_entry_hit[of "fst e" m left n "snd e" "[CHR ''}'']"]
      manual_scan_entry_skip[OF assms(1), of "fst e" "CHR ''}''" n left "snd e" "[]"]
    by (auto simp: ci_prefix_pat)
next
  case (3 e e' es)
  show ?case
  proof (cases "strcasecmp_eq (fst e) m")
    case True
    with 3 show ?thesis using manual_scan_entry_hit[of "fst e" m left n "snd e"] by simp
  next
    case False
    obtain left' where "manual_scan (manual_pat m) n left (names_entry e @ CHR '','' # names_body (e' # es) @ [CHR ''}'']) =
         manual_scan (manual_pat m) n (DQ # left') (CHR '','' # names_body (e' # es) @ [CHR ''}''])"
      using manual_scan_entry_skip[OF assms(1), of "fst e" "CHR '',''" n left "snd e"] 3 False by fastforce
    also have "\<dots> = manual_scan (manual_pat m) n (CHR '','' # DQ # left') (names_body (e' # es) @ [CHR ''}''])"
      using manual_scan_plain[of "[CHR '','']" m n] by simp
    finally show ?thesis using 3 False by (simp add: anchored_def json_ws_def)
  qed
qed

lemma nulfree_names_body:
  "\<forall>e \<in> set es. mac_text (fst e) \<and> nulfree (snd e) \<Longrightarrow> nulfree (names_body es)"
proof (induction es rule: names_body.induct)
  have m: "mac_text k \<Longrightarrow> nulfree k" for k
    by (auto simp: mac_text_def nulfree_def list_all_iff c_isxdigit_def c_isdigit_def)
  {
    case (2 e)
    then show ?case using m by (simp add: names_entry_def nulfree_esc_name)
  next
    case (3 e e' es)
    then show ?case using m by (simp add: names_entry_def nulfree_esc_name)
  }
qed simp

lemma lookup_manual_names_json:
  assumes "mac_text m" and "\<forall>e \<in> set es. mac_text (fst e) \<and> nulfree (snd e)" and "length (names_json es) \<le> 8191"
  shows "hnc_lookup_manual_name m (Some (names_json es)) outlen =
     (case find (\<lambda>e. strcasecmp_eq (fst e) m) es of
        None \<Rightarrow> (False, None)
      | Some e \<Rightarrow> let name = take (size_dec outlen) (snd e) in (name \<noteq> [], Some name))"
proof -
  have pat: "cbuf 32 (DQ # m @ [DQ, CHR '':'', DQ]) = manual_pat m"
    using assms(1) by (simp add: mac_text_def manual_pat_def)
  have cs: "cstr (names_json es) = names_json es"
    using nulfree_names_body[OF assms(2)] by (simp add: names_json_def)
  have ne: "names_json es \<noteq> []" by (simp add: names_json_def)
  have "manual_scan (manual_pat m) outlen [] (names_json es) =
        manual_scan (manual_pat m) outlen [CHR ''{''] (names_body es @ [CHR ''}''])"
    using manual_scan_plain[of "[CHR ''{'']" m outlen "[]"] by (simp add: names_json_def)
  also have "\<dots> = map_option (\<lambda>e. take (size_dec outlen) (snd e)) (find (\<lambda>e. strcasecmp_eq (fst e) m) es)"
    using manual_scan_body assms by (simp add: anchored_def json_ws_def)
  finally show ?thesis
    using assms(3) cs ne pat by (simp add: hnc_lookup_manual_name_def Let_def split: option.splits)
qed

section \<open>Properties\<close>

text \<open>
  C29: The JSON escaper never writes past its buffer and never emits half of anything: for a
  well-formed UTF-8 source and a buffer of \<open>n > 0\<close> bytes the result is the escaping of a prefix
  of the source, shorter than \<open>n\<close>, again well-formed UTF-8, and it is the escaping of the whole
  source whenever that fits.
\<close>

theorem json_escape_correct:
  assumes "utf8_wf src" and "0 < n"
  shows "\<exists>out k. hnc_json_escape src n = Some out \<and> k \<le> length src \<and> out = json_escs (take k src) \<and>
           length out < n \<and> utf8_wf out \<and> (length (json_escs src) < n \<longrightarrow> out = json_escs src)"
proof -
  obtain out where out: "hnc_json_escape src n = Some out"
    using assms(2) by (cases "json_escape_loop n src []") (auto simp: hnc_json_escape_def)
  with json_escape_prefix[OF out] json_escape_utf8[OF assms(1) out] json_escape_complete[OF assms(1), of n]
  show ?thesis by auto
qed

theorem json_escape_correct_witness:
  "\<exists>out k. hnc_json_escape [CHR ''a'', DQ, CHR 0xE8, CHR 0xAE, CHR 0xBE] 6 = Some out \<and>
     k \<le> length [CHR ''a'', DQ, CHR 0xE8, CHR 0xAE, CHR 0xBE] \<and>
     out = json_escs (take k [CHR ''a'', DQ, CHR 0xE8, CHR 0xAE, CHR 0xBE]) \<and> length out < 6 \<and> utf8_wf out"
proof -
  have "utf8_wf [CHR ''a'', DQ, CHR 0xE8, CHR 0xAE, CHR 0xBE]"
    by (simp add: utf8_char_def utf8_needed_iff utf8_cont_iff)
  from json_escape_correct[OF this zero_less_numeral, of "num.Bit0 (num.Bit1 num.One)"] show ?thesis by blast
qed

text \<open>
  Fast name resolution on a well-formed \<^verbatim>\<open>device_names.json\<close> of at most 8191 bytes returns the
  user's name for the address (compared without case, cut to the buffer) with the source
  \<^verbatim>\<open>manual\<close>, and otherwise (no entry, or an empty name) the MAC fallback with the source \<^verbatim>\<open>mac\<close>.
  Values that look like keys are never matched.
\<close>

lemma resolve_fast_correct:
  assumes "mac_text m" and "\<forall>e \<in> set es. mac_text (fst e) \<and> nulfree (snd e)"
    and "length (names_json es) \<le> 8191" and "1 < hn_len" and "6 < src_len"
  shows "hnc_resolve_hostname_fast m (Some (names_json es)) hn_len src_len =
     (case find (\<lambda>e. strcasecmp_eq (fst e) m) es of
        Some (k, v) \<Rightarrow> if v \<noteq> [] then (cbuf hn_len v, ''manual'') else (the (hnc_mac_fallback m hn_len), ''mac'')
      | None \<Rightarrow> (the (hnc_mac_fallback m hn_len), ''mac''))"
proof -
  have "size_dec hn_len = hn_len - 1" "take (hn_len - 1) v = [] \<longleftrightarrow> v = []" for v :: string
    using assms(4) by (auto simp: size_dec_def)
  moreover obtain hn where "hnc_mac_fallback m hn_len = Some hn"
    using assms(4) by (auto simp: hnc_mac_fallback_def Let_def)
  ultimately show ?thesis
    using assms(5) lookup_manual_names_json[OF assms(1-3), of hn_len]
    by (auto simp: hnc_resolve_hostname_fast_def Let_def cbuf_def split: option.splits)
qed

lemma resolve_fast_correct_witness:
  "hnc_resolve_hostname_fast ''aa:bb'' (Some (names_json [(''AA:BB'', ''Tv'')])) 64 16 = (''Tv'', ''manual'')"
proof -
  have "mac_text ''aa:bb''" "\<forall>e \<in> set [(''AA:BB'', ''Tv'')]. mac_text (fst e) \<and> nulfree (snd e)"
    by (simp_all add: mac_text_def c_isxdigit_def c_isdigit_def)
  moreover have "strcasecmp_eq ''AA:BB'' ''aa:bb''" by (code_simp)
  ultimately show ?thesis
    using resolve_fast_correct[of "''aa:bb''" "[(''AA:BB'', ''Tv'')]" 64 16]
    by (simp add: names_json_def names_entry_def)
qed

text \<open>
  The fallback name of a full address \<^verbatim>\<open>xx:xx:xx:xx:xx:xx\<close> is its last four octets without
  colons, eight characters; of a shorter text it is the text without colons.
\<close>

lemma mac_fallback_last_octets:
  assumes "length octs = 6" and "\<forall>o' \<in> set octs. length o' = 2 \<and> CHR '':'' \<notin> set o'" and "8 < n"
  shows "hnc_mac_fallback (octs ! 0 @ '':'' @ octs ! 1 @ '':'' @ octs ! 2 @ '':'' @ octs ! 3 @ '':'' @ octs ! 4 @ '':'' @ octs ! 5) n
         = Some (concat (drop 2 octs))"
proof -
  obtain a b c d e f where o: "octs = [a, b, c, d, e, f]"
    using assms(1) by (auto simp: eval_nat_numeral length_Suc_conv)
  have nc: "filter (\<lambda>x. x \<noteq> CHR '':'') u = u" if "u \<in> set octs" for u
    using assms(2) that by (intro filter_True) auto
  show ?thesis using assms(2,3) nc by (simp add: o hnc_mac_fallback_def Let_def)
qed

lemma mac_fallback_last_octets_witness:
  "hnc_mac_fallback ''a0:b1:c2:d3:e4:f5'' 64 = Some ''c2d3e4f5''"
  using mac_fallback_last_octets[of "[''a0'', ''b1'', ''c2'', ''d3'', ''e4'', ''f5'']" 64] by simp

end
