(* ===== verification/OuiTable.thy ===== *)
theory OuiTable
  imports HNC_Prelude
begin

text \<open>
  The built-in vendor table \<^verbatim>\<open>HNC_OUI_TABLE\<close> of \<^verbatim>\<open>daemon/hotspotd/hnc_helpers.c\<close>: pairs of a 24-bit
  OUI prefix and a vendor name, in the order of the source.  The table is written in seven
  consecutive parts; \<open>HNC_OUI_TABLE\<close> is their concatenation, and it is proved to be strictly
  ascending, which the binary search of the lookup relies on.
\<close>

type_synonym hnc_oui_entry_t = "nat \<times> string"

definition HNC_OUI_TABLE_0 :: "hnc_oui_entry_t list" where
  "HNC_OUI_TABLE_0 = [
    (0x000048, ''Epson''), (0x0000AA, ''Canon''), (0x00026F, ''Epson''),
    (0x000272, ''HP''), (0x000393, ''Apple''), (0x0005CD, ''Denon''),
    (0x00065B, ''Dell''), (0x000678, ''Denon''), (0x0006F5, ''Denon''),
    (0x000824, ''Toshiba''), (0x000874, ''Dell''), (0x000883, ''HP''),
    (0x000BDB, ''Dell''), (0x000C29, ''Dell''), (0x000D6F, ''IKEA''),
    (0x000E58, ''Sonos''), (0x000F1F, ''Dell''), (0x000F5D, ''Sony''),
    (0x001018, ''TP-Link''), (0x001143, ''Dell''), (0x001240, ''Hikvision''),
    (0x00125A, ''Microsoft''), (0x001315, ''PlayStation''), (0x001319, ''Intel''),
    (0x001343, ''Denon''), (0x001346, ''D-Link''), (0x0013A9, ''Sony''),
    (0x0013E8, ''Intel''), (0x00146C, ''Apple''), (0x0014C2, ''HP''),
    (0x0015B9, ''Samsung''), (0x0015E9, ''D-Link''), (0x0016CB, ''Apple''),
    (0x001788, ''Philips-Hue''), (0x00178B, ''Philips''), (0x0017A4, ''HP''),
    (0x0017C9, ''Samsung''), (0x0017EA, ''Philips''), (0x0017EF, ''Philips''),
    (0x0017FA, ''Microsoft''), (0x001821, ''Dahua''), (0x00188B, ''Dell''),
    (0x0019FD, ''Nintendo''), (0x001A11, ''Google''), (0x001A80, ''Sony''),
    (0x001B11, ''D-Link''), (0x001B2F, ''Netgear''), (0x001B58, ''Panasonic''),
    (0x001BA9, ''Brother''), (0x001BCF, ''Intel''), (0x001BFC, ''ASUS''),
    (0x001CD2, ''Panasonic''), (0x001D25, ''Samsung''), (0x001DBA, ''Sony''),
    (0x001E4F, ''Dell''), (0x001E75, ''LG''), (0x001E7D, ''Vizio''),
    (0x001E8C, ''ASUS''), (0x001E8F, ''Canon''), (0x001FA7, ''PlayStation''),
    (0x001FE3, ''LG''), (0x0020D8, ''Denon''), (0x002127, ''TP-Link''),
    (0x002129, ''Linksys''), (0x00212F, ''Intel''), (0x00215C, ''Apple''),
    (0x0021CC, ''Lenovo''), (0x0021D1, ''Samsung''), (0x002215, ''ASUS''),
    (0x002248, ''Microsoft''), (0x002255, ''Canon''), (0x00225F, ''Microsoft''),
    (0x00228E, ''D-Link''), (0x0022C9, ''Microsoft''), (0x0022D7, ''Nintendo''),
    (0x0022F9, ''Google''), (0x0022FA, ''Lenovo''), (0x0022FB, ''Intel''),
    (0x002339, ''Samsung''), (0x002369, ''Panasonic''), (0x002401, ''D-Link''),
    (0x002419, ''Hikvision''), (0x002454, ''Samsung''), (0x00247E, ''Dell''),
    (0x002481, ''HP''), (0x0024A3, ''Canon''), (0x0024BE, ''Sony''),
    (0x0024D7, ''ASUS''), (0x002500, ''Apple''), (0x002555, ''Toshiba''),
    (0x002564, ''Lenovo''), (0x002568, ''Huawei''), (0x002608, ''Apple''),
    (0x00265D, ''Samsung''), (0x002674, ''Canon''), (0x0026B0, ''Apple''),
    (0x0026BB, ''Apple''), (0x0026E2, ''LG''), (0x0026E8, ''Samsung''),
    (0x0026EF, ''Toshiba''), (0x0026F2, ''Netgear''), (0x0026F3, ''D-Link''),
    (0x002709, ''Nintendo''), (0x002721, ''Intel''), (0x002E76, ''Microsoft''),
    (0x003077, ''Lenovo''), (0x003EE1, ''Harman''), (0x004096, ''Huawei''),
    (0x00464B, ''Huawei''), (0x00480F, ''Epson''), (0x008000, ''HP''),
    (0x008092, ''Brother''), (0x008EF2, ''Xiaomi''), (0x00904C, ''Harman''),
    (0x009E25, ''Amazon''), (0x00A0DE, ''Yamaha''), (0x00A0EE, ''Yamaha''),
    (0x00C2C6, ''Intel''), (0x00D9D1, ''PlayStation''), (0x00E0FC, ''Huawei''),
    (0x026F70, ''Epson''), (0x0400A0, ''Garmin''), (0x0403D6, ''Nintendo''),
    (0x040CCE, ''Apple''), (0x0418D6, ''Ubiquiti''), (0x041CE1, ''Vizio''),
    (0x042665, ''Apple''), (0x0427E2, ''Ubiquiti''), (0x044EAF, ''Tesla''),
    (0x04795F, ''Huawei'')]"

definition HNC_OUI_TABLE_1 :: "hnc_oui_entry_t list" where
  "HNC_OUI_TABLE_1 = [
    (0x047D7B, ''Yamaha''), (0x04924A, ''ASUS''), (0x049E70, ''Hisense''),
    (0x04A316, ''Bose''), (0x04A8B8, ''Panasonic''), (0x04BD70, ''Huawei''),
    (0x04CF8C, ''Aqara''), (0x04DB56, ''Apple''), (0x080027, ''Apple''),
    (0x080046, ''Sony''), (0x08053B, ''Vizio''), (0x0808C2, ''LG''),
    (0x0820EF, ''Epson''), (0x082994, ''Bose''), (0x082E5F, ''Apple''),
    (0x08606E, ''ASUS''), (0x087ED6, ''Intel''), (0x088620, ''TCL''),
    (0x08DF1F, ''Harman''), (0x08FD0E, ''Sony''), (0x0C1DAF, ''Xiaomi''),
    (0x0C37DC, ''Huawei''), (0x0C47C9, ''Amazon''), (0x0C54A5, ''Hikvision''),
    (0x0C715D, ''Samsung''), (0x0C77A6, ''Apple''), (0x0C8463, ''Intel''),
    (0x0C8BFD, ''Lenovo''), (0x0C96BF, ''Huawei''), (0x0C9D92, ''ASUS''),
    (0x0CB2B7, ''Bose''), (0x0CBC9F, ''Apple''), (0x0CE0DC, ''Canon''),
    (0x0CFCBF, ''OPPO''), (0x1023B9, ''Samsung''), (0x1027F5, ''TP-Link''),
    (0x102AB3, ''Xiaomi''), (0x1049BB, ''Samsung''), (0x1065A3, ''Vizio''),
    (0x10683F, ''LG''), (0x107B44, ''ASUS''), (0x10BF48, ''OPPO''),
    (0x10BFDC, ''Hisense''), (0x10C61F, ''Huawei''), (0x10C6FC, ''OPPO''),
    (0x10DA43, ''Netgear''), (0x10DDB1, ''Apple''), (0x141023, ''Xiaomi''),
    (0x14109F, ''Apple''), (0x1427EA, ''TP-Link''), (0x142D27, ''Samsung''),
    (0x145A05, ''Apple''), (0x146D62, ''Toshiba''), (0x147517, ''Lenovo''),
    (0x14914A, ''Linksys''), (0x149192, ''Samsung''), (0x1499E2, ''Apple''),
    (0x14BD61, ''Apple''), (0x14CC20, ''TP-Link''), (0x14D64D, ''D-Link''),
    (0x14DAE9, ''ASUS''), (0x14F42A, ''OPPO''), (0x170880, ''Philips''),
    (0x17880B, ''Philips''), (0x181EB0, ''Samsung''), (0x18549B, ''TCL''),
    (0x18595F, ''Xiaomi''), (0x1866DA, ''Dell''), (0x18749C, ''Amazon''),
    (0x1885C5, ''OPPO''), (0x18AF8F, ''Apple''), (0x18BC5A, ''Tesla''),
    (0x18E73D, ''Nintendo''), (0x1C1B0D, ''Microsoft''), (0x1C1B68, ''Epson''),
    (0x1C1D67, ''Huawei''), (0x1C232C, ''Samsung''), (0x1C35F1, ''Hisense''),
    (0x1C36BB, ''Apple''), (0x1C3BF3, ''TP-Link''), (0x1C4593, ''Canon''),
    (0x1C5A3E, ''Xiaomi''), (0x1C61B4, ''TP-Link''), (0x1C69A5, ''Intel''),
    (0x1C7EE5, ''D-Link''), (0x1C872C, ''ASUS''), (0x1C9E46, ''Canon''),
    (0x1CAF05, ''Samsung''), (0x1CAFF7, ''D-Link''), (0x1CB72C, ''Lenovo''),
    (0x1CBA8C, ''Google''), (0x1CBDB9, ''D-Link''), (0x2004B7, ''Dell''),
    (0x2009CE, ''Bose''), (0x200BC7, ''Huawei''), (0x201A06, ''Intel''),
    (0x201F3B, ''LG''), (0x203CAE, ''Linksys''), (0x203DBD, ''Huawei''),
    (0x204E6B, ''Hisense''), (0x204E7F, ''Netgear''), (0x2085FE, ''Hikvision''),
    (0x20A2E4, ''Apple''), (0x20C6EB, ''Panasonic''), (0x240AC4, ''Espressif''),
    (0x243739, ''Google''), (0x2462AB, ''Espressif''), (0x2469A5, ''Huawei''),
    (0x246F28, ''Espressif''), (0x2477E5, ''Canon''), (0x24A06E, ''Fitbit''),
    (0x24A160, ''Espressif''), (0x24A43C, ''Ubiquiti''), (0x24DA9B, ''Fitbit''),
    (0x24DBAC, ''OPPO''), (0x24E314, ''Apple''), (0x28107B, ''D-Link''),
    (0x28186E, ''Microsoft''), (0x281878, ''Microsoft''), (0x2827BF, ''Samsung''),
    (0x28312A, ''Huawei''), (0x283737, ''Apple''), (0x28395E, ''Samsung''),
    (0x283CE4, ''Huawei''), (0x284180, ''Hikvision''), (0x28570E, ''Hikvision''),
    (0x286C07, ''Xiaomi''), (0x288088, ''Netgear''), (0x2882A4, ''Xiaomi''),
    (0x288335, ''Samsung'')]"

definition HNC_OUI_TABLE_2 :: "hnc_oui_entry_t list" where
  "HNC_OUI_TABLE_2 = [
    (0x2887BA, ''TP-Link''), (0x289AFA, ''Samsung''), (0x28A02B, ''Apple''),
    (0x28B448, ''Huawei''), (0x28E31F, ''Xiaomi''), (0x2C1F23, ''Apple''),
    (0x2C27D7, ''Toshiba''), (0x2C30B5, ''Netgear''), (0x2C54CF, ''LG''),
    (0x2C56DC, ''ASUS''), (0x2C58E8, ''Huawei''), (0x2C598A, ''LG''),
    (0x2C9D1E, ''Huawei''), (0x2C9FFB, ''Canon''), (0x2CAA8E, ''Wyze''),
    (0x2CAB00, ''Huawei''), (0x2CABA4, ''Vizio''), (0x2CAE2B, ''Samsung''),
    (0x2CB05D, ''Netgear''), (0x2CBC10, ''Sony''), (0x2CCF67, ''OPPO''),
    (0x30038A, ''OPPO''), (0x30055C, ''Brother''), (0x300D43, ''Harman''),
    (0x30150E, ''Huawei''), (0x302432, ''Apple''), (0x30469A, ''Netgear''),
    (0x30595B, ''OPPO''), (0x305A3A, ''ASUS''), (0x307C30, ''Hisense''),
    (0x308D99, ''Google''), (0x30AEA4, ''Espressif''), (0x30B5C2, ''TP-Link''),
    (0x30C7AE, ''Samsung''), (0x30F9ED, ''Sony''), (0x34145F, ''Samsung''),
    (0x344DF7, ''LG''), (0x345A60, ''Hisense''), (0x3460F9, ''OPPO''),
    (0x346BD3, ''TP-Link''), (0x3480B3, ''Xiaomi''), (0x348741, ''Samsung''),
    (0x349B1F, ''Samsung''), (0x349FB1, ''Samsung''), (0x34AF2C, ''Nintendo''),
    (0x34B354, ''Huawei''), (0x34D270, ''Amazon''), (0x34DE1A, ''OPPO''),
    (0x34E2FD, ''Sony''), (0x380566, ''Toshiba''), (0x381A52, ''ASUS''),
    (0x382C4A, ''HP''), (0x384B76, ''OPPO''), (0x3859F9, ''Lenovo''),
    (0x38A4ED, ''Xiaomi''), (0x38AA3C, ''Samsung''), (0x38C986, ''Apple''),
    (0x38CA73, ''LG''), (0x38D40B, ''Samsung''), (0x38F73D, ''Amazon''),
    (0x3C0518, ''Samsung''), (0x3C0754, ''Apple''), (0x3C1B6F, ''Dahua''),
    (0x3C22FB, ''Apple''), (0x3C2AF4, ''Epson''), (0x3C5A37, ''LG''),
    (0x3C5CC4, ''Ring''), (0x3C71BF, ''Espressif''), (0x3C84A6, ''TP-Link''),
    (0x3C9544, ''Panasonic''), (0x3C970E, ''Lenovo''), (0x3CEF8C, ''Dahua''),
    (0x3CF011, ''Lenovo''), (0x403FFC, ''Fitbit''), (0x404E36, ''Samsung''),
    (0x40831D, ''Apple''), (0x4083DE, ''Huawei''), (0x409C28, ''Nintendo''),
    (0x40A69D, ''Panasonic''), (0x40A6D9, ''Apple''), (0x40A8F0, ''HP''),
    (0x40B0FA, ''LG''), (0x40B4CD, ''Amazon''), (0x40B837, ''Samsung''),
    (0x40B89A, ''Samsung''), (0x40B8A8, ''Google''), (0x40EC99, ''Hisense''),
    (0x40ED98, ''Garmin''), (0x40F201, ''Arlo''), (0x440319, ''Hikvision''),
    (0x441EA1, ''HP''), (0x444C0C, ''Huawei''), (0x4457DC, ''Amazon''),
    (0x44650D, ''Amazon''), (0x447DA5, ''Amazon''), (0x448A5B, ''Harman''),
    (0x449163, ''Apple''), (0x44B57E, ''Fitbit''), (0x44D244, ''Epson''),
    (0x44D9E7, ''Ubiquiti''), (0x48137E, ''Samsung''), (0x48435A, ''Huawei''),
    (0x48437C, ''Apple''), (0x484971, ''LG''), (0x4852BE, ''Amazon''),
    (0x485B39, ''ASUS''), (0x4865EE, ''Intel''), (0x48A98A, ''Google''),
    (0x48D6D5, ''Bose''), (0x48E729, ''Espressif''), (0x4C0BBE, ''Microsoft''),
    (0x4C11AE, ''Espressif''), (0x4C11BF, ''Dahua''), (0x4C1A3A, ''Yamaha''),
    (0x4C1FCC, ''Huawei''), (0x4C3275, ''Apple''), (0x4C5E0C, ''MikroTik''),
    (0x4C60DE, ''Netgear''), (0x4C7C5F, ''Apple''), (0x4C99E3, ''Hikvision''),
    (0x4CB16C, ''Huawei''), (0x4CBCA5, ''Samsung''), (0x4CBE14, ''Brother''),
    (0x4CEBD6, ''Espressif''), (0x4CF59C, ''Hisense''), (0x4CF95D, ''Huawei''),
    (0x4CFCAA, ''Tesla''), (0x50022A, ''Tuya''), (0x500291, ''Espressif''),
    (0x500809, ''Lenovo'')]"

definition HNC_OUI_TABLE_3 :: "hnc_oui_entry_t list" where
  "HNC_OUI_TABLE_3 = [
    (0x501500, ''Xiaomi''), (0x50465D, ''ASUS''), (0x50640D, ''Xiaomi''),
    (0x5065F3, ''HP''), (0x50C4DD, ''Hisense''), (0x50C7BF, ''TP-Link''),
    (0x50CB1D, ''Intel''), (0x50CCF8, ''Samsung''), (0x50CD22, ''OPPO''),
    (0x50DCE7, ''Amazon''), (0x50EAD6, ''Xiaomi''), (0x50EC50, ''Aqara''),
    (0x541DD9, ''Google''), (0x542696, ''Samsung''), (0x54423E, ''Sony''),
    (0x544249, ''Sony''), (0x546CEB, ''Lenovo''), (0x548998, ''Vizio''),
    (0x54A050, ''ASUS''), (0x54A51B, ''Huawei''), (0x54CF36, ''Tesla''),
    (0x54E1AD, ''Lenovo''), (0x54E43A, ''Apple''), (0x584498, ''Xiaomi''),
    (0x5849BA, ''TCL''), (0x586AB1, ''Hikvision''), (0x58820A, ''Microsoft''),
    (0x58A2B5, ''LG''), (0x58B035, ''Apple''), (0x58B10F, ''Samsung''),
    (0x58BDA3, ''Nintendo''), (0x58C38B, ''Samsung''), (0x58EF68, ''Linksys''),
    (0x58FB84, ''Xiaomi''), (0x5C0A5B, ''Amazon''), (0x5C1B7D, ''Xiaomi''),
    (0x5C3C27, ''Toshiba''), (0x5C497D, ''Samsung''), (0x5C5B35, ''Google''),
    (0x5C628B, ''TP-Link''), (0x5C7D5E, ''Huawei''), (0x5CA5E6, ''Lenovo''),
    (0x5CA86A, ''Huawei''), (0x5CAAFD, ''Sonos''), (0x5CB524, ''Sony''),
    (0x5CCF7F, ''Espressif''), (0x5CD998, ''D-Link''), (0x5CF207, ''Hikvision''),
    (0x5CF6DC, ''Samsung''), (0x5CF938, ''Apple''), (0x5CF9DD, ''Dell''),
    (0x603570, ''Intel''), (0x6038E0, ''Linksys''), (0x60455E, ''Microsoft''),
    (0x60A44C, ''ASUS''), (0x60A4B7, ''TP-Link''), (0x60D819, ''Lenovo''),
    (0x60DE44, ''Huawei''), (0x60E3AC, ''LG''), (0x64004A, ''Dell''),
    (0x64006A, ''Lenovo''), (0x64090C, ''Xiaomi''), (0x640980, ''Xiaomi''),
    (0x64166D, ''Google''), (0x641CB0, ''Huawei''), (0x6466B3, ''Google''),
    (0x6468BC, ''Hisense''), (0x64A651, ''Huawei''), (0x64B853, ''Samsung''),
    (0x64CC2E, ''Xiaomi''), (0x64EB8C, ''Epson''), (0x6805CA, ''Epson''),
    (0x680AE2, ''Tuya''), (0x681599, ''Canon''), (0x687251, ''Ubiquiti''),
    (0x689C70, ''Apple''), (0x68A86D, ''Apple''), (0x68AAD2, ''Google''),
    (0x68AB1E, ''Intel''), (0x68B1D6, ''Canon''), (0x68C63A, ''Espressif''),
    (0x68D93C, ''Apple''), (0x68DBF5, ''Amazon''), (0x68DD26, ''OPPO''),
    (0x68DFDD, ''Xiaomi''), (0x68EBAE, ''Samsung''), (0x6C05D7, ''OPPO''),
    (0x6C0B84, ''Lenovo''), (0x6C2F2C, ''Samsung''), (0x6C3B6B, ''MikroTik''),
    (0x6C5CDE, ''TCL''), (0x6C5F1C, ''Xiaomi''), (0x6CAAB3, ''Google''),
    (0x6CB0CE, ''Netgear''), (0x6CD032, ''LG''), (0x7016CF, ''Google''),
    (0x70288B, ''Samsung''), (0x7054F5, ''Huawei''), (0x705AB6, ''Lenovo''),
    (0x7085C2, ''Intel''), (0x709E29, ''PlayStation''), (0x70A8E3, ''Huawei''),
    (0x70BC10, ''Microsoft''), (0x70D7A7, ''OPPO''), (0x70DEE2, ''Apple''),
    (0x70F927, ''Samsung''), (0x742344, ''Xiaomi''), (0x7451BA, ''LG''),
    (0x747548, ''Amazon''), (0x749975, ''Bose''), (0x74CD42, ''Panasonic''),
    (0x74D55B, ''Tesla''), (0x74D637, ''Amazon''), (0x74E14A, ''Harman''),
    (0x74E5F9, ''Intel''), (0x7811DC, ''Aqara''), (0x781848, ''Lenovo''),
    (0x7824AF, ''ASUS''), (0x78282A, ''Sonos''), (0x7828CA, ''Sonos''),
    (0x782BCB, ''Xiaomi''), (0x784558, ''Ubiquiti''), (0x784F43, ''Vizio''),
    (0x78542E, ''D-Link''), (0x78595E, ''Samsung''), (0x789508, ''Canon''),
    (0x78BDBC, ''Samsung''), (0x78CA39, ''Apple''), (0x78D752, ''Huawei''),
    (0x78F882, ''Samsung'')]"

definition HNC_OUI_TABLE_4 :: "hnc_oui_entry_t list" where
  "HNC_OUI_TABLE_4 = [
    (0x7C1CF1, ''Huawei''), (0x7C1DD9, ''Xiaomi''), (0x7C1E52, ''Microsoft''),
    (0x7C2EBD, ''Google''), (0x7C49EB, ''Xiaomi''), (0x7C6193, ''Samsung''),
    (0x7C6D62, ''Apple''), (0x7C70BC, ''Arlo''), (0x7C76C8, ''Intel''),
    (0x7C78B2, ''Wyze''), (0x7C7D3D, ''Huawei''), (0x7C9EBD, ''Espressif''),
    (0x7CA61D, ''Sony''), (0x7CA9B5, ''Panasonic''), (0x7CBB8A, ''Nintendo''),
    (0x7CC2C6, ''Google''), (0x7CED8D, ''Microsoft''), (0x802AA8, ''Ubiquiti''),
    (0x803773, ''TCL''), (0x805EC0, ''HP''), (0x80656D, ''Samsung''),
    (0x80910A, ''Toshiba''), (0x80927A, ''Brother''), (0x80AFCA, ''Xiaomi''),
    (0x80F73E, ''OPPO''), (0x84119E, ''Samsung''), (0x841B5E, ''Netgear''),
    (0x841B77, ''Epson''), (0x8425DB, ''Samsung''), (0x845387, ''Vizio''),
    (0x848999, ''Panasonic''), (0x84A8E4, ''Huawei''), (0x84C9B2, ''D-Link''),
    (0x84D6D0, ''Amazon''), (0x84DBAC, ''Huawei''), (0x84F3EB, ''Espressif''),
    (0x84FD27, ''IKEA''), (0x88329B, ''Samsung''), (0x88408E, ''Huawei''),
    (0x8863DF, ''Apple''), (0x88708C, ''Lenovo''), (0x8871E5, ''Amazon''),
    (0x887DDE, ''Canon''), (0x88C663, ''Apple''), (0x88C9D0, ''LG''),
    (0x88CEFA, ''Huawei''), (0x88D7F6, ''ASUS''), (0x8C1645, ''Intel''),
    (0x8C53C3, ''Hisense''), (0x8C56C5, ''Nintendo''), (0x8C8590, ''Bose''),
    (0x8CAAB5, ''Espressif''), (0x8CBEBE, ''Xiaomi''), (0x8CDCD4, ''Huawei''),
    (0x902B34, ''Huawei''), (0x90840D, ''Apple''), (0x90940E, ''D-Link''),
    (0x90B21F, ''Apple''), (0x90B6ED, ''Samsung''), (0x9407A9, ''Xiaomi''),
    (0x94181B, ''Ubiquiti''), (0x941A72, ''Huawei''), (0x9422C8, ''Panasonic''),
    (0x9457A5, ''HP''), (0x94B97E, ''Espressif''), (0x94D29B, ''OPPO''),
    (0x94EB2C, ''Google''), (0x94F3B1, ''Sonos''), (0x9809CF, ''OPPO''),
    (0x983B8F, ''Garmin''), (0x9852B1, ''Samsung''), (0x98A7B0, ''Microsoft''),
    (0x98B8E3, ''Apple''), (0x98CDAC, ''Shelly''), (0x98D6F7, ''LG''),
    (0x98DF82, ''Hikvision''), (0x98E743, ''Dell''), (0x98E8FA, ''Nintendo''),
    (0x98ED5C, ''Tesla''), (0x98F4AB, ''Espressif''), (0x98FA9B, ''Xiaomi''),
    (0x9C14C3, ''Dahua''), (0x9C2883, ''Huawei''), (0x9C28EF, ''Huawei''),
    (0x9C3DCF, ''Netgear''), (0x9C53CD, ''TP-Link''), (0x9C5CF9, ''Yamaha''),
    (0x9C93E4, ''Google''), (0x9C99A0, ''Xiaomi''), (0x9CAE4E, ''Epson''),
    (0x9CB2B2, ''Huawei''), (0x9CE063, ''Samsung''), (0xA002DC, ''Amazon''),
    (0xA00BBA, ''TCL''), (0xA020A6, ''Espressif''), (0xA021B7, ''Netgear''),
    (0xA039F7, ''LG''), (0xA040A0, ''Netgear''), (0xA0510B, ''Lenovo''),
    (0xA07591, ''Samsung''), (0xA081B5, ''Huawei''), (0xA086C6, ''Xiaomi''),
    (0xA0B4A5, ''Samsung''), (0xA0BD1D, ''Dahua''), (0xA0C589, ''OPPO''),
    (0xA0C9A0, ''Microsoft''), (0xA0D3C1, ''HP''), (0xA0EDCD, ''Apple''),
    (0xA0F6FD, ''Bose''), (0xA41F72, ''Dell''), (0xA42BB0, ''TP-Link''),
    (0xA434D9, ''Samsung''), (0xA4506B, ''Google''), (0xA475DC, ''Amazon''),
    (0xA4770C, ''Harman''), (0xA4778D, ''Google''), (0xA486C7, ''LG''),
    (0xA48CDB, ''Tuya''), (0xA48E0A, ''Lenovo''), (0xA4B197, ''Apple''),
    (0xA4BA76, ''Huawei''), (0xA4CF12, ''Espressif''), (0xA4D1D2, ''Apple''),
    (0xA4DA22, ''Google''), (0xA4DA32, ''Xiaomi''), (0xA4DDE6, ''Canon''),
    (0xA4EE57, ''Epson''), (0xA855F1, ''Google''), (0xA87DC3, ''Xiaomi''),
    (0xA87EEA, ''Samsung'')]"

definition HNC_OUI_TABLE_5 :: "hnc_oui_entry_t list" where
  "HNC_OUI_TABLE_5 = [
    (0xA8C83A, ''Huawei''), (0xA8D2E0, ''TCL''), (0xA8E3EE, ''PlayStation''),
    (0xAC16B6, ''HP''), (0xAC180E, ''Epson''), (0xAC220B, ''ASUS''),
    (0xAC293A, ''Apple''), (0xAC2DA3, ''OPPO''), (0xAC63BE, ''Amazon''),
    (0xAC8F3B, ''Lenovo''), (0xAC92A4, ''Xiaomi''), (0xAC9B0A, ''Sony''),
    (0xAC9E17, ''ASUS''), (0xACB966, ''Hikvision''), (0xACBC32, ''Amazon''),
    (0xACCF23, ''Panasonic''), (0xACE215, ''Huawei''), (0xACF108, ''LG''),
    (0xB02A43, ''Lenovo''), (0xB03956, ''Netgear''), (0xB047BF, ''Ring''),
    (0xB0481A, ''Apple''), (0xB0487A, ''TP-Link''), (0xB05B99, ''Huawei''),
    (0xB065BD, ''Apple''), (0xB06EBF, ''ASUS''), (0xB06FE0, ''OPPO''),
    (0xB0C554, ''Arlo''), (0xB0DF3A, ''Samsung''), (0xB0E235, ''Xiaomi''),
    (0xB0E43F, ''Microsoft''), (0xB0E892, ''Epson''), (0xB0EC71, ''OPPO''),
    (0xB407F9, ''Sony''), (0xB40B44, ''Samsung''), (0xB42E99, ''Harman''),
    (0xB45D50, ''Canon''), (0xB47443, ''Xiaomi''), (0xB47956, ''Tuya''),
    (0xB47C9C, ''Amazon''), (0xB49691, ''HP''), (0xB499BA, ''HP''),
    (0xB4CD27, ''Huawei''), (0xB4E62D, ''Espressif''), (0xB4FBE4, ''Yamaha''),
    (0xB8098A, ''Apple''), (0xB81DAA, ''LG''), (0xB827EB, ''Raspberry-Pi''),
    (0xB83765, ''Lenovo''), (0xB853AC, ''Apple''), (0xB857D8, ''Samsung''),
    (0xB868D4, ''TCL''), (0xB869F4, ''MikroTik''), (0xB88A60, ''Intel''),
    (0xB89678, ''Harman''), (0xB89A2A, ''Microsoft''), (0xB8A175, ''Vizio''),
    (0xB8A386, ''D-Link''), (0xB8AE6E, ''Nintendo''), (0xB8D812, ''Harman''),
    (0xB8E937, ''Sonos''), (0xBC0294, ''Hikvision''), (0xBC20BA, ''Samsung''),
    (0xBC52B7, ''Apple''), (0xBC5436, ''Apple''), (0xBC5FF4, ''Intel''),
    (0xBC60A7, ''Sony''), (0xBC7E8F, ''Vizio''), (0xBC8A1E, ''LG''),
    (0xBC8CCD, ''Samsung''), (0xBCAEC5, ''ASUS''), (0xBCD177, ''TP-Link''),
    (0xBCDDC2, ''Espressif''), (0xBCE10D, ''Huawei''), (0xBCE2BE, ''Samsung''),
    (0xC02C5C, ''OPPO''), (0xC02FAF, ''Samsung''), (0xC03EBA, ''Apple''),
    (0xC03F0E, ''Netgear''), (0xC05627, ''Hikvision''), (0xC0954D, ''Canon''),
    (0xC0C1C0, ''Linksys''), (0xC0C9E3, ''TP-Link''), (0xC0F6BF, ''Garmin''),
    (0xC40415, ''Netgear''), (0xC40BCB, ''Vizio''), (0xC4438F, ''LG''),
    (0xC4576E, ''Samsung''), (0xC45BBE, ''Espressif''), (0xC46699, ''Xiaomi''),
    (0xC46AB7, ''Xiaomi''), (0xC46E1F, ''TP-Link''), (0xC485C8, ''Huawei''),
    (0xC4A2CA, ''Panasonic''), (0xC4A366, ''Huawei''), (0xC4AD34, ''MikroTik''),
    (0xC4B741, ''Hikvision''), (0xC4E3EB, ''Google''), (0xC4F081, ''Xiaomi''),
    (0xC80210, ''LG''), (0xC8193E, ''Samsung''), (0xC81F66, ''Dell''),
    (0xC82A14, ''Apple''), (0xC82B96, ''Espressif''), (0xC863F1, ''PlayStation''),
    (0xC87B23, ''Huawei''), (0xC8BCC8, ''Xiaomi''), (0xC8BE19, ''D-Link''),
    (0xC8C9A3, ''Espressif''), (0xC8D719, ''Linksys''), (0xC8DF84, ''Espressif''),
    (0xC8E265, ''Hisense''), (0xC8E9EE, ''TCL''), (0xC8F733, ''Microsoft''),
    (0xCC2D8C, ''LG''), (0xCC2DE0, ''MikroTik''), (0xCC348E, ''LG''),
    (0xCC50E3, ''Espressif''), (0xCC52AF, ''Microsoft''), (0xCC96A0, ''Huawei''),
    (0xCCB255, ''D-Link''), (0xCCB8A8, ''Xiaomi''), (0xD017C2, ''ASUS''),
    (0xD022BE, ''Google''), (0xD03A2E, ''Xiaomi''), (0xD03F27, ''Wyze''),
    (0xD04F7E, ''Apple''), (0xD0667B, ''Huawei''), (0xD06C9A, ''Lenovo''),
    (0xD07E28, ''HP'')]"

definition HNC_OUI_TABLE_6 :: "hnc_oui_entry_t list" where
  "HNC_OUI_TABLE_6 = [
    (0xD0817A, ''Apple''), (0xD0C5D3, ''Garmin''), (0xD0C8A1, ''Fitbit''),
    (0xD0CF5E, ''IKEA''), (0xD0DFC7, ''Samsung''), (0xD44B5E, ''PlayStation''),
    (0xD45D64, ''ASUS''), (0xD4610F, ''TCL''), (0xD4619D, ''Apple''),
    (0xD481D7, ''Dell''), (0xD487D8, ''Samsung''), (0xD48890, ''Samsung''),
    (0xD4970B, ''Xiaomi''), (0xD4AE52, ''Dell''), (0xD4B110, ''Huawei''),
    (0xD4CA6D, ''MikroTik''), (0xD4E8B2, ''Hikvision''), (0xD831CF, ''Samsung''),
    (0xD8490B, ''Huawei''), (0xD86BF7, ''Yamaha''), (0xD89C67, ''Toshiba''),
    (0xD89D67, ''HP''), (0xD89EF3, ''Microsoft''), (0xD8BFC0, ''Tuya''),
    (0xD8D43C, ''Sony''), (0xDC2B2A, ''Apple''), (0xDC2B61, ''Apple''),
    (0xDC4427, ''Tesla''), (0xDC4F22, ''Tuya''), (0xDC537C, ''Intel''),
    (0xDC72AD, ''Huawei''), (0xDC9FDB, ''Ubiquiti''), (0xDCA632, ''Raspberry-Pi''),
    (0xDCA904, ''Apple''), (0xDCCB8E, ''OPPO''), (0xE0191D, ''OPPO''),
    (0xE0469A, ''Netgear''), (0xE05FB9, ''Vizio''), (0xE06266, ''Samsung''),
    (0xE063DA, ''Ubiquiti''), (0xE0A71C, ''Hisense''), (0xE0ACCB, ''Apple''),
    (0xE0BB9E, ''Epson''), (0xE0DB55, ''Dell''), (0xE0E751, ''Nintendo''),
    (0xE4115B, ''HP''), (0xE425E7, ''Apple''), (0xE42F26, ''OPPO''),
    (0xE43E12, ''Intel''), (0xE45F01, ''Raspberry-Pi''), (0xE46F13, ''Netgear''),
    (0xE46F3B, ''HP''), (0xE488B9, ''Canon''), (0xE48B7F, ''Apple''),
    (0xE48D8C, ''MikroTik''), (0xE4A471, ''Intel''), (0xE4BD4B, ''Huawei''),
    (0xE4C63D, ''Apple''), (0xE4E0C5, ''Samsung''), (0xE8039A, ''Samsung''),
    (0xE80601, ''Aqara''), (0xE8088B, ''Huawei''), (0xE85354, ''Samsung''),
    (0xE869FC, ''Tuya''), (0xE88D28, ''Apple''), (0xE892A4, ''LG''),
    (0xE89309, ''TCL''), (0xE8CC18, ''TP-Link''), (0xE8CD2D, ''Huawei''),
    (0xE8DE27, ''TP-Link''), (0xEC0E03, ''Nintendo''), (0xEC1BBD, ''Philips-Hue''),
    (0xEC64C9, ''Espressif''), (0xEC71DB, ''Reolink''), (0xEC8916, ''Lenovo''),
    (0xEC9A74, ''HP''), (0xECB5FA, ''IKEA''), (0xECEBB8, ''Microsoft''),
    (0xECF4BB, ''Dell''), (0xF01DBC, ''Microsoft''), (0xF0272D, ''Amazon''),
    (0xF04141, ''Hikvision''), (0xF08173, ''Samsung''), (0xF08A76, ''OPPO''),
    (0xF094E3, ''TP-Link''), (0xF09FC2, ''Ubiquiti''), (0xF0B429, ''Xiaomi''),
    (0xF0BF97, ''Sony''), (0xF0D2F1, ''Amazon''), (0xF0DBF8, ''Apple''),
    (0xF0F61C, ''Apple''), (0xF0F6C1, ''Sonos''), (0xF42981, ''OPPO''),
    (0xF430B9, ''HP''), (0xF4559C, ''Huawei''), (0xF46B8C, ''Vizio''),
    (0xF48B32, ''Xiaomi''), (0xF48C50, ''Apple''), (0xF48CEB, ''D-Link''),
    (0xF48FFD, ''Xiaomi''), (0xF49F54, ''Samsung''), (0xF4B301, ''Intel''),
    (0xF4C714, ''Huawei''), (0xF4F15A, ''Apple''), (0xF4F5D8, ''Xiaomi''),
    (0xF4F5E8, ''Google''), (0xF80CF3, ''LG''), (0xF81EDF, ''Apple''),
    (0xF83DFF, ''Huawei''), (0xF83F51, ''Google''), (0xF84DFC, ''Hikvision''),
    (0xF895C7, ''LG''), (0xF8A45F, ''Xiaomi''), (0xF8B156, ''Dell''),
    (0xF8E903, ''TCL''), (0xFC0FE6, ''OPPO''), (0xFC253F, ''Apple''),
    (0xFC4BBC, ''Fitbit''), (0xFC4DD4, ''Canon''), (0xFC5F49, ''Dahua''),
    (0xFC6479, ''Xiaomi''), (0xFCA183, ''Amazon''), (0xFCA667, ''Amazon''),
    (0xFCC2DE, ''OPPO''), (0xFCECDA, ''Ubiquiti''), (0xFCF152, ''Sony''),
    (0xFCF8AE, ''Intel'')]"

definition HNC_OUI_TABLE :: "hnc_oui_entry_t list" where
  "HNC_OUI_TABLE = HNC_OUI_TABLE_0 @ HNC_OUI_TABLE_1 @ HNC_OUI_TABLE_2 @ HNC_OUI_TABLE_3 @ HNC_OUI_TABLE_4 @ HNC_OUI_TABLE_5 @ HNC_OUI_TABLE_6"


section \<open>The table is strictly ascending\<close>

text \<open>\<open>asc_from k ps\<close>: the list rises strictly, starting above \<open>k\<close>; the last key is returned.\<close>

fun asc_from :: "nat \<Rightarrow> nat list \<Rightarrow> nat option" where
  "asc_from k [] = Some k"
| "asc_from k (p # ps) = (if k < p then asc_from p ps else None)"

lemma asc_from_append: "asc_from k (ps @ qs) = Option.bind (asc_from k ps) (\<lambda>l. asc_from l qs)"
  by (induction ps arbitrary: k) auto

lemma asc_from_sorted: "asc_from k ps = Some l \<Longrightarrow> sorted_wrt (<) (k # ps)"
  by (induction ps arbitrary: k) (force split: if_splits)+

lemma oui_part_0: "asc_from 0 (map fst HNC_OUI_TABLE_0) = Some 0x04795F"
  by (simp add: HNC_OUI_TABLE_0_def)

lemma oui_part_1: "asc_from 0x04795F (map fst HNC_OUI_TABLE_1) = Some 0x288335"
  by (simp add: HNC_OUI_TABLE_1_def)

lemma oui_part_2: "asc_from 0x288335 (map fst HNC_OUI_TABLE_2) = Some 0x500809"
  by (simp add: HNC_OUI_TABLE_2_def)

lemma oui_part_3: "asc_from 0x500809 (map fst HNC_OUI_TABLE_3) = Some 0x78F882"
  by (simp add: HNC_OUI_TABLE_3_def)

lemma oui_part_4: "asc_from 0x78F882 (map fst HNC_OUI_TABLE_4) = Some 0xA87EEA"
  by (simp add: HNC_OUI_TABLE_4_def)

lemma oui_part_5: "asc_from 0xA87EEA (map fst HNC_OUI_TABLE_5) = Some 0xD07E28"
  by (simp add: HNC_OUI_TABLE_5_def)

lemma oui_part_6: "asc_from 0xD07E28 (map fst HNC_OUI_TABLE_6) = Some 0xFCF8AE"
  by (simp add: HNC_OUI_TABLE_6_def)

lemmas oui_parts = oui_part_0 oui_part_1 oui_part_2 oui_part_3 oui_part_4 oui_part_5 oui_part_6

lemma oui_table_asc: "asc_from 0 (map fst HNC_OUI_TABLE) = Some 0xFCF8AE"
  by (simp add: HNC_OUI_TABLE_def asc_from_append oui_parts)

lemma oui_table_sorted: "sorted_wrt (<) (map fst HNC_OUI_TABLE)"
  using asc_from_sorted[OF oui_table_asc] by simp

lemma oui_table_bounds:
  assumes "e \<in> set HNC_OUI_TABLE"
  shows "0 < fst e" and "fst e < 2 ^ 24"
proof -
  have asc_mono: "asc_from k ps = Some l \<Longrightarrow> k \<le> l" for k ps l
    by (induction ps arbitrary: k) (force split: if_splits)+
  have asc_le: "asc_from k ps = Some l \<Longrightarrow> p \<in> set ps \<Longrightarrow> k < p \<and> p \<le> l" for k ps l p
    by (induction ps arbitrary: k) (fastforce dest: asc_mono split: if_splits)+
  from assms have "fst e \<in> set (map fst HNC_OUI_TABLE)" by simp
  from asc_le[OF oui_table_asc this] show "0 < fst e" "fst e < 2 ^ 24" by simp_all
qed

lemma oui_table_length: "length HNC_OUI_TABLE = 907"
  by (simp add: HNC_OUI_TABLE_def HNC_OUI_TABLE_0_def HNC_OUI_TABLE_1_def HNC_OUI_TABLE_2_def
      HNC_OUI_TABLE_3_def HNC_OUI_TABLE_4_def HNC_OUI_TABLE_5_def HNC_OUI_TABLE_6_def)

lemma oui_table_vendor_length: "list_all (\<lambda>e. length (snd e) \<le> 12) HNC_OUI_TABLE"
  by (simp add: HNC_OUI_TABLE_def HNC_OUI_TABLE_0_def HNC_OUI_TABLE_1_def HNC_OUI_TABLE_2_def
      HNC_OUI_TABLE_3_def HNC_OUI_TABLE_4_def HNC_OUI_TABLE_5_def HNC_OUI_TABLE_6_def)

end
