(* ===== verification/OuiOverride.thy ===== *)
theory OuiOverride
  imports HNC_Prelude
begin

text \<open>
  User OUI overrides, \<^verbatim>\<open>daemon/hotspotd/oui_override.c\<close>: the table of at most 256 prefix labels, its
  lookup, and the loader of the tolerant JSON file.  The file is a \<^typ>\<open>string option\<close>
  (\<^const>\<open>None\<close>: it cannot be opened); pointers into the file buffer are the remaining text.
\<close>

definition HNC_OVERRIDE_MAX_ENTRIES :: nat where "HNC_OVERRIDE_MAX_ENTRIES = 256"
definition HNC_OVERRIDE_LABEL_LEN :: nat where "HNC_OVERRIDE_LABEL_LEN = 64"

record hnc_override_entry_t =
  ov_active :: bool
  ov_prefix :: string
  ov_label :: string

record override_state =
  g_overrides :: "hnc_override_entry_t list"
  g_override_count :: nat
  g_override_path :: string

definition ov_zero :: hnc_override_entry_t where
  "ov_zero = \<lparr>ov_active = False, ov_prefix = [], ov_label = []\<rparr>"

section \<open>Prefix normalisation, lookup\<close>

fun normalize_prefix_loop :: "string \<Rightarrow> string \<Rightarrow> string option" where
  "normalize_prefix_loop [] out = (if length out = 6 then Some out else None)"
| "normalize_prefix_loop (c # cs) out =
     (if \<not> length out < 6 then Some out
      else if c = CHR '':'' \<or> c = CHR ''-'' \<or> c = CHR '' '' then normalize_prefix_loop cs out
      else if c_isxdigit c then normalize_prefix_loop cs (out @ [c_tolower c])
      else None)"

definition normalize_prefix :: "string \<Rightarrow> string option" where
  "normalize_prefix s = normalize_prefix_loop s []"

definition hnc_override_init :: "string option \<Rightarrow> override_state" where
  "hnc_override_init path =
     \<lparr>g_overrides = replicate HNC_OVERRIDE_MAX_ENTRIES ov_zero, g_override_count = 0,
      g_override_path = (case path of None \<Rightarrow> [] | Some p \<Rightarrow> cbuf 256 p)\<rparr>"

definition hnc_override_reset :: "override_state \<Rightarrow> override_state" where
  "hnc_override_reset st = st\<lparr>g_overrides := replicate HNC_OVERRIDE_MAX_ENTRIES ov_zero, g_override_count := 0\<rparr>"

definition hnc_override_lookup :: "override_state \<Rightarrow> string \<Rightarrow> nat \<Rightarrow> string option" where
  "hnc_override_lookup st mac outlen =
     (if outlen = 0 then None
      else if g_override_count st = 0 then None
      else case normalize_prefix mac of
             None \<Rightarrow> None
           | Some key \<Rightarrow>
               map_option (\<lambda>e. cbuf outlen (ov_label e))
                 (find (\<lambda>e. ov_active e \<and> ov_prefix e = key) (take (g_override_count st) (g_overrides st))))"

section \<open>Loading\<close>

text \<open>
  \<open>find_unescaped_quote\<close> yields the text before the quote and the text after it.
\<close>

fun find_unescaped_quote :: "string \<Rightarrow> (string \<times> string) option" where
  "find_unescaped_quote [] = None"
| "find_unescaped_quote (c # cs) =
     (if c = BSL then
        (case cs of [] \<Rightarrow> None
         | d # ds \<Rightarrow> map_option (\<lambda>(u, v). (c # d # u, v)) (find_unescaped_quote ds))
      else if c = DQ then Some ([], cs)
      else map_option (\<lambda>(u, v). (c # u, v)) (find_unescaped_quote cs))"

definition unescape_char :: "char \<Rightarrow> char" where
  "unescape_char c = (if c = CHR ''n'' then LF else if c = CHR ''r'' then CR else if c = CHR ''t'' then TAB
     else if c = DQ then DQ else if c = BSL then BSL else if c = CHR ''/'' then CHR ''/'' else c)"

fun decode_json_loop :: "nat \<Rightarrow> string \<Rightarrow> string" where
  "decode_json_loop 0 src = []"
| "decode_json_loop (Suc room) [] = []"
| "decode_json_loop (Suc room) (c # cs) =
     (if c = BSL \<and> cs \<noteq> [] then unescape_char (hd cs) # decode_json_loop room (tl cs)
      else c # decode_json_loop room cs)"

definition decode_json_string :: "string \<Rightarrow> nat \<Rightarrow> string" where
  "decode_json_string src out_size = decode_json_loop (out_size - 1) src"

definition ov_ws :: "char \<Rightarrow> bool" where
  "ov_ws c \<longleftrightarrow> c = CHR '' '' \<or> c = TAB \<or> c = LF \<or> c = CR"

definition skip_value :: "string \<Rightarrow> string" where
  "skip_value p =
     (let p1 = tl (dropWhile (\<lambda>c. c \<noteq> CHR '':'') p); p2 = dropWhile ov_ws p1
      in case p2 of
           [] \<Rightarrow> []
         | c # p3 \<Rightarrow> if c = DQ then (case find_unescaped_quote p3 of None \<Rightarrow> p3 | Some (_, p4) \<Rightarrow> p4)
                    else c # p3)"

definition override_store :: "string \<Rightarrow> string \<Rightarrow> hnc_override_entry_t list \<times> nat \<Rightarrow> hnc_override_entry_t list \<times> nat" where
  "override_store normalized val = (\<lambda>(tab, loaded).
     let existing = find_index (\<lambda>e. ov_prefix e = normalized) (take loaded tab);
         slot = (case existing of Some i \<Rightarrow> i | None \<Rightarrow> loaded);
         e = \<lparr>ov_active = True, ov_prefix = normalized,
              ov_label = cstr (decode_json_string val HNC_OVERRIDE_LABEL_LEN)\<rparr>
     in (tab[slot := e], if existing = None then loaded + 1 else loaded))"

lemma find_unescaped_quote_length: "find_unescaped_quote s = Some (u, v) \<Longrightarrow> length v < length s"
  by (induction s arbitrary: u rule: find_unescaped_quote.induct) (fastforce split: if_splits list.splits)+

lemma length_dropWhile_Cons: "dropWhile P s = c # t \<Longrightarrow> length t < length s"
  by (metis Suc_le_lessD length_Cons length_dropWhile_le)

lemma skip_value_length: "length (skip_value p) \<le> length p"
proof -
  have "length (dropWhile ov_ws (tl (dropWhile (\<lambda>c. c \<noteq> CHR '':'') p))) \<le> length p"
    using length_dropWhile_le[of ov_ws "tl (dropWhile (\<lambda>c. c \<noteq> CHR '':'') p)"]
      length_dropWhile_le[of "\<lambda>c. c \<noteq> CHR '':''" p] by simp
  then show ?thesis
    by (auto simp: skip_value_def Let_def split: list.splits option.splits
        dest!: find_unescaped_quote_length)
qed

text \<open>
  One turn of the \<^verbatim>\<open>while\<close> loop: \<^const>\<open>None\<close> where the code leaves the loop, otherwise the text that
  remains and the new table.
\<close>

definition override_load_step ::
  "string \<Rightarrow> hnc_override_entry_t list \<times> nat \<Rightarrow> (string \<times> hnc_override_entry_t list \<times> nat) option" where
  "override_load_step p st =
     (if p = [] \<or> \<not> snd st < HNC_OVERRIDE_MAX_ENTRIES then None
      else case dropWhile (\<lambda>c. c \<noteq> DQ) p of
        [] \<Rightarrow> None
      | _ # p1 \<Rightarrow>
        (case find_unescaped_quote p1 of
           None \<Rightarrow> None
         | Some (key, p2) \<Rightarrow>
           if length key \<ge> 64 then Some (skip_value p2, st)
           else case dropWhile ov_ws p2 of
             [] \<Rightarrow> Some ([], st)
           | c # p3 \<Rightarrow>
             if c \<noteq> CHR '':'' then Some (c # p3, st)
             else case dropWhile ov_ws p3 of
               [] \<Rightarrow> Some ([], st)
             | d # p4 \<Rightarrow>
               if d \<noteq> DQ then Some (d # p4, st)
               else case find_unescaped_quote p4 of
                 None \<Rightarrow> None
               | Some (val, p5) \<Rightarrow>
                 (case normalize_prefix (cstr key) of
                    None \<Rightarrow> Some (p5, st)
                  | Some normalized \<Rightarrow> Some (p5, override_store normalized val st))))"

lemma override_load_step_length: "override_load_step p st = Some (p', st') \<Longrightarrow> length p' < length p"
  by (auto simp: override_load_step_def split: if_splits list.splits option.splits
      dest!: find_unescaped_quote_length length_dropWhile_Cons intro!: le_less_trans[OF skip_value_length]
      le_less_trans[OF length_dropWhile_le])

function override_load_loop :: "string \<Rightarrow> hnc_override_entry_t list \<times> nat \<Rightarrow> hnc_override_entry_t list \<times> nat" where
  "override_load_loop p st =
     (case override_load_step p st of None \<Rightarrow> st | Some (p', st') \<Rightarrow> override_load_loop p' st')"
  by pat_completeness auto
termination
  by (relation "measure (\<lambda>(p, st). length p)") (auto dest!: override_load_step_length)

declare override_load_loop.simps [simp del]

definition hnc_override_load :: "override_state \<Rightarrow> string option \<Rightarrow> override_state \<times> nat" where
  "hnc_override_load st file =
     (if g_override_path st = [] then (st, 0)
      else case file of
        None \<Rightarrow> (st, 0)
      | Some buf \<Rightarrow>
          if buf = [] \<or> length buf > 16 * 1024 then (st, 0)
          else case override_load_loop buf (g_overrides st, 0) of (tab, loaded) \<Rightarrow>
            (st\<lparr>g_overrides := tab, g_override_count := loaded\<rparr>, loaded))"

section \<open>Invariant\<close>

definition hex6 :: "string \<Rightarrow> bool" where
  "hex6 k \<longleftrightarrow> length k = 6 \<and> list_all (\<lambda>c. c_isxdigit c \<and> c_tolower c = c) k"

text \<open>The loaded part of the table: active entries, canonical and pairwise different prefixes.\<close>

definition override_inv :: "hnc_override_entry_t list \<times> nat \<Rightarrow> bool" where
  "override_inv = (\<lambda>(tab, loaded).
     length tab = HNC_OVERRIDE_MAX_ENTRIES \<and> loaded \<le> HNC_OVERRIDE_MAX_ENTRIES \<and>
     list_all (\<lambda>e. ov_active e \<and> hex6 (ov_prefix e) \<and> length (ov_label e) < HNC_OVERRIDE_LABEL_LEN \<and> nulfree (ov_label e))
       (take loaded tab) \<and>
     distinct (map ov_prefix (take loaded tab)))"

lemma normalize_prefix_loop_hex6:
  "normalize_prefix_loop s out = Some k \<Longrightarrow> list_all (\<lambda>c. c_isxdigit c \<and> c_tolower c = c) out \<Longrightarrow> length out \<le> 6 \<Longrightarrow> hex6 k"
  by (induction s out rule: normalize_prefix_loop.induct) (auto simp: hex6_def split: if_splits)

lemma normalize_prefix_hex6: "normalize_prefix s = Some k \<Longrightarrow> hex6 k"
  using normalize_prefix_loop_hex6[of s "[]"] by (simp add: normalize_prefix_def)

lemma length_decode_json_loop: "length (decode_json_loop room src) \<le> room"
  by (induction room src rule: decode_json_loop.induct) auto

lemma length_cstr: "length (cstr s) \<le> length s"
  by (simp add: cstr_def length_takeWhile_le)

lemma length_ov_label: "length (cstr (decode_json_string v HNC_OVERRIDE_LABEL_LEN)) < HNC_OVERRIDE_LABEL_LEN"
  using length_decode_json_loop[of 63 v] length_cstr[of "decode_json_string v 64"]
  by (simp add: decode_json_string_def HNC_OVERRIDE_LABEL_LEN_def)

lemma override_store_inv [inv_intros]:
  assumes "override_inv st" and "snd st < HNC_OVERRIDE_MAX_ENTRIES" and "hex6 k"
  shows "override_inv (override_store k v st)"
proof -
  obtain tab loaded where st: "st = (tab, loaded)" by fastforce
  let ?e = "\<lparr>ov_active = True, ov_prefix = k, ov_label = cstr (decode_json_string v HNC_OVERRIDE_LABEL_LEN)\<rparr>"
  show ?thesis
  proof (cases "find_index (\<lambda>e. ov_prefix e = k) (take loaded tab)")
    case None
    then have "k \<notin> ov_prefix ` set (take loaded tab)" by (auto simp: find_index_None)
    moreover have "take (Suc loaded) (tab[loaded := ?e]) = take loaded tab @ [?e]"
      using assms st by (intro take_Suc_update) (simp add: override_inv_def)
    ultimately show ?thesis
      using assms st None length_ov_label by (auto simp: override_store_def override_inv_def Let_def)
  next
    case (Some i)
    from find_index_Some[OF Some] have i: "i < length (take loaded tab)" "ov_prefix (take loaded tab ! i) = k" by auto
    have "take loaded (tab[i := ?e]) = (take loaded tab)[i := ?e]" by (simp add: take_update_swap)
    moreover have "map ov_prefix ((take loaded tab)[i := ?e]) = map ov_prefix (take loaded tab)"
      using i by (intro map_update_same) auto
    moreover have "list_all P ((take loaded tab)[i := ?e])" if "list_all P (take loaded tab)" "P ?e" for P
      using that by (rule list_all_update)
    ultimately show ?thesis
      using assms st Some length_ov_label by (simp add: override_store_def override_inv_def Let_def)
  qed
qed

lemma override_load_step_inv [inv_intros]:
  "override_inv st \<Longrightarrow> override_load_step p st = Some (p', st') \<Longrightarrow> override_inv st'"
  by (auto simp: override_load_step_def split: if_splits list.splits option.splits
      intro!: override_store_inv dest!: normalize_prefix_hex6)

lemma override_load_loop_inv: "override_inv st \<Longrightarrow> override_inv (override_load_loop p st)"
proof (induction p st rule: override_load_loop.induct)
  case (1 p st)
  show ?case
  proof (cases "override_load_step p st")
    case None
    then show ?thesis by (simp add: override_load_loop.simps[of p st] "1.prems")
  next
    case (Some q)
    then obtain p' st' where "override_load_step p st = Some (p', st')" by (cases q) auto
    with 1 override_load_step_inv[OF "1.prems" this] show ?thesis
      by (cases st') (simp add: override_load_loop.simps[of p st])
  qed
qed

section \<open>The table refines a finite map\<close>

definition override_abs :: "hnc_override_entry_t list \<times> nat \<Rightarrow> string \<Rightarrow> string option" where
  "override_abs = (\<lambda>(tab, loaded). map_of (map (\<lambda>e. (ov_prefix e, ov_label e)) (take loaded tab)))"

lemma map_of_update_nth:
  assumes "distinct (map fst xs)" and "i < length xs" and "fst (xs ! i) = k"
  shows "map_of (xs[i := (k, v)]) = (map_of xs)(k \<mapsto> v)"
  using assms
proof (induction xs arbitrary: i)
  case (Cons x xs)
  show ?case
  proof (cases i)
    case 0
    with Cons.prems show ?thesis by (cases x) auto
  next
    case (Suc j)
    with Cons.prems have "k \<in> fst ` set xs" by (metis Suc_less_eq image_eqI length_Cons nth_Cons_Suc nth_mem)
    moreover from Cons.prems(1) have "fst x \<notin> fst ` set xs" by simp
    ultimately have "fst x \<noteq> k" by blast
    moreover have "map_of (xs[j := (k, v)]) = (map_of xs)(k \<mapsto> v)"
      using Suc Cons.prems by (intro Cons.IH) auto
    ultimately show ?thesis using Suc by (cases x) (auto simp: fun_eq_iff)
  qed
qed simp

lemma override_abs_store:
  assumes "override_inv st" and "snd st < HNC_OVERRIDE_MAX_ENTRIES"
  shows "override_abs (override_store k v st) =
         (override_abs st)(k \<mapsto> cstr (decode_json_string v HNC_OVERRIDE_LABEL_LEN))"
proof -
  obtain tab loaded where st: "st = (tab, loaded)" by fastforce
  let ?f = "\<lambda>e. (ov_prefix e, ov_label e)"
  let ?e = "\<lparr>ov_active = True, ov_prefix = k, ov_label = cstr (decode_json_string v HNC_OVERRIDE_LABEL_LEN)\<rparr>"
  show ?thesis
  proof (cases "find_index (\<lambda>e. ov_prefix e = k) (take loaded tab)")
    case None
    then have "k \<notin> ov_prefix ` set (take loaded tab)" by (auto simp: find_index_None)
    then have "map_of (map ?f (take loaded tab)) k = None" by (auto simp: map_of_eq_None_iff image_image)
    moreover have "take (Suc loaded) (tab[loaded := ?e]) = take loaded tab @ [?e]"
      using assms st by (intro take_Suc_update) (simp add: override_inv_def)
    ultimately show ?thesis
      using st None by (auto simp: override_store_def override_abs_def Let_def fun_eq_iff map_add_def split: option.splits)
  next
    case (Some i)
    from find_index_Some[OF Some] have i: "i < length (take loaded tab)" "ov_prefix (take loaded tab ! i) = k" by auto
    have "map_of (map ?f (take loaded (tab[i := ?e]))) = map_of ((map ?f (take loaded tab))[i := ?f ?e])"
      by (simp add: take_update_swap map_update)
    also have "\<dots> = (map_of (map ?f (take loaded tab)))(k \<mapsto> ov_label ?e)"
      using i assms(1) st by (subst map_of_update_nth[symmetric]) (auto simp: override_inv_def comp_def)
    finally show ?thesis using st Some by (simp add: override_store_def override_abs_def Let_def)
  qed
qed

lemma find_active_map_of:
  "list_all ov_active es \<Longrightarrow> map_option ov_label (find (\<lambda>e. ov_active e \<and> ov_prefix e = key) es) =
     map_of (map (\<lambda>e. (ov_prefix e, ov_label e)) es) key"
  by (induction es) auto

lemma override_lookup_abs:
  assumes "override_inv (g_overrides st, g_override_count st)"
  shows "hnc_override_lookup st mac outlen =
     (if outlen = 0 then None else
      Option.bind (normalize_prefix mac) (\<lambda>key. map_option (cbuf outlen) (override_abs (g_overrides st, g_override_count st) key)))"
proof -
  let ?es = "take (g_override_count st) (g_overrides st)"
  have "list_all ov_active ?es" using assms by (auto simp: override_inv_def list_all_iff)
  then have "map_option ov_label (find (\<lambda>e. ov_active e \<and> ov_prefix e = key) ?es) =
      map_of (map (\<lambda>e. (ov_prefix e, ov_label e)) ?es) key" for key
    by (simp add: find_active_map_of)
  then have "map_option (\<lambda>e. cbuf outlen (ov_label e)) (find (\<lambda>e. ov_active e \<and> ov_prefix e = key) ?es) =
      map_option (cbuf outlen) (map_of (map (\<lambda>e. (ov_prefix e, ov_label e)) ?es) key)" for key
    by (metis (no_types, lifting) option.map_comp comp_def option.map_cong0)
  then show ?thesis
    by (auto simp: hnc_override_lookup_def override_abs_def split: option.splits)
qed

section \<open>Loading a well-formed file\<close>

definition plain_key :: "string \<Rightarrow> bool" where
  "plain_key k \<longleftrightarrow> length k < 64 \<and> nulfree k \<and> DQ \<notin> set k \<and> BSL \<notin> set k"

definition load_entry :: "string \<times> string \<Rightarrow> hnc_override_entry_t list \<times> nat \<Rightarrow> hnc_override_entry_t list \<times> nat" where
  "load_entry e st = (case normalize_prefix (fst e) of None \<Rightarrow> st | Some k \<Rightarrow> override_store k (esc_name (snd e)) st)"

lemma find_unescaped_quote_plain:
  "DQ \<notin> set k \<Longrightarrow> BSL \<notin> set k \<Longrightarrow> find_unescaped_quote (k @ DQ # rest) = Some (k, rest)"
  by (induction k) auto

lemma find_unescaped_quote_esc: "find_unescaped_quote (esc_name v @ DQ # rest) = Some (esc_name v, rest)"
  by (induction v) auto

lemma decode_json_esc: "decode_json_loop room (esc_name v) = take room v"
proof (induction v arbitrary: room)
  case Nil
  then show ?case by (cases room) auto
next
  case (Cons c v)
  then show ?case by (cases room) (auto simp: unescape_char_def take_Cons')
qed

lemma override_load_step_entry:
  assumes "plain_key (fst e)" and "c \<noteq> DQ" and "snd st < HNC_OVERRIDE_MAX_ENTRIES"
  shows "override_load_step (c # names_entry e @ rest) st = Some (rest, load_entry e st)"
proof -
  have "find_unescaped_quote (fst e @ DQ # CHR '':'' # DQ # esc_name (snd e) @ DQ # rest) =
      Some (fst e, CHR '':'' # DQ # esc_name (snd e) @ DQ # rest)"
    using assms(1) by (intro find_unescaped_quote_plain) (auto simp: plain_key_def)
  with assms show ?thesis
    by (simp add: override_load_step_def names_entry_def load_entry_def find_unescaped_quote_esc
        ov_ws_def plain_key_def split: option.splits)
qed

lemma load_entry_count: "snd (load_entry e st) \<le> Suc (snd st)"
  by (cases st) (auto simp: load_entry_def override_store_def Let_def split: option.splits)

lemma override_load_end: "c \<noteq> DQ \<Longrightarrow> override_load_loop [c] st = st"
  by (subst override_load_loop.simps) (simp add: override_load_step_def)

lemma override_load_body:
  assumes "\<forall>e \<in> set es. plain_key (fst e)" and "c \<noteq> DQ" and "snd st + length es \<le> HNC_OVERRIDE_MAX_ENTRIES"
  shows "override_load_loop (c # names_body es @ [CHR ''}'']) st = fold load_entry es st"
  using assms
proof (induction es arbitrary: c st rule: names_body.induct)
  case (1 c st)
  then show ?case
    by (subst override_load_loop.simps) (simp add: override_load_step_def)
next
  case (2 e c st)
  then show ?case
    by (subst override_load_loop.simps) (simp add: override_load_step_entry override_load_end)
next
  case (3 e e' es c st)
  have "override_load_loop (c # names_body (e # e' # es) @ [CHR ''}'']) st =
      override_load_loop (CHR '','' # names_body (e' # es) @ [CHR ''}'']) (load_entry e st)"
    using 3 by (subst override_load_loop.simps) (simp add: override_load_step_entry)
  also have "\<dots> = fold load_entry (e' # es) (load_entry e st)"
    using 3 load_entry_count[of e st] by (intro "3.IH") auto
  finally show ?case by simp
qed

text \<open>The pairs that count: canonical prefix and label; a later pair replaces an earlier one.\<close>

definition override_pairs :: "(string \<times> string) list \<Rightarrow> (string \<times> string) list" where
  "override_pairs es = List.map_filter (\<lambda>e. map_option (\<lambda>k. (k, take 63 (snd e))) (normalize_prefix (fst e))) es"

lemma fold_load_entry:
  assumes "override_inv st" and "\<forall>e \<in> set es. nulfree (snd e)" and "snd st + length es \<le> HNC_OVERRIDE_MAX_ENTRIES"
  shows "override_inv (fold load_entry es st) \<and>
         override_abs (fold load_entry es st) = (\<lambda>k. case map_of (rev (override_pairs es)) k of None \<Rightarrow> override_abs st k | Some v \<Rightarrow> Some v)"
  using assms
proof (induction es arbitrary: st)
  case Nil
  then show ?case by (simp add: override_pairs_def List.map_filter_def)
next
  case (Cons e es)
  have inv: "override_inv (load_entry e st)"
    using Cons.prems by (auto simp: load_entry_def split: option.splits intro!: override_store_inv dest!: normalize_prefix_hex6)
  have lab: "cstr (decode_json_string (esc_name (snd e)) HNC_OVERRIDE_LABEL_LEN) = take 63 (snd e)"
  proof -
    have "nulfree (take 63 (snd e))" using Cons.prems(2) set_take_subset[of 63 "snd e"] by (auto simp: nulfree_def)
    then show ?thesis by (simp add: decode_json_string_def HNC_OVERRIDE_LABEL_LEN_def decode_json_esc)
  qed
  have abs: "override_abs (load_entry e st) =
      (case normalize_prefix (fst e) of None \<Rightarrow> override_abs st | Some k \<Rightarrow> (override_abs st)(k \<mapsto> take 63 (snd e)))"
    using override_abs_store[OF Cons.prems(1)] Cons.prems(3) lab by (auto simp: load_entry_def split: option.splits)
  have "override_inv (fold load_entry es (load_entry e st)) \<and>
      override_abs (fold load_entry es (load_entry e st)) = (\<lambda>k. case map_of (rev (override_pairs es)) k of
         None \<Rightarrow> override_abs (load_entry e st) k | Some v \<Rightarrow> Some v)"
    using Cons.prems load_entry_count[of e st] inv by (intro Cons.IH) auto
  then show ?case
    using abs by (cases "normalize_prefix (fst e)")
      (auto simp: override_pairs_def List.map_filter_def fun_eq_iff map_add_def split: option.splits)
qed

section \<open>Properties\<close>

text \<open>
  Loading any file at all leaves the override table well formed: at most 256 entries, each
  active, with a canonical (six lower-case hex digits) prefix that occurs once and a
  terminated label that fits its 64-byte field; the returned count is the number of entries.
\<close>

lemma override_load_wellformed:
  assumes "override_inv (g_overrides st, g_override_count st)"
    and "hnc_override_load st file = (st', n)"
  shows "override_inv (g_overrides st', g_override_count st') \<and> g_override_count st' \<le> 256 \<and>
         (n = 0 \<or> n = g_override_count st')"
proof -
  have "override_inv (g_overrides st, 0)"
    using assms(1) by (simp add: override_inv_def)
  from override_load_loop_inv[OF this] have "override_inv (fst r, snd r)"
    if "override_load_loop p (g_overrides st, 0) = r" for p r
    using that by auto
  note loop = this
  have inv: "override_inv (g_overrides st', g_override_count st')"
    using assms loop[OF refl, of "the file"]
    by (auto simp: hnc_override_load_def split: if_splits option.splits prod.splits)
  moreover from this have "g_override_count st' \<le> 256" by (simp add: override_inv_def HNC_OVERRIDE_MAX_ENTRIES_def)
  moreover have "n = 0 \<or> n = g_override_count st'"
    using assms(2) by (auto simp: hnc_override_load_def split: if_splits option.splits prod.splits)
  ultimately show ?thesis by blast
qed

lemma override_load_wellformed_witness:
  "override_inv (g_overrides (fst (hnc_override_load (hnc_override_init (Some ''/o'')) (Some ''{x'')))
     , g_override_count (fst (hnc_override_load (hnc_override_init (Some ''/o'')) (Some ''{x''))))"
proof -
  have "override_inv (g_overrides (hnc_override_init (Some ''/o'')), g_override_count (hnc_override_init (Some ''/o'')))"
    by (simp add: override_inv_def hnc_override_init_def HNC_OVERRIDE_MAX_ENTRIES_def)
  from override_load_wellformed[OF this prod.collapse[symmetric]] show ?thesis by blast
qed

text \<open>
  C36: After loading a well-formed file, the lookup of a MAC address returns the label of the
  last entry whose key normalises to the address's first six hex digits, cut to the output
  buffer; an address whose prefix no key names is not found.
\<close>

theorem override_load_lookup:
  assumes "\<forall>e \<in> set es. plain_key (fst e) \<and> nulfree (snd e)" and "length es \<le> 256"
    and "length (names_json es) \<le> 16384" and "path \<noteq> []" and "0 < outlen"
  shows "hnc_override_lookup (fst (hnc_override_load (hnc_override_init (Some path)) (Some (names_json es)))) mac outlen =
     Option.bind (normalize_prefix mac) (\<lambda>key. map_option (cbuf outlen) (map_of (rev (override_pairs es)) key))"
proof -
  let ?st = "hnc_override_init (Some path)"
  let ?res = "fold load_entry es (g_overrides ?st, 0)"
  have inv: "override_inv (g_overrides ?st, 0)" "override_abs (g_overrides ?st, 0) = (\<lambda>_. None)"
    by (simp_all add: override_inv_def override_abs_def hnc_override_init_def)
  from fold_load_entry[OF inv(1)] assms(1,2) inv(2)
  have res: "override_inv ?res" "override_abs ?res = map_of (rev (override_pairs es))"
    by (auto simp: HNC_OVERRIDE_MAX_ENTRIES_def fun_eq_iff split: option.splits)
  have "override_load_loop (names_json es) (g_overrides ?st, 0) = ?res"
    unfolding names_json_def using assms(1,2) by (intro override_load_body) (auto simp: HNC_OVERRIDE_MAX_ENTRIES_def)
  moreover have "cbuf 256 path \<noteq> []" using assms(4) by (cases path) (auto simp: cbuf_def)
  moreover have "names_json es \<noteq> []" by (simp add: names_json_def)
  ultimately have "fst (hnc_override_load ?st (Some (names_json es))) =
      ?st\<lparr>g_overrides := fst ?res, g_override_count := snd ?res\<rparr>"
    using assms(3) by (simp add: hnc_override_load_def hnc_override_init_def split: prod.splits)
  with res assms(5) show ?thesis by (simp add: override_lookup_abs)
qed

theorem override_load_lookup_witness:
  "hnc_override_lookup (fst (hnc_override_load (hnc_override_init (Some ''/o''))
      (Some (names_json [(''28:6c:07'', ''Old''), (''28-6C-07'', ''My TV'')])))) ''28:6c:07:11:22:33'' 64 = Some ''My TV''"
proof -
  have h: "\<forall>e \<in> set [(''28:6c:07'', ''Old''), (''28-6C-07'', ''My TV'')]. plain_key (fst e) \<and> nulfree (snd e)"
    by (simp add: plain_key_def)
  have "normalize_prefix ''28:6c:07'' = Some ''286c07''" "normalize_prefix ''28-6C-07'' = Some ''286c07''"
    "normalize_prefix ''28:6c:07:11:22:33'' = Some ''286c07''"
    by code_simp+
  with override_load_lookup[OF h, of "''/o''" 64 "''28:6c:07:11:22:33''"] show ?thesis
    by (simp add: names_json_def names_entry_def override_pairs_def List.map_filter_def)
qed

end
