(* ===== verification/OuiLookup.thy ===== *)
theory OuiLookup
  imports OuiTable OuiOverride Helpers
begin

text \<open>
  The vendor lookup of \<^verbatim>\<open>daemon/hotspotd/hnc_helpers.c\<close> (\<^verbatim>\<open>hnc_lookup_oui\<close>): user overrides first, then
  a binary search of the built-in table.  \<^verbatim>\<open>bsearch\<close> is the C library's halving loop; the
  locale \<open>bsearch_table\<close> states what it needs of a comparator and a table.
\<close>

section \<open>Binary search\<close>

function bsearch_loop :: "('k \<Rightarrow> 'e \<Rightarrow> int) \<Rightarrow> 'k \<Rightarrow> 'e list \<Rightarrow> nat \<Rightarrow> nat \<Rightarrow> 'e option" where
  "bsearch_loop cmp k tab base lim =
     (if lim = 0 then None
      else let p = base + lim div 2; r = cmp k (tab ! p)
           in if r = 0 then Some (tab ! p)
              else if r > 0 then bsearch_loop cmp k tab (p + 1) ((lim - 1) div 2)
              else bsearch_loop cmp k tab base (lim div 2))"
  by pat_completeness auto
termination by (relation "measure (\<lambda>(_, _, _, _, lim). lim)") auto

declare bsearch_loop.simps [simp del]

definition bsearch :: "('k \<Rightarrow> 'e \<Rightarrow> int) \<Rightarrow> 'k \<Rightarrow> 'e list \<Rightarrow> 'e option" where
  "bsearch cmp k tab = bsearch_loop cmp k tab 0 (length tab)"

locale bsearch_table =
  fixes cmp :: "'k :: linorder \<Rightarrow> 'e \<Rightarrow> int" and key :: "'e \<Rightarrow> 'k" and tab :: "'e list"
  assumes cmp_neg: "cmp k e < 0 \<longleftrightarrow> k < key e"
    and cmp_pos: "0 < cmp k e \<longleftrightarrow> key e < k"
    and ascending: "sorted_wrt (<) (map key tab)"
begin

lemma cmp_zero: "cmp k e = 0 \<longleftrightarrow> key e = k"
  using cmp_neg[of k e] cmp_pos[of k e] by (cases "key e" k rule: linorder_cases) auto

lemma key_nth_less: "i < j \<Longrightarrow> j < length tab \<Longrightarrow> key (tab ! i) < key (tab ! j)"
  using ascending by (simp add: sorted_wrt_iff_nth_less)

lemma loop_hit:
  "i < length tab \<Longrightarrow> base \<le> i \<Longrightarrow> i < base + lim \<Longrightarrow> base + lim \<le> length tab \<Longrightarrow>
   bsearch_loop cmp (key (tab ! i)) tab base lim = Some (tab ! i)"
proof (induction lim arbitrary: base rule: less_induct)
  case (less lim)
  let ?p = "base + lim div 2"
  from less.prems have lim: "lim \<noteq> 0" "?p < length tab" by auto
  consider "i < ?p" | "i = ?p" | "?p < i" by linarith
  then show ?case
  proof cases
    case 1
    with lim have "cmp (key (tab ! i)) (tab ! ?p) < 0" by (simp add: cmp_neg key_nth_less)
    with 1 less lim show ?thesis by (subst bsearch_loop.simps) (simp add: Let_def)
  next
    case 2
    with lim show ?thesis by (subst bsearch_loop.simps) (simp add: Let_def cmp_zero)
  next
    case 3
    with less.prems have "0 < cmp (key (tab ! i)) (tab ! ?p)" by (simp add: cmp_pos key_nth_less)
    moreover have "bsearch_loop cmp (key (tab ! i)) tab (?p + 1) ((lim - 1) div 2) = Some (tab ! i)"
      using 3 less.prems lim by (intro less.IH) auto
    ultimately show ?thesis using lim by (subst bsearch_loop.simps) (simp add: Let_def)
  qed
qed

lemma loop_sound:
  "base + lim \<le> length tab \<Longrightarrow> bsearch_loop cmp k tab base lim = Some e \<Longrightarrow> e \<in> set tab \<and> key e = k"
proof (induction lim arbitrary: base rule: less_induct)
  case (less lim)
  from less.prems(2) have lim: "lim \<noteq> 0" by (subst (asm) bsearch_loop.simps) (auto split: if_splits)
  have b: "base + lim div 2 + 1 + (lim - 1) div 2 \<le> length tab" using less.prems(1) lim by linarith
  let ?r = "cmp k (tab ! (base + lim div 2))"
  have step: "bsearch_loop cmp k tab base lim =
      (if ?r = 0 then Some (tab ! (base + lim div 2))
       else if ?r > 0 then bsearch_loop cmp k tab (base + lim div 2 + 1) ((lim - 1) div 2)
       else bsearch_loop cmp k tab base (lim div 2))"
    using lim by (subst bsearch_loop.simps) (simp add: Let_def)
  consider "?r = 0" | "0 < ?r" | "?r < 0" by linarith
  then show ?case
  proof cases
    case 1
    then have "e = tab ! (base + lim div 2)" "key e = k" using less.prems(2) step cmp_zero by auto
    then show ?thesis using less.prems(1) lim by (auto intro!: nth_mem)
  next
    case 2
    then have "bsearch_loop cmp k tab (base + lim div 2 + 1) ((lim - 1) div 2) = Some e"
      using less.prems(2) step by simp
    with b lim show ?thesis by (intro less.IH) auto
  next
    case 3
    then have "bsearch_loop cmp k tab base (lim div 2) = Some e" using less.prems(2) step by simp
    with less.prems(1) lim show ?thesis by (intro less.IH) auto
  qed
qed

lemma bsearch_eq_find: "bsearch cmp k tab = find (\<lambda>e. key e = k) tab"
proof (cases "find (\<lambda>e. key e = k) tab")
  case None
  then have "bsearch cmp k tab \<noteq> Some e" for e
    using loop_sound[of 0 "length tab" k e] by (auto simp: bsearch_def find_None_iff)
  then have "bsearch cmp k tab = None" by (cases "bsearch cmp k tab") blast+
  with None show ?thesis by simp
next
  case (Some e)
  then obtain i where "i < length tab" "e = tab ! i" "key e = k" by (auto simp: find_Some_iff)
  with Some loop_hit[of i 0 "length tab"] show ?thesis by (simp add: bsearch_def)
qed

end

section \<open>Lookup\<close>

definition hnc_oui_cmp :: "nat \<Rightarrow> hnc_oui_entry_t \<Rightarrow> int" where
  "hnc_oui_cmp k e = (if k < fst e then - 1 else if k > fst e then 1 else 0)"

interpretation oui: bsearch_table hnc_oui_cmp fst HNC_OUI_TABLE
  by unfold_locales (auto simp: hnc_oui_cmp_def oui_table_sorted)

text \<open>\<^const>\<open>None\<close> is the code's \<open>-1\<close>.\<close>

definition hnc_hex_val :: "char \<Rightarrow> nat option" where
  "hnc_hex_val c =
     (if 0x30 \<le> ord c \<and> ord c \<le> (0x39 :: nat) then Some (ord c - 0x30)
      else if 0x61 \<le> ord c \<and> ord c \<le> (0x66 :: nat) then Some (ord c - 0x61 + 10)
      else if 0x41 \<le> ord c \<and> ord c \<le> (0x46 :: nat) then Some (ord c - 0x41 + 10)
      else None)"

text \<open>A space and the two characters of \<^verbatim>\<open>"<Vendor> ..."\<close>, in UTF-8.\<close>

definition oui_suffix :: string where
  "oui_suffix = [CHR '' '', CHR 0xE8, CHR 0xAE, CHR 0xBE, CHR 0xE5, CHR 0xA4, CHR 0x87]"

definition hnc_lookup_oui :: "override_state \<Rightarrow> string \<Rightarrow> nat \<Rightarrow> string option" where
  "hnc_lookup_oui ov mac outlen =
     (if outlen = 0 then None
      else if outlen < 16 then None
      else case hnc_override_lookup ov mac outlen of
        Some label \<Rightarrow> Some label
      | None \<Rightarrow>
        (case (hnc_hex_val (cget mac 0), hnc_hex_val (cget mac 1), hnc_hex_val (cget mac 3),
               hnc_hex_val (cget mac 4), hnc_hex_val (cget mac 6), hnc_hex_val (cget mac 7)) of
           (Some b0h, Some b0l, Some b1h, Some b1l, Some b2h, Some b2l) \<Rightarrow>
             if cget mac 2 \<noteq> CHR '':'' \<or> cget mac 5 \<noteq> CHR '':'' then None
             else
               (let byte0 = push_bit 4 b0h OR b0l; byte1 = push_bit 4 b1h OR b1l; byte2 = push_bit 4 b2h OR b2l
                in if byte0 AND 0x02 \<noteq> 0 then None
                   else (let key = push_bit 16 byte0 OR push_bit 8 byte1 OR byte2
                         in case bsearch hnc_oui_cmp key HNC_OUI_TABLE of
                              None \<Rightarrow> None
                            | Some hit \<Rightarrow> Some (cbuf outlen (snd hit @ oui_suffix))))
         | _ \<Rightarrow> None))"

section \<open>The lookup is a map from prefixes to vendors\<close>

lemma hex_val_hexdigit: "n < 16 \<Longrightarrow> hnc_hex_val (hexdigit n) = Some n"
  by (simp add: hnc_hex_val_def hexdigit_def)

lemma map_of_find: "map_of xs k = map_option snd (find (\<lambda>e. fst e = k) xs)"
  by (induction xs) auto

lemma hex2_octet: "push_bit 4 (b div 16) OR (b mod 16) = (b :: nat)"
  by (simp add: push_or)

lemma oui_key: "b1 < 256 \<Longrightarrow> b2 < 256 \<Longrightarrow> push_bit 16 b0 OR push_bit 8 b1 OR b2 = b0 * 65536 + b1 * 256 + (b2 :: nat)"
  by (simp add: or.assoc push_or)

text \<open>A full address, or any text that starts with three octets in lower-case hex.\<close>

definition oui_text :: "nat \<Rightarrow> nat \<Rightarrow> nat \<Rightarrow> string \<Rightarrow> string" where
  "oui_text b0 b1 b2 rest = hex2 b0 @ CHR '':'' # hex2 b1 @ CHR '':'' # hex2 b2 @ rest"

lemma cget_oui_text:
  "cget (oui_text b0 b1 b2 rest) 0 = hexdigit (b0 div 16 mod 16)" "cget (oui_text b0 b1 b2 rest) 1 = hexdigit (b0 mod 16)"
  "cget (oui_text b0 b1 b2 rest) 2 = CHR '':''" "cget (oui_text b0 b1 b2 rest) 3 = hexdigit (b1 div 16 mod 16)"
  "cget (oui_text b0 b1 b2 rest) 4 = hexdigit (b1 mod 16)" "cget (oui_text b0 b1 b2 rest) 5 = CHR '':''"
  "cget (oui_text b0 b1 b2 rest) 6 = hexdigit (b2 div 16 mod 16)" "cget (oui_text b0 b1 b2 rest) 7 = hexdigit (b2 mod 16)"
  by (simp_all add: oui_text_def hex2_def cget_def)

lemma lookup_oui_text:
  assumes "b0 < 256" "b1 < 256" "b2 < 256" "16 \<le> outlen" "hnc_override_lookup ov (oui_text b0 b1 b2 rest) outlen = None"
  shows "hnc_lookup_oui ov (oui_text b0 b1 b2 rest) outlen =
     (if b0 AND 2 \<noteq> 0 then None
      else map_option (\<lambda>v. cbuf outlen (v @ oui_suffix)) (map_of HNC_OUI_TABLE (b0 * 65536 + b1 * 256 + b2)))"
proof -
  have "bsearch hnc_oui_cmp k HNC_OUI_TABLE = find (\<lambda>e. fst e = k) HNC_OUI_TABLE" for k
    by (rule oui.bsearch_eq_find)
  then show ?thesis
    using assms unfolding hnc_lookup_oui_def cget_oui_text
    by (auto simp: hex_val_hexdigit hex2_octet oui_key map_of_find Let_def split: option.splits)
qed

lemma oui_table_raspberry: "map_of HNC_OUI_TABLE (0xB8 * 65536 + 0x27 * 256 + 0xEB) = Some ''Raspberry-Pi''"
proof (rule map_of_is_SomeI)
  show "distinct (map fst HNC_OUI_TABLE)" using oui_table_sorted by (simp add: strict_sorted_iff)
  show "(0xB8 * 65536 + 0x27 * 256 + 0xEB, ''Raspberry-Pi'') \<in> set HNC_OUI_TABLE"
    by (simp add: HNC_OUI_TABLE_def HNC_OUI_TABLE_5_def)
qed

section \<open>Properties\<close>

text \<open>
  C31: For an address that starts with the octets \<open>b0:b1:b2\<close>, the vendor lookup (buffer of at
  least 16 bytes) returns the user's override label when there is one; otherwise nothing
  for a locally administered (randomised) address, and for every other address exactly the
  vendor that the built-in table gives for the 24-bit prefix, followed by the device suffix:
  the binary search finds every entry of the table and nothing else.
\<close>

theorem lookup_oui_correct:
  assumes "b0 < 256" and "b1 < 256" and "b2 < 256" and "16 \<le> outlen"
  shows "hnc_lookup_oui ov (oui_text b0 b1 b2 rest) outlen =
     (case hnc_override_lookup ov (oui_text b0 b1 b2 rest) outlen of
        Some label \<Rightarrow> Some label
      | None \<Rightarrow> if b0 AND 2 \<noteq> 0 then None
                else map_option (\<lambda>v. cbuf outlen (v @ oui_suffix)) (map_of HNC_OUI_TABLE (b0 * 65536 + b1 * 256 + b2)))"
  using lookup_oui_text[OF assms, of ov rest] assms(4)
  by (cases "hnc_override_lookup ov (oui_text b0 b1 b2 rest) outlen") (simp_all add: hnc_lookup_oui_def)

theorem lookup_oui_correct_witness:
  "hnc_lookup_oui (hnc_override_init None) (oui_text 0xB8 0x27 0xEB '':00:00:01'') 64 = Some (''Raspberry-Pi'' @ oui_suffix)"
  using lookup_oui_correct[of "0xB8" "0x27" "0xEB" 64 "hnc_override_init None" "'':00:00:01''"] oui_table_raspberry
  by (simp add: hnc_override_lookup_def hnc_override_init_def oui_suffix_def)

text \<open>
  The built-in vendor table is what the binary search needs: its 907 prefixes are 24-bit
  numbers in strictly ascending order, and every vendor text with the device suffix fits a
  buffer of 20 bytes.
\<close>

lemma oui_table_searchable:
  "sorted_wrt (<) (map fst HNC_OUI_TABLE) \<and> length HNC_OUI_TABLE = 907 \<and>
   list_all (\<lambda>e. 0 < fst e \<and> fst e < 2 ^ 24 \<and> length (snd e @ oui_suffix) < 20) HNC_OUI_TABLE"
proof -
  have "list_all (\<lambda>e. length (snd e) \<le> 12) HNC_OUI_TABLE" by (rule oui_table_vendor_length)
  then show ?thesis
    using oui_table_sorted oui_table_length oui_table_bounds by (auto simp: list_all_iff oui_suffix_def)
qed

text \<open>
  A buffer of 16 bytes, which the size check accepts, is too small for some vendors: the
  Raspberry Pi label is cut inside a UTF-8 character.
\<close>

lemma lookup_oui_16_cut:
  "\<exists>mac out. hnc_lookup_oui (hnc_override_init None) mac 16 = Some out \<and> \<not> utf8_wf out"
proof -
  from oui_table_raspberry have "hnc_lookup_oui (hnc_override_init None) (oui_text 0xB8 0x27 0xEB []) 16 =
      Some (cbuf 16 (''Raspberry-Pi'' @ oui_suffix))"
    by (subst lookup_oui_text) (simp_all add: hnc_override_lookup_def hnc_override_init_def)
  moreover have "\<not> utf8_wf (cbuf 16 (''Raspberry-Pi'' @ oui_suffix))"
    by (simp add: cbuf_def oui_suffix_def utf8_char_def utf8_needed_iff utf8_cont_iff)
  ultimately show ?thesis by blast
qed

end
