(* ===== verification/HostnameCache.thy ===== *)
theory HostnameCache
  imports Helpers
begin

text \<open>
  The persistent host name cache, \<^verbatim>\<open>daemon/hotspotd/hostname_cache.c\<close>: 1024 slots, lookup by MAC
  address without case, update with eviction of the least recently updated entry, and the
  JSON file.  The clock is an argument of the update; the file is an optional text, and the
  outcomes of the file system calls of the save are arguments.
\<close>

definition HNC_CACHE_MAX_ENTRIES :: nat where "HNC_CACHE_MAX_ENTRIES = 1024"

record hnc_cache_entry_t =
  ce_active :: bool
  ce_mac :: string
  ce_hostname :: string
  ce_src :: string
  ce_updated_at :: time_t

record cache_state =
  g_cache :: "hnc_cache_entry_t list"
  g_cache_dirty :: bool
  g_cache_path :: string

definition ce_zero :: hnc_cache_entry_t where
  "ce_zero = \<lparr>ce_active = False, ce_mac = [], ce_hostname = [], ce_src = [], ce_updated_at = 0\<rparr>"

section \<open>Lookup and update\<close>

fun mac_eq_loop :: "nat \<Rightarrow> string \<Rightarrow> string \<Rightarrow> bool" where
  "mac_eq_loop 0 a b = (cget a 0 = NUL \<and> cget b 0 = NUL)"
| "mac_eq_loop (Suc n) a b =
     (let ca = c_tolower (cget a 0); cb = c_tolower (cget b 0)
      in if ca \<noteq> cb then False else if ca = NUL then True else mac_eq_loop n (tl a) (tl b))"

definition mac_eq :: "string \<Rightarrow> string \<Rightarrow> bool" where
  "mac_eq a b = mac_eq_loop 17 a b"

definition hnc_cache_init :: "string option \<Rightarrow> cache_state" where
  "hnc_cache_init path =
     \<lparr>g_cache = replicate HNC_CACHE_MAX_ENTRIES ce_zero, g_cache_dirty = False,
      g_cache_path = (case path of None \<Rightarrow> [] | Some p \<Rightarrow> cbuf 256 p)\<rparr>"

definition hnc_cache_reset :: "cache_state \<Rightarrow> cache_state" where
  "hnc_cache_reset st = st\<lparr>g_cache := replicate HNC_CACHE_MAX_ENTRIES ce_zero, g_cache_dirty := False\<rparr>"

definition hnc_cache_count :: "cache_state \<Rightarrow> nat" where
  "hnc_cache_count st = length (filter ce_active (g_cache st))"

definition hnc_cache_is_dirty :: "cache_state \<Rightarrow> bool" where
  "hnc_cache_is_dirty st = g_cache_dirty st"

definition cache_hit :: "string \<Rightarrow> hnc_cache_entry_t \<Rightarrow> bool" where
  "cache_hit mac e \<longleftrightarrow> ce_active e \<and> mac_eq (ce_mac e) mac"

definition hnc_cache_lookup :: "cache_state \<Rightarrow> string \<Rightarrow> nat \<Rightarrow> nat \<Rightarrow> (string \<times> string) option" where
  "hnc_cache_lookup st mac hn_len src_len =
     (if hn_len = 0 \<or> src_len = 0 then None
      else map_option (\<lambda>e. (cbuf hn_len (ce_hostname e), cbuf src_len (ce_src e))) (find (cache_hit mac) (g_cache st)))"

text \<open>\<^verbatim>\<open>strncmp(a, b, n) != 0\<close> of two C strings.\<close>

definition strncmp_ne :: "string \<Rightarrow> string \<Rightarrow> nat \<Rightarrow> bool" where
  "strncmp_ne a b n \<longleftrightarrow> take n a \<noteq> take n b"

text \<open>The slot with the smallest time stamp, the first one among equals.\<close>

definition oldest_idx :: "hnc_cache_entry_t list \<Rightarrow> nat" where
  "oldest_idx g = fst (fold (\<lambda>i (idx, ts). if ce_updated_at (g ! i) < ts then (i, ce_updated_at (g ! i)) else (idx, ts))
                        [1..<HNC_CACHE_MAX_ENTRIES] (0, ce_updated_at (g ! 0)))"

definition cache_fill :: "string \<Rightarrow> string \<Rightarrow> string \<Rightarrow> time_t \<Rightarrow> hnc_cache_entry_t" where
  "cache_fill mac hostname src now =
     \<lparr>ce_active = True, ce_mac = cbuf 18 mac, ce_hostname = cbuf 64 hostname, ce_src = cbuf 12 src, ce_updated_at = now\<rparr>"

definition hnc_cache_update :: "cache_state \<Rightarrow> time_t \<Rightarrow> string \<Rightarrow> string \<Rightarrow> string \<Rightarrow> cache_state \<times> bool" where
  "hnc_cache_update st now mac hostname src =
     (if mac = [] \<or> hostname = [] \<or> src = [] then (st, False)
      else case find_index (cache_hit mac) (g_cache st) of
        Some i \<Rightarrow>
          (let e = g_cache st ! i;
               changed = strncmp_ne (ce_hostname e) hostname 64 \<or> strncmp_ne (ce_src e) src 12
           in if changed then
                (st\<lparr>g_cache := (g_cache st)[i := e\<lparr>ce_hostname := cbuf 64 hostname, ce_src := cbuf 12 src, ce_updated_at := now\<rparr>],
                    g_cache_dirty := True\<rparr>, True)
              else (st\<lparr>g_cache := (g_cache st)[i := e\<lparr>ce_updated_at := now\<rparr>]\<rparr>, False))
      | None \<Rightarrow>
          (case find_index (\<lambda>e. \<not> ce_active e) (g_cache st) of
             Some i \<Rightarrow> (st\<lparr>g_cache := (g_cache st)[i := cache_fill mac hostname src now], g_cache_dirty := True\<rparr>, True)
           | None \<Rightarrow>
               (let i = oldest_idx (g_cache st); e = g_cache st ! i
                in (st\<lparr>g_cache := (g_cache st)[i := e\<lparr>ce_mac := cbuf 18 mac, ce_hostname := cbuf 64 hostname,
                                                     ce_src := cbuf 12 src, ce_updated_at := now\<rparr>],
                       g_cache_dirty := True\<rparr>, True))))"

section \<open>The file\<close>

definition cache_entry_json :: "hnc_cache_entry_t \<Rightarrow> string" where
  "cache_entry_json e =
     [DQ] @ ce_mac e @ [DQ] @ '':{'' @ [DQ] @ ''h'' @ [DQ] @ '':'' @ [DQ] @ the (hnc_json_escape (ce_hostname e) 128) @
     [DQ] @ '','' @ [DQ] @ ''s'' @ [DQ] @ '':'' @ [DQ] @ ce_src e @
     [DQ] @ '','' @ [DQ] @ ''t'' @ [DQ] @ '':'' @ dec_int (ce_updated_at e) @ ''}''"

fun cache_json_loop :: "bool \<Rightarrow> hnc_cache_entry_t list \<Rightarrow> string" where
  "cache_json_loop first [] = []"
| "cache_json_loop first (e # es) =
     (if \<not> ce_active e then cache_json_loop first es
      else (if \<not> first then '','' else []) @ cache_entry_json e @ cache_json_loop False es)"

definition cache_json :: "cache_state \<Rightarrow> string" where
  "cache_json st = ''{'' @ cache_json_loop True (g_cache st) @ ''}'' @ [LF]"

text \<open>
  \<open>open_ok\<close>, \<open>sync_ok\<close> and \<open>rename_ok\<close> are the outcomes of \<^verbatim>\<open>fopen\<close>, of \<^verbatim>\<open>fflush\<close> and \<^verbatim>\<open>fsync\<close>,
  and of \<^verbatim>\<open>rename\<close>.  The last component is the new content of the cache file, if it is replaced.
\<close>

definition hnc_cache_save :: "cache_state \<Rightarrow> bool \<Rightarrow> bool \<Rightarrow> bool \<Rightarrow> cache_state \<times> int \<times> string option" where
  "hnc_cache_save st open_ok sync_ok rename_ok =
     (if g_cache_path st = [] then (st, - 1, None)
      else if \<not> open_ok then (st, - 1, None)
      else if \<not> sync_ok then (st, - 1, None)
      else if \<not> rename_ok then (st, - 1, None)
      else (st\<lparr>g_cache_dirty := False\<rparr>, 0, Some (cache_json st)))"

text \<open>
  \<^verbatim>\<open>strtoul(s, &endp, 16)\<close>: the value (a 64-bit unsigned long, negated modulo \<open>2^64\<close> after a minus
  sign) and the number of characters read, 0 when there is no number.
\<close>

definition hexval :: "char \<Rightarrow> nat" where
  "hexval c = (if c_isdigit c then ord c - 48 else if c_isupper c then ord c - 55 else ord c - 87)"

fun scan_hex :: "nat \<Rightarrow> string \<Rightarrow> nat \<times> string" where
  "scan_hex acc [] = (acc, [])"
| "scan_hex acc (c # cs) = (if c_isxdigit c then scan_hex (16 * acc + hexval c) cs else (acc, c # cs))"

definition strtoul16 :: "string \<Rightarrow> nat \<times> nat" where
  "strtoul16 s =
     (let s1 = dropWhile c_isspace s;
          neg = (cget s1 0 = CHR ''-'');
          s2 = (if cget s1 0 = CHR ''-'' \<or> cget s1 0 = CHR ''+'' then tl s1 else s1);
          s3 = (if cget s2 0 = CHR ''0'' \<and> (cget s2 1 = CHR ''x'' \<or> cget s2 1 = CHR ''X'') \<and> c_isxdigit (cget s2 2)
                then drop 2 s2 else s2)
      in if \<not> c_isxdigit (cget s3 0) then (0, 0)
         else case scan_hex 0 s3 of (v, rest) \<Rightarrow>
           (if neg then (2 ^ 64 - v) mod 2 ^ 64 else v, length s - length rest))"

text \<open>
  An escape sequence of the host name: the bytes it stands for, given the number \<open>j\<close> of bytes
  already decoded, and the number of characters it takes.
\<close>

definition hn_escape :: "nat \<Rightarrow> string \<Rightarrow> string \<times> nat" where
  "hn_escape j q =
     (let c = cget q 1
      in if c = CHR ''n'' then ([LF], 2) else if c = CHR ''r'' then ([CR], 2) else if c = CHR ''t'' then ([TAB], 2)
         else if c = DQ then ([DQ], 2) else if c = BSL then ([BSL], 2) else if c = CHR ''/'' then (''/'', 2)
         else if c = CHR ''b'' then ([CHR 0x08], 2) else if c = CHR ''f'' then ([CHR 0x0C], 2)
         else if c = CHR ''u'' \<and> cget q 2 \<noteq> NUL \<and> cget q 3 \<noteq> NUL \<and> cget q 4 \<noteq> NUL \<and> cget q 5 \<noteq> NUL then
           (case strtoul16 [cget q 2, cget q 3, cget q 4, cget q 5] of (cp, used) \<Rightarrow>
              if used = 4 then
                (if cp < 0x80 then [chr cp]
                 else if cp < 0x800 \<and> j + 1 < 63 then [chr ((0xC0 OR drop_bit 6 cp) mod 256), chr (0x80 OR (cp AND 0x3F))]
                 else if j + 2 < 63 then
                   [chr ((0xE0 OR drop_bit 12 cp) mod 256), chr (0x80 OR (drop_bit 6 cp AND 0x3F)), chr (0x80 OR (cp AND 0x3F))]
                 else [], 6)
              else ([c], 2))
         else ([c], 2))"

lemma hn_escape_used: "2 \<le> snd (hn_escape j q)"
  by (simp add: hn_escape_def Let_def split: prod.split)

function decode_hn :: "string \<Rightarrow> string \<Rightarrow> string \<times> string" where
  "decode_hn hn q =
     (if q = [] \<or> hd q = DQ \<or> \<not> length hn < 63 then (hn, q)
      else if hd q = BSL \<and> cget q 1 \<noteq> NUL then
        (case hn_escape (length hn) q of (out, used) \<Rightarrow> decode_hn (hn @ out) (drop used q))
      else decode_hn (hn @ [hd q]) (tl q))"
  by pat_completeness auto
termination
proof (relation "measure (\<lambda>(hn, q). length q)")
  fix hn q out :: string and used
  assume "\<not> (q = [] \<or> hd q = DQ \<or> \<not> length hn < 63)" "(out, used) = hn_escape (length hn) q"
  then show "((hn @ out, drop used q), hn, q) \<in> measure (\<lambda>(hn, q). length q)"
    using hn_escape_used[of "length hn" q] by (cases q) (auto dest!: sym[of "(out, used)"])
qed auto

declare decode_hn.simps [simp del]

definition mk_h :: string where "mk_h = [DQ] @ '':{'' @ [DQ] @ ''h'' @ [DQ] @ '':'' @ [DQ]"
definition mk_s :: string where "mk_s = '','' @ [DQ] @ ''s'' @ [DQ] @ '':'' @ [DQ]"
definition mk_t :: string where "mk_t = '','' @ [DQ] @ ''t'' @ [DQ] @ '':''"

text \<open>
  A position in the file buffer is the pair of the text to its left, reversed, and the text
  from it on.
\<close>

type_synonym cursor = "string \<times> string"

fun advance :: "nat \<Rightarrow> cursor \<Rightarrow> cursor" where
  "advance n (l, r) = (rev (take n r) @ l, drop n r)"

fun strstr_at :: "string \<Rightarrow> cursor \<Rightarrow> cursor option" where
  "strstr_at needle (l, []) = (if needle = [] then Some (l, []) else None)"
| "strstr_at needle (l, c # r) = (if prefix needle (c # r) then Some (l, c # r) else strstr_at needle (c # l, r))"

text \<open>
  The fields of the entry whose marker stands at the cursor, and the text from the closing
  quote of the source on; \<^const>\<open>None\<close> where the code goes on one byte further.
\<close>

definition cache_parse_entry :: "cursor \<Rightarrow> (string \<times> string \<times> string \<times> string) option" where
  "cache_parse_entry = (\<lambda>(l, r).
     if length l < 18 then None
     else if l ! 17 \<noteq> DQ then None
     else let mac = rev (take 17 l)
          in case decode_hn [] (drop (length mk_h) r) of (hn, q) \<Rightarrow>
            (if cget q 0 \<noteq> DQ then None
             else case strstr mk_s q of
               None \<Rightarrow> None
             | Some sm \<Rightarrow>
                 (let s0 = drop (length mk_s) sm; src = take 11 (takeWhile (\<lambda>c. c \<noteq> DQ) s0); rs = drop (length src) s0
                  in if cget rs 0 \<noteq> DQ then None else Some (mac, hn, src, rs))))"

definition cache_load_store :: "string \<Rightarrow> string \<Rightarrow> string \<Rightarrow> string \<Rightarrow> hnc_cache_entry_t list \<times> nat \<Rightarrow> hnc_cache_entry_t list \<times> nat" where
  "cache_load_store mac hn src rs = (\<lambda>(g, loaded).
     if loaded < HNC_CACHE_MAX_ENTRIES \<and> hn \<noteq> [] \<and> src \<noteq> [] then
       (g[loaded := \<lparr>ce_active = True, ce_mac = cbuf 18 mac, ce_hostname = cbuf 64 (cstr hn), ce_src = cbuf 12 src,
                     ce_updated_at = (case strstr mk_t rs of Some m \<Rightarrow> strtol10 (drop (length mk_t) m) | None \<Rightarrow> 0)\<rparr>],
        loaded + 1)
     else (g, loaded))"

definition cache_load_step ::
  "cursor \<Rightarrow> hnc_cache_entry_t list \<times> nat \<Rightarrow> (cursor \<times> hnc_cache_entry_t list \<times> nat) option" where
  "cache_load_step cur st =
     (case strstr_at mk_h cur of
        None \<Rightarrow> None
      | Some p \<Rightarrow>
          (case cache_parse_entry p of
             None \<Rightarrow> Some (advance 1 p, st)
           | Some (mac, hn, src, rs) \<Rightarrow>
               Some (advance (length (snd p) - length rs + 1) p, cache_load_store mac hn src rs st)))"

lemma strstr_at_length: "strstr_at n (l, r) = Some (l', r') \<Longrightarrow> length r' \<le> length r \<and> (n \<noteq> [] \<longrightarrow> r' \<noteq> [])"
  by (induction n "(l, r)" arbitrary: l r rule: strstr_at.induct) (fastforce split: if_splits)+

lemma cache_load_step_length: "cache_load_step cur st = Some (cur', st') \<Longrightarrow> length (snd cur') < length (snd cur)"
proof -
  assume a: "cache_load_step cur st = Some (cur', st')"
  obtain l r where cur: "cur = (l, r)" by fastforce
  from a cur obtain l' r' where p: "strstr_at mk_h (l, r) = Some (l', r')"
    by (auto simp: cache_load_step_def split: option.splits)
  have "mk_h \<noteq> []" by (simp add: mk_h_def)
  with strstr_at_length[OF p] obtain c r'' where "length r' \<le> length r" "r' = c # r''" by (auto simp: neq_Nil_conv)
  with a p cur show ?thesis by (auto simp: cache_load_step_def split: option.splits)
qed

function cache_load_loop :: "cursor \<Rightarrow> hnc_cache_entry_t list \<times> nat \<Rightarrow> hnc_cache_entry_t list \<times> nat" where
  "cache_load_loop cur st =
     (case cache_load_step cur st of None \<Rightarrow> st | Some (cur', st') \<Rightarrow> cache_load_loop cur' st')"
  by pat_completeness auto
termination
  by (relation "measure (\<lambda>(cur, st). length (snd cur))") (auto dest!: cache_load_step_length)

declare cache_load_loop.simps [simp del]

definition hnc_cache_load :: "cache_state \<Rightarrow> string option \<Rightarrow> cache_state \<times> nat" where
  "hnc_cache_load st file =
     (if g_cache_path st = [] then (st, 0)
      else case file of
        None \<Rightarrow> (st, 0)
      | Some buf \<Rightarrow>
          if buf = [] \<or> length buf > 256 * 1024 then (st, 0)
          else case cache_load_loop ([], cstr buf) (g_cache st, 0) of (g, loaded) \<Rightarrow>
            (st\<lparr>g_cache := g, g_cache_dirty := False\<rparr>, loaded))"

section \<open>MAC comparison\<close>

lemma mac_eq_loop_iff:
  "nulfree a \<Longrightarrow> nulfree b \<Longrightarrow> mac_eq_loop n a b \<longleftrightarrow> strcasecmp_eq a b \<and> length a \<le> n"
proof (induction n arbitrary: a b)
  case 0
  then show ?case by (cases a; cases b) (auto simp: strcasecmp_eq_def)
next
  case (Suc n)
  then show ?case by (cases a; cases b) (auto simp: strcasecmp_eq_def Let_def)
qed

lemma mac_eq_iff: "nulfree a \<Longrightarrow> nulfree b \<Longrightarrow> mac_eq a b \<longleftrightarrow> strcasecmp_eq a b \<and> length a \<le> 17"
  by (simp add: mac_eq_def mac_eq_loop_iff)

section \<open>Invariant\<close>

text \<open>
  Every field is a C string within its array, and no two active entries have the same
  address.
\<close>

definition cache_entry_ok :: "hnc_cache_entry_t \<Rightarrow> bool" where
  "cache_entry_ok e \<longleftrightarrow> nulfree (ce_mac e) \<and> length (ce_mac e) < 18 \<and> nulfree (ce_hostname e) \<and> length (ce_hostname e) < 64 \<and>
     nulfree (ce_src e) \<and> length (ce_src e) < 12"

definition cache_inv :: "hnc_cache_entry_t list \<Rightarrow> bool" where
  "cache_inv g \<longleftrightarrow> length g = HNC_CACHE_MAX_ENTRIES \<and> list_all cache_entry_ok g \<and>
     (\<forall>i < length g. \<forall>j < length g. ce_active (g ! i) \<and> ce_active (g ! j) \<and> strcasecmp_eq (ce_mac (g ! i)) (ce_mac (g ! j)) \<longrightarrow> i = j)"

lemma cache_inv_nth: "cache_inv g \<Longrightarrow> i < length g \<Longrightarrow> cache_entry_ok (g ! i)"
  by (simp add: cache_inv_def list_all_length)

lemma cache_inv_update_same:
  assumes "cache_inv g" and "cache_entry_ok e" and "ce_mac e = ce_mac (g ! i)" and "ce_active e = ce_active (g ! i)"
  shows "cache_inv (g[i := e])"
  using assms by (cases "i < length g") (auto simp: cache_inv_def nth_list_update intro!: list_all_update)

lemma cache_inv_update_new:
  assumes "cache_inv g" and "cache_entry_ok e" and "find (cache_hit (ce_mac e)) g = None"
  shows "cache_inv (g[i := e])"
proof -
  have ne: "\<not> strcasecmp_eq (ce_mac (g ! j)) (ce_mac e)" if "j < length g" "ce_active (g ! j)" for j
  proof -
    have "\<not> cache_hit (ce_mac e) (g ! j)" using assms(3) that by (auto simp: find_None_iff)
    then show ?thesis using that assms(2) cache_inv_nth[OF assms(1) that(1)]
      by (auto simp: cache_hit_def mac_eq_iff cache_entry_ok_def)
  qed
  then have "\<not> strcasecmp_eq (ce_mac e) (ce_mac (g ! j))" if "j < length g" "ce_active (g ! j)" for j
    using that strcasecmp_eq_equiv(2) by blast
  with ne assms show ?thesis
    by (cases "i < length g") (auto simp: cache_inv_def nth_list_update intro!: list_all_update split: if_splits)
qed

lemma oldest_idx_min:
  assumes "length g = HNC_CACHE_MAX_ENTRIES"
  shows "oldest_idx g < length g \<and> (\<forall>j < length g. ce_updated_at (g ! oldest_idx g) \<le> ce_updated_at (g ! j)) \<and>
    (\<forall>j < oldest_idx g. ce_updated_at (g ! oldest_idx g) < ce_updated_at (g ! j))"
proof -
  let ?f = "\<lambda>i (idx, ts). if ce_updated_at (g ! i) < ts then (i, ce_updated_at (g ! i)) else (idx, ts)"
  have "(case fold ?f [1..<Suc n] (0, ce_updated_at (g ! 0)) of (idx, ts) \<Rightarrow>
      idx \<le> n \<and> ts = ce_updated_at (g ! idx) \<and> (\<forall>j \<le> n. ts \<le> ce_updated_at (g ! j)) \<and> (\<forall>j < idx. ts < ce_updated_at (g ! j)))" for n
    by (induction n) (force simp: le_Suc_eq less_Suc_eq_le split: prod.splits if_splits)+
  from this[of "HNC_CACHE_MAX_ENTRIES - 1"] show ?thesis
    using assms by (auto simp: oldest_idx_def HNC_CACHE_MAX_ENTRIES_def less_eq_Suc_le split: prod.splits)
qed

section \<open>What an update does\<close>

lemma cache_fill_ok: "nulfree mac \<Longrightarrow> nulfree hn \<Longrightarrow> nulfree src \<Longrightarrow> cache_entry_ok (cache_fill mac hn src now)"
  by (simp add: cache_fill_def cache_entry_ok_def min_less_iff_disj)

text \<open>
  The update writes one slot \<open>i\<close>: the slot of the address if it has one (first case), else a
  free slot (second case), else a least recently updated one (third case).
\<close>

lemma cache_update_slot:
  assumes "cache_inv (g_cache st)" and "nulfree mac" and "nulfree hn" and "nulfree src"
    and "mac \<noteq> []" and "hn \<noteq> []" and "src \<noteq> []" and "length mac \<le> 17"
  obtains i e where
    "i < length (g_cache st)" and "g_cache (fst (hnc_cache_update st now mac hn src)) = (g_cache st)[i := e]"
    and "cache_entry_ok e" and "cache_hit mac e" and "ce_hostname e = cbuf 64 hn" and "ce_src e = cbuf 12 src" and "ce_updated_at e = now"
    and "(find_index (cache_hit mac) (g_cache st) = Some i \<and> ce_mac e = ce_mac (g_cache st ! i)) \<or>
         (find (cache_hit mac) (g_cache st) = None \<and> ce_mac e = mac \<and> \<not> ce_active (g_cache st ! i)) \<or>
         (find (cache_hit mac) (g_cache st) = None \<and> ce_mac e = mac \<and> list_all ce_active (g_cache st) \<and> i = oldest_idx (g_cache st))"
proof -
  let ?g = "g_cache st"
  have len: "length ?g = HNC_CACHE_MAX_ENTRIES" using assms(1) by (simp add: cache_inv_def)
  show thesis
  proof (cases "find_index (cache_hit mac) ?g")
    case (Some i)
    then have i: "i < length ?g" "cache_hit mac (?g ! i)" using find_index_Some by fastforce+
    have ok: "cache_entry_ok (?g ! i)" using assms(1) i(1) by (rule cache_inv_nth)
    let ?e = "(?g ! i)\<lparr>ce_hostname := cbuf 64 hn, ce_src := cbuf 12 src, ce_updated_at := now\<rparr>"
    have keep: "ce_hostname (?g ! i) = cbuf 64 hn \<and> ce_src (?g ! i) = cbuf 12 src"
      if "\<not> strncmp_ne (ce_hostname (?g ! i)) hn 64" "\<not> strncmp_ne (ce_src (?g ! i)) src 12"
    proof -
      have "take 64 hn = ce_hostname (?g ! i)" "take 12 src = ce_src (?g ! i)"
        using that ok by (simp_all add: strncmp_ne_def cache_entry_ok_def)
      moreover from this ok have "length hn < 64" "length src < 12"
        by (auto simp: cache_entry_ok_def dest!: arg_cong[of "take _ _" _ length])
      ultimately show ?thesis by simp
    qed
    have "g_cache (fst (hnc_cache_update st now mac hn src)) = ?g[i := ?e]"
      using Some keep assms(5-7) by (auto simp: hnc_cache_update_def Let_def)
    moreover have "cache_hit mac ?e" "cache_entry_ok ?e" using i ok assms(3,4) by (auto simp: cache_hit_def cache_entry_ok_def)
    ultimately show thesis using i Some by (intro that[of i ?e]) auto
  next
    case None
    then have none: "find (cache_hit mac) ?g = None" by (simp add: find_index_find)
    have hit: "cache_hit mac (cache_fill mac hn src now)"
      using assms(2,8) by (simp add: cache_hit_def cache_fill_def mac_eq_iff strcasecmp_eq_equiv)
    note fill = cache_fill_ok[OF assms(2-4), of now] hit
    show thesis
    proof (cases "find_index (\<lambda>e. \<not> ce_active e) ?g")
      case (Some i)
      then have "i < length ?g" "\<not> ce_active (?g ! i)" using find_index_Some by fastforce+
      with None Some none fill assms(5-8) show thesis
        by (intro that[of i "cache_fill mac hn src now"]) (auto simp: hnc_cache_update_def cache_fill_def)
    next
      case full: None
      then have act: "list_all ce_active ?g" by (auto simp: find_index_None list_all_iff)
      let ?i = "oldest_idx ?g"
      have i: "?i < length ?g" using oldest_idx_min[OF len] by simp
      then have "ce_active (?g ! ?i)" using act by (simp add: list_all_length)
      then have "(?g ! ?i)\<lparr>ce_mac := cbuf 18 mac, ce_hostname := cbuf 64 hn, ce_src := cbuf 12 src, ce_updated_at := now\<rparr>
          = cache_fill mac hn src now" by (simp add: cache_fill_def)
      with None full none fill i act assms(5-8) show thesis
        by (intro that[of ?i "cache_fill mac hn src now"]) (auto simp: hnc_cache_update_def Let_def cache_fill_def)
    qed
  qed
qed

lemma cache_hit_iff: "cache_entry_ok e \<Longrightarrow> nulfree m \<Longrightarrow> cache_hit m e \<longleftrightarrow> ce_active e \<and> strcasecmp_eq (ce_mac e) m"
  by (auto simp: cache_hit_def mac_eq_iff cache_entry_ok_def)

lemma cache_hit_unique:
  assumes "cache_inv g" and "nulfree m" and "i < length g" and "j < length g" and "cache_hit m (g ! i)" and "cache_hit m (g ! j)"
  shows "i = j"
proof -
  have "strcasecmp_eq (ce_mac (g ! i)) m" "strcasecmp_eq (ce_mac (g ! j)) m"
    using assms(2-6) cache_inv_nth[OF assms(1)] by (simp_all add: cache_hit_iff)
  then have "strcasecmp_eq (ce_mac (g ! i)) (ce_mac (g ! j))" using strcasecmp_eq_equiv(2,3) by blast
  with assms show ?thesis by (auto simp: cache_inv_def cache_hit_def)
qed

lemma find_update_evict:
  assumes "\<And>j. j < length xs \<Longrightarrow> P (xs ! j) \<Longrightarrow> j = i" and "\<not> P e"
  shows "find P (xs[i := e]) = None"
proof (cases "i < length xs")
  case True
  with assms show ?thesis by (auto simp: find_None_iff in_set_conv_nth nth_list_update split: if_splits)
next
  case False
  with assms(1) show ?thesis by (auto simp: find_None_iff in_set_conv_nth)
qed

section \<open>Properties of lookup and update\<close>

text \<open>What a lookup finds after an entry has been stored in the slot chosen for its address.\<close>

definition cache_slot :: "string \<Rightarrow> hnc_cache_entry_t list \<Rightarrow> nat \<Rightarrow> hnc_cache_entry_t \<Rightarrow> bool" where
  "cache_slot mac g i e \<longleftrightarrow> (find_index (cache_hit mac) g = Some i \<and> ce_mac e = ce_mac (g ! i)) \<or>
     (find (cache_hit mac) g = None \<and> ce_mac e = mac \<and> \<not> ce_active (g ! i)) \<or>
     (find (cache_hit mac) g = None \<and> ce_mac e = mac \<and> list_all ce_active g \<and> i = oldest_idx g)"

lemma find_stored_same:
  assumes g: "cache_inv g" "i < length g" and slot: "cache_slot mac g i e" and e: "cache_entry_ok e" "cache_hit mac e"
    and "nulfree mac" and "nulfree mac'" and "strcasecmp_eq mac mac'"
  shows "find (cache_hit mac') (g[i := e]) = Some e"
proof -
  have ok: "cache_entry_ok x" if "x \<in> set g" for x using g(1) that by (auto simp: cache_inv_def list_all_iff)
  have same: "cache_hit mac' x = cache_hit mac x" if "cache_entry_ok x" for x
    using that assms(6-8) strcasecmp_eq_equiv by (metis cache_hit_iff)
  show ?thesis
  proof (cases "find_index (cache_hit mac) g")
    case None
    then have "find (cache_hit mac') g = None" using same ok by (simp add: find_index_find find_index_cong[of g "cache_hit mac'" "cache_hit mac"])
    with g(2) e same show ?thesis by (intro find_update_fresh) auto
  next
    case (Some k)
    with slot have "find_index (cache_hit mac') g = Some i"
      using same ok by (auto simp: cache_slot_def find_index_find find_index_cong[of g "cache_hit mac'" "cache_hit mac"])
    with e same show ?thesis by (intro find_update_hit) auto
  qed
qed

lemma find_stored_other:
  assumes g: "cache_inv g" "i < length g" and slot: "cache_slot mac g i e" and e: "cache_entry_ok e" "cache_hit mac e"
    and mac: "nulfree mac" "nulfree mac'" "\<not> strcasecmp_eq mac mac'"
  shows "find (cache_hit mac') (g[i := e]) =
    (if find (cache_hit mac) g = None \<and> list_all ce_active g \<and> cache_hit mac' (g ! oldest_idx g) then None else find (cache_hit mac') g)"
proof -
  have ok: "cache_entry_ok (g ! i)" using cache_inv_nth[OF g] .
  have ne: "\<not> cache_hit mac' e" using e mac strcasecmp_eq_equiv by (metis cache_hit_iff)
  show ?thesis
  proof (cases "cache_hit mac' (g ! i)")
    case True
    have "\<not> cache_hit mac (g ! i)" using True ok mac strcasecmp_eq_equiv by (metis cache_hit_iff)
    then have "find_index (cache_hit mac) g \<noteq> Some i" using find_index_Some by fastforce
    with slot True have "find (cache_hit mac) g = None" "list_all ce_active g" "i = oldest_idx g"
      by (auto simp: cache_slot_def cache_hit_def)
    moreover have "find (cache_hit mac') (g[i := e]) = None"
      using cache_hit_unique[OF g(1) mac(2) _ g(2) _ True] ne by (intro find_update_evict) auto
    ultimately show ?thesis using True by simp
  next
    case False
    then have "find (cache_hit mac') (g[i := e]) = find (cache_hit mac') g" using g(2) ne by (intro find_update_other)
    moreover have "\<not> (find (cache_hit mac) g = None \<and> list_all ce_active g \<and> cache_hit mac' (g ! oldest_idx g))"
      using slot False g(2) by (auto simp: cache_slot_def list_all_length find_index_find)
    ultimately show ?thesis by auto
  qed
qed

text \<open>
  C30: After an update the cache answers like a finite map with eviction of the oldest entry: the updated address (in any case)
  yields the new name and source, cut to their fields; every other address yields what it
  yielded before, except, when the cache is full and the address is new, the address in one slot, which is
  forgotten: the first of those whose time of last update is the smallest of all 1024.
\<close>

theorem cache_lookup_update:
  assumes "cache_inv (g_cache st)" and "nulfree mac" and "nulfree hn" and "nulfree src" and "mac \<noteq> []" and "hn \<noteq> []" and "src \<noteq> []"
    and "length mac \<le> 17"
  shows "\<exists>old < 1024. (\<forall>j < 1024. ce_updated_at (g_cache st ! old) \<le> ce_updated_at (g_cache st ! j)) \<and>
    (\<forall>j < old. ce_updated_at (g_cache st ! old) < ce_updated_at (g_cache st ! j)) \<and>
    (\<forall>mac' hn_len src_len. nulfree mac' \<and> 0 < hn_len \<and> 0 < src_len \<longrightarrow>
      hnc_cache_lookup (fst (hnc_cache_update st now mac hn src)) mac' hn_len src_len =
       (if strcasecmp_eq mac mac' then Some (cbuf hn_len (cbuf 64 hn), cbuf src_len (cbuf 12 src))
        else if find (cache_hit mac) (g_cache st) = None \<and> list_all ce_active (g_cache st) \<and> cache_hit mac' (g_cache st ! old) then None
        else hnc_cache_lookup st mac' hn_len src_len))"
proof -
  let ?g = "g_cache st"
  have len: "length ?g = HNC_CACHE_MAX_ENTRIES" using assms(1) by (simp add: cache_inv_def)
  obtain i e where i: "i < length ?g" and upd: "g_cache (fst (hnc_cache_update st now mac hn src)) = ?g[i := e]"
    and e: "cache_entry_ok e" "cache_hit mac e" "ce_hostname e = cbuf 64 hn" "ce_src e = cbuf 12 src" and slot: "cache_slot mac ?g i e"
    unfolding cache_slot_def using cache_update_slot[OF assms(1-8)] by metis
  have "hnc_cache_lookup (fst (hnc_cache_update st now mac hn src)) mac' hn_len src_len =
     (if strcasecmp_eq mac mac' then Some (cbuf hn_len (cbuf 64 hn), cbuf src_len (cbuf 12 src))
      else if find (cache_hit mac) ?g = None \<and> list_all ce_active ?g \<and> cache_hit mac' (?g ! oldest_idx ?g) then None
      else hnc_cache_lookup st mac' hn_len src_len)" if "nulfree mac'" "0 < hn_len" "0 < src_len" for mac' hn_len src_len
    using find_stored_same[OF assms(1) i slot e(1,2) assms(2) that(1)] find_stored_other[OF assms(1) i slot e(1,2) assms(2) that(1)] upd e(3,4) that(2,3)
    by (auto simp: hnc_cache_lookup_def)
  then show ?thesis using oldest_idx_min[OF len] len by (intro exI[of _ "oldest_idx ?g"]) (simp add: HNC_CACHE_MAX_ENTRIES_def)
qed

lemma cache_inv_init: "cache_inv (g_cache (hnc_cache_init path))"
  by (auto simp: cache_inv_def hnc_cache_init_def ce_zero_def cache_entry_ok_def list_all_iff)

theorem cache_lookup_update_witness:
  "hnc_cache_lookup (fst (hnc_cache_update (hnc_cache_init None) 7 ''AA:bb'' ''tv'' ''dhcp'')) ''aa:BB'' 64 12 = Some (''tv'', ''dhcp'')"
proof -
  have "strcasecmp_eq ''AA:bb'' ''aa:BB''" by code_simp
  then show ?thesis
    using cache_lookup_update[OF cache_inv_init[of None], where mac = "''AA:bb''" and hn = "''tv''" and src = "''dhcp''" and now = 7] by force
qed

text \<open>
  An update keeps the cache well formed (1024 slots, terminated fields, one active slot
  per address whatever the case), and the slot that a full cache gives up is one with the
  smallest time stamp.
\<close>

lemma cache_update_keeps_inv:
  assumes "cache_inv (g_cache st)" and "nulfree mac" and "nulfree hn" and "nulfree src" and "length mac \<le> 17"
  shows "cache_inv (g_cache (fst (hnc_cache_update st now mac hn src))) \<and>
     (\<forall>j < 1024. ce_updated_at (g_cache st ! oldest_idx (g_cache st)) \<le> ce_updated_at (g_cache st ! j))"
proof
  have len: "length (g_cache st) = HNC_CACHE_MAX_ENTRIES" using assms(1) by (simp add: cache_inv_def)
  then show "\<forall>j < 1024. ce_updated_at (g_cache st ! oldest_idx (g_cache st)) \<le> ce_updated_at (g_cache st ! j)"
    using oldest_idx_min[OF len] by (simp add: HNC_CACHE_MAX_ENTRIES_def)
  show "cache_inv (g_cache (fst (hnc_cache_update st now mac hn src)))"
  proof (cases "mac = [] \<or> hn = [] \<or> src = []")
    case True
    then show ?thesis using assms(1) by (simp add: hnc_cache_update_def)
  next
    case False
    then have ne: "mac \<noteq> []" "hn \<noteq> []" "src \<noteq> []" by auto
    from cache_update_slot[OF assms(1-4) ne assms(5), of now] obtain i e where
      "g_cache (fst (hnc_cache_update st now mac hn src)) = (g_cache st)[i := e]" "cache_entry_ok e" "cache_hit mac e"
      "find_index (cache_hit mac) (g_cache st) = Some i \<and> ce_mac e = ce_mac (g_cache st ! i) \<or>
       find (cache_hit mac) (g_cache st) = None \<and> ce_mac e = mac" by metis
    then show ?thesis
      using cache_inv_update_new[OF assms(1), of e i] cache_inv_update_same[OF assms(1), of e i] find_index_Some[of "cache_hit mac" "g_cache st" i]
      by (auto simp: cache_hit_def)
  qed
qed

lemma cache_update_keeps_inv_witness:
  "cache_inv (g_cache (fst (hnc_cache_update (hnc_cache_init None) 7 ''aa:bb'' ''tv'' ''dhcp'')))"
  using cache_update_keeps_inv[OF cache_inv_init[of None], of "''aa:bb''" "''tv''" "''dhcp''" 7] by simp

section \<open>Decoding what the escaper writes\<close>

lemma hexdigit_facts:
  assumes "n < 16"
  shows "c_isxdigit (hexdigit n)" "hexval (hexdigit n) = n" "hexdigit n \<noteq> NUL" "\<not> c_isspace (hexdigit n)"
    "hexdigit n \<noteq> CHR ''-''" "hexdigit n \<noteq> CHR ''+''" "hexdigit n \<noteq> CHR ''x''" "hexdigit n \<noteq> CHR ''X''"
proof -
  have o: "ord (hexdigit n) = (if n < 10 then 48 + n else 87 + n)"
    using assms by (simp add: hexdigit_def)
  show "c_isxdigit (hexdigit n)" "hexval (hexdigit n) = n" "\<not> c_isspace (hexdigit n)"
    using assms by (simp_all add: c_isxdigit_def c_isdigit_def hexval_def c_isupper_def c_isspace_def o)
  show "hexdigit n \<noteq> NUL" "hexdigit n \<noteq> CHR ''-''" "hexdigit n \<noteq> CHR ''+''" "hexdigit n \<noteq> CHR ''x''" "hexdigit n \<noteq> CHR ''X''"
    using o assms by (auto split: if_splits)
qed

lemma strtoul16_hex4: "n < 256 \<Longrightarrow> strtoul16 (hex4 n) = (n, 4)"
proof -
  assume n: "n < 256"
  have "16 * (n div 16) + n mod 16 = n" by simp
  with n show ?thesis by (simp add: strtoul16_def hex4_def Let_def cget_def hexdigit_facts)
qed

lemma hn_escape_u: "n < 0x20 \<Longrightarrow> hn_escape j (BSL # CHR ''u'' # hex4 n @ t) = ([chr n], 6)"
proof -
  assume n: "n < 0x20"
  let ?q = "BSL # CHR ''u'' # hex4 n @ t"
  have "[cget ?q 2, cget ?q 3, cget ?q 4, cget ?q 5] = hex4 n" by (simp add: hex4_def cget_def)
  moreover have "cget ?q 2 \<noteq> NUL" "cget ?q 3 \<noteq> NUL" "cget ?q 4 \<noteq> NUL" "cget ?q 5 \<noteq> NUL"
    by (simp_all add: hex4_def cget_def hexdigit_facts)
  moreover have "cget ?q 1 = CHR ''u''" by (simp add: cget_def)
  ultimately show ?thesis using n strtoul16_hex4[of n] by (simp add: hn_escape_def)
qed

lemma decode_hn_esc:
  assumes "length hn < 63" and "c \<noteq> NUL"
  shows "decode_hn hn (json_esc c @ t) = decode_hn (hn @ [c]) t"
proof (cases "c = DQ \<or> c = BSL \<or> c = LF \<or> c = CR \<or> c = TAB")
  case True
  then show ?thesis using assms
    by (subst decode_hn.simps) (auto simp: json_esc_def hn_escape_def cget_def)
next
  case False
  show ?thesis
  proof (cases "ord c < (0x20 :: nat)")
    case True
    then have "json_esc c @ t = BSL # CHR ''u'' # hex4 (ord c) @ t" using False by (simp add: json_esc_def)
    moreover have "length (hex4 (ord c)) = 4" by (rule length_hex4)
    ultimately show ?thesis using assms True hn_escape_u[OF True, of "length hn" t]
      by (subst decode_hn.simps) (simp add: cget_def)
  next
    case nc: False
    then show ?thesis using assms False by (subst decode_hn.simps) (simp add: json_esc_def)
  qed
qed

lemma decode_hn_escs:
  "nulfree s \<Longrightarrow> length hn + length s \<le> 63 \<Longrightarrow> decode_hn hn (json_escs s @ DQ # t) = (hn @ s, DQ # t)"
proof (induction s arbitrary: hn)
  case Nil
  then show ?case by (subst decode_hn.simps) simp
next
  case (Cons c s)
  then show ?case using decode_hn_esc[of hn c "json_escs s @ DQ # t"] by simp
qed

section \<open>Loading what was saved\<close>

definition cache_tail :: "hnc_cache_entry_t \<Rightarrow> string" where
  "cache_tail e = mk_t @ dec_int (ce_updated_at e) @ ''}''"

text \<open>What an entry must be so that its text can be read back: a 17-character address, no quote in the
  fields that are not escaped, and a host name whose escaped form has room in the 128-byte buffer.\<close>

definition cache_saveable :: "hnc_cache_entry_t \<Rightarrow> bool" where
  "cache_saveable e \<longleftrightarrow> cache_entry_ok e \<and> length (ce_mac e) = 17 \<and> DQ \<notin> set (ce_mac e) \<and> hd (ce_mac e) \<noteq> CHR '':'' \<and>
     ce_hostname e \<noteq> [] \<and> length (json_escs (ce_hostname e)) < 127 \<and> ce_src e \<noteq> [] \<and> DQ \<notin> set (ce_src e) \<and>
     - (2 ^ 63) \<le> ce_updated_at e \<and> ce_updated_at e < 2 ^ 63"

section \<open>One entry\<close>

lemma strstr_at_plain: "DQ \<notin> set u \<Longrightarrow> strstr_at mk_h (l, u @ r) = strstr_at mk_h (rev u @ l, r)"
  by (induction u arbitrary: l) (auto simp: mk_h_def)

lemma strstr_at_quote: "cget r 0 \<noteq> CHR '':'' \<or> cget r 1 \<noteq> CHR ''{'' \<Longrightarrow> strstr_at mk_h (l, DQ # r) = strstr_at mk_h (DQ # l, r)"
  by (auto simp: mk_h_def cget_def prefix_def)

lemma strstr_at_hit: "strstr_at mk_h (l, mk_h @ r) = Some (l, mk_h @ r)"
  by (simp add: mk_h_def)

lemma strstr_at_tail: "strstr_at mk_h (l, cache_tail e @ r) = strstr_at mk_h (rev (cache_tail e) @ l, r)"
proof -
  obtain d ds where ds: "dec_int (ce_updated_at e) = d # ds" using dec_int_nonempty by (meson neq_Nil_conv)
  have nd: "\<not> c_isdigit DQ" "\<not> c_isdigit (CHR ''{'')" by (simp_all add: c_isdigit_def)
  then have d: "d \<noteq> CHR ''{''" "DQ \<notin> set (CHR '':'' # dec_int (ce_updated_at e) @ ''}'')"
    using ds dec_int_notin[of "CHR ''{''" "ce_updated_at e"] dec_int_notin[of DQ "ce_updated_at e"] by auto
  have "strstr_at mk_h (l, cache_tail e @ r) = strstr_at mk_h (DQ # CHR ''t'' # DQ # CHR '','' # l, CHR '':'' # dec_int (ce_updated_at e) @ CHR ''}'' # r)"
    using strstr_at_plain[of "'',''" l] strstr_at_plain[of "''t''"] d(1) ds
    by (simp add: cache_tail_def mk_t_def strstr_at_quote cget_def del: strstr_at.simps)
  also have "\<dots> = strstr_at mk_h (rev (cache_tail e) @ l, r)"
    using strstr_at_plain[OF d(2), of "DQ # CHR ''t'' # DQ # CHR '','' # l" r] by (simp add: cache_tail_def mk_t_def del: strstr_at.simps)
  finally show ?thesis .
qed

lemma cache_entry_json_eq:
  assumes "cache_saveable e"
  shows "cache_entry_json e = DQ # ce_mac e @ mk_h @ json_escs (ce_hostname e) @ DQ # mk_s @ ce_src e @ DQ # cache_tail e"
  using assms json_escape_complete_room[of "ce_hostname e" 128]
  by (simp add: cache_entry_json_def cache_saveable_def mk_h_def mk_s_def mk_t_def cache_tail_def)

lemma cache_parse_entry_saved:
  assumes "cache_saveable e"
  shows "cache_parse_entry (rev (ce_mac e) @ DQ # l, mk_h @ json_escs (ce_hostname e) @ DQ # mk_s @ ce_src e @ DQ # t) =
         Some (ce_mac e, ce_hostname e, ce_src e, DQ # t)"
proof -
  have hn: "decode_hn [] (json_escs (ce_hostname e) @ DQ # mk_s @ ce_src e @ DQ # t) = (ce_hostname e, DQ # mk_s @ ce_src e @ DQ # t)"
    using assms decode_hn_escs[of "ce_hostname e" "[]"] by (simp add: cache_saveable_def cache_entry_ok_def)
  have s: "strstr mk_s (DQ # mk_s @ u) = Some (mk_s @ u)" for u by (simp add: mk_s_def)
  have src: "takeWhile (\<lambda>c. c \<noteq> DQ) (ce_src e @ DQ # t) = ce_src e" "length (ce_src e) \<le> 11"
    using assms by (auto simp: cache_saveable_def cache_entry_ok_def takeWhile_append)
  show ?thesis using assms hn s src
    by (simp add: cache_parse_entry_def cache_saveable_def nth_append Let_def)
qed

lemma cache_load_store_saved:
  assumes "cache_saveable e" and "ce_active e" and "k < HNC_CACHE_MAX_ENTRIES"
  shows "cache_load_store (ce_mac e) (ce_hostname e) (ce_src e) (DQ # cache_tail e @ t) (g, k) = (g[k := e], k + 1)"
proof -
  have m: "strstr mk_t (DQ # mk_t @ u) = Some (mk_t @ u)" for u by (simp add: mk_t_def)
  have "strtol10 (dec_int (ce_updated_at e) @ CHR ''}'' # t) = ce_updated_at e"
    by (rule strtol10_dec_int) (simp add: c_isdigit_def)
  moreover have eq: "\<lparr>ce_active = True, ce_mac = ce_mac e, ce_hostname = ce_hostname e, ce_src = ce_src e,
      ce_updated_at = ce_updated_at e\<rparr> = e" using assms(2) by (cases e) simp
  ultimately show ?thesis using assms m
    by (simp add: cache_load_store_def cache_saveable_def cache_entry_ok_def cache_tail_def eq)
qed

lemma cache_load_step_saved:
  assumes "cache_saveable e" and "ce_active e" and "k < HNC_CACHE_MAX_ENTRIES" and "c \<noteq> DQ"
    and skip: "\<And>l r. strstr_at mk_h (l, u @ r) = strstr_at mk_h (rev u @ l, r)"
  shows "\<exists>l'. cache_load_step (l, u @ c # cache_entry_json e @ t) (g, k) = Some ((l', cache_tail e @ t), (g[k := e], k + 1))"
proof -
  let ?r = "mk_h @ json_escs (ce_hostname e) @ DQ # mk_s @ ce_src e @ DQ # cache_tail e @ t"
  have mac: "ce_mac e \<noteq> []" "hd (ce_mac e) \<noteq> CHR '':''" "DQ \<notin> set (ce_mac e)" using assms(1) by (auto simp: cache_saveable_def)
  have "strstr_at mk_h (l, u @ c # cache_entry_json e @ t) = strstr_at mk_h (c # rev u @ l, DQ # ce_mac e @ ?r)"
    using skip strstr_at_plain[of "[c]"] assms(4) by (simp add: cache_entry_json_eq[OF assms(1)] del: strstr_at.simps)
  also have "\<dots> = Some (rev (ce_mac e) @ DQ # c # rev u @ l, ?r)"
    using mac strstr_at_plain[OF mac(3)] strstr_at_hit
    by (subst strstr_at_quote) (auto simp: cget_def hd_conv_nth nth_append simp del: strstr_at.simps)
  finally show ?thesis
    using cache_parse_entry_saved[OF assms(1), of "c # rev u @ l" "cache_tail e @ t"] cache_load_store_saved[OF assms(1-3), of t g]
    by (simp add: cache_load_step_def)
qed

section \<open>The whole file\<close>

abbreviation cache_more :: "hnc_cache_entry_t list \<Rightarrow> string" where
  "cache_more es \<equiv> concat (map (\<lambda>e. CHR '','' # cache_entry_json e) es)"

lemma cache_json_loop_more: "cache_json_loop False g = cache_more (filter ce_active g)"
  by (induction g) auto

lemma cache_json_loop_first:
  "cache_json_loop True g = (case filter ce_active g of [] \<Rightarrow> [] | e # es \<Rightarrow> cache_entry_json e @ cache_more es)"
  by (induction g) (auto simp: cache_json_loop_more)

lemma cache_load_more:
  assumes "\<And>l r. strstr_at mk_h (l, u @ r) = strstr_at mk_h (rev u @ l, r)"
    and "list_all (\<lambda>e. cache_saveable e \<and> ce_active e) es" and "k + length es \<le> HNC_CACHE_MAX_ENTRIES"
  shows "cache_load_loop (l, u @ cache_more es @ [CHR ''}'', LF]) (g, k) = (fold (\<lambda>e (g, k). (g[k := e], k + 1)) es (g, k))"
  using assms
proof (induction es arbitrary: l u g k)
  case Nil
  have "strstr_at mk_h (rev u @ l, [CHR ''}'', LF]) = None" by (simp add: mk_h_def)
  with Nil show ?case by (simp add: cache_load_loop.simps cache_load_step_def)
next
  case (Cons e es)
  then obtain l' where "cache_load_step (l, u @ CHR '','' # cache_entry_json e @ cache_more es @ [CHR ''}'', LF]) (g, k) =
      Some ((l', cache_tail e @ cache_more es @ [CHR ''}'', LF]), (g[k := e], k + 1))"
    using cache_load_step_saved[of e k "CHR '',''" u l "cache_more es @ [CHR ''}'', LF]" g] by auto
  then have "cache_load_loop (l, u @ cache_more (e # es) @ [CHR ''}'', LF]) (g, k) =
      cache_load_loop (l', cache_tail e @ cache_more es @ [CHR ''}'', LF]) (g[k := e], k + 1)"
    by (subst cache_load_loop.simps) simp
  also have "\<dots> = fold (\<lambda>e (g, k). (g[k := e], k + 1)) es (g[k := e], k + 1)"
    using Cons.prems by (intro Cons.IH strstr_at_tail) auto
  finally show ?case by simp
qed

lemma fold_fill:
  "k + length es \<le> length g \<Longrightarrow>
   fold (\<lambda>e (g, k). (g[k := e], k + 1)) es (g, k) = (take k g @ es @ drop (k + length es) g, k + length es)"
proof (induction es arbitrary: g k)
  case (Cons e es)
  then have "take (Suc k) (g[k := e]) = take k g @ [e]" by (intro take_Suc_update) simp
  with Cons show ?case by simp
qed simp

lemma cache_load_json:
  assumes "list_all cache_saveable (filter ce_active g)" and "length (filter ce_active g) \<le> HNC_CACHE_MAX_ENTRIES"
    and "length g0 = HNC_CACHE_MAX_ENTRIES"
  shows "cache_load_loop ([], ''{'' @ cache_json_loop True g @ ''}'' @ [LF]) (g0, 0) =
    (filter ce_active g @ drop (length (filter ce_active g)) g0, length (filter ce_active g))"
proof (cases "filter ce_active g")
  case Nil
  have "strstr_at mk_h ([], [CHR ''{'', CHR ''}'', LF]) = None" by (simp add: mk_h_def)
  with Nil show ?thesis by (simp add: cache_json_loop_first cache_load_loop.simps cache_load_step_def)
next
  case (Cons e es)
  then have act: "list_all ce_active (e # es)" by (metis list_all_iff mem_Collect_eq set_filter)
  obtain l' where "cache_load_step ([], CHR ''{'' # cache_entry_json e @ cache_more es @ [CHR ''}'', LF]) (g0, 0) =
      Some ((l', cache_tail e @ cache_more es @ [CHR ''}'', LF]), (g0[0 := e], 1))"
    using cache_load_step_saved[of e 0 "CHR ''{''" "[]" "[]" "cache_more es @ [CHR ''}'', LF]" g0] assms(1,2) Cons act by auto
  then have "cache_load_loop ([], ''{'' @ cache_json_loop True g @ ''}'' @ [LF]) (g0, 0) =
      cache_load_loop (l', cache_tail e @ cache_more es @ [CHR ''}'', LF]) (g0[0 := e], 1)"
    using Cons by (subst cache_load_loop.simps) (simp add: cache_json_loop_first)
  also have "\<dots> = fold (\<lambda>e (g, k). (g[k := e], k + 1)) es (g0[0 := e], 1)"
    using assms(1,2) Cons act by (intro cache_load_more strstr_at_tail) (auto simp: list_all_iff)
  also have "\<dots> = fold (\<lambda>e (g, k). (g[k := e], k + 1)) (e # es) (g0, 0)" by simp
  also have "\<dots> = (filter ce_active g @ drop (length (filter ce_active g)) g0, length (filter ce_active g))"
    using fold_fill[of 0 "e # es" g0] assms(2,3) Cons by simp
  finally show ?thesis .
qed

lemma length_cache_entry_json: "cache_saveable e \<Longrightarrow> length (cache_entry_json e) \<le> 198"
proof -
  assume e: "cache_saveable e"
  have "length (dec_int (ce_updated_at e)) \<le> 20"
    using e length_dec_nat[of "nat (ce_updated_at e)" 19] length_dec_nat[of "nat (- ce_updated_at e)" 19]
    by (auto simp: dec_int_def cache_saveable_def nat_less_iff)
  with e show ?thesis
    by (simp add: cache_entry_json_eq[OF e] cache_saveable_def cache_entry_ok_def cache_tail_def mk_h_def mk_s_def mk_t_def)
qed

lemma length_cache_more: "list_all cache_saveable es \<Longrightarrow> length (cache_more es) \<le> 199 * length es"
  by (induction es) (fastforce dest!: length_cache_entry_json)+

lemma length_cache_json:
  assumes "list_all cache_saveable (filter ce_active (g_cache st))" and "length (g_cache st) = HNC_CACHE_MAX_ENTRIES"
  shows "length (cache_json st) \<le> 256 * 1024"
proof -
  have "length (filter ce_active (g_cache st)) \<le> 1024"
    using assms(2) by (metis HNC_CACHE_MAX_ENTRIES_def length_filter_le)
  moreover have "length (cache_json_loop True (g_cache st)) \<le> 199 * length (filter ce_active (g_cache st))"
    using assms(1) length_cache_entry_json length_cache_more
    by (cases "filter ce_active (g_cache st)") (fastforce simp: cache_json_loop_first)+
  ultimately show ?thesis by (simp add: cache_json_def)
qed

lemma nulfree_json_escs: "nulfree s \<Longrightarrow> nulfree (json_escs s)"
  by (induction s) (auto simp: json_esc_def hex4_def hexdigit_facts)

lemma nulfree_cache_entry_json: "cache_saveable e \<Longrightarrow> nulfree (cache_entry_json e)"
proof -
  assume e: "cache_saveable e"
  have "nulfree (dec_int (ce_updated_at e))"
    using dec_int_notin[of NUL "ce_updated_at e"] by (simp add: nulfree_def c_isdigit_def)
  with e nulfree_json_escs show ?thesis
    by (simp add: cache_entry_json_eq[OF e] cache_saveable_def cache_entry_ok_def cache_tail_def mk_h_def mk_s_def mk_t_def)
qed

lemma nulfree_cache_json: "list_all cache_saveable (filter ce_active (g_cache st)) \<Longrightarrow> nulfree (cache_json st)"
proof -
  assume ok: "list_all cache_saveable (filter ce_active (g_cache st))"
  have "list_all cache_saveable es \<Longrightarrow> nulfree (cache_more es)" for es
    by (induction es) (auto simp: nulfree_cache_entry_json)
  with ok show ?thesis
    by (cases "filter ce_active (g_cache st)") (auto simp: cache_json_def cache_json_loop_first nulfree_cache_entry_json)
qed

lemma ce_zero_inactive [simp]: "\<not> ce_active ce_zero"
  by (simp add: ce_zero_def)

lemma find_filter_hit: "find (cache_hit m) (filter ce_active g @ replicate n ce_zero) = find (cache_hit m) g"
proof -
  have "find (cache_hit m) (replicate n ce_zero) = None" for n
    by (induction n) (auto simp: cache_hit_def ce_zero_def)
  then show ?thesis by (induction g) (auto simp: cache_hit_def)
qed

section \<open>Properties of the file\<close>

text \<open>
  C16: Saving the cache and loading the file into a fresh cache loses nothing, for a cache of \<open>cache_saveable\<close> entries, those that the file format can carry: the address has
  the 17 characters that the loader asks for and does not start with a colon, address and source contain no quotation mark, name and source are not empty, and the name, once
  escaped, is shorter than 127 bytes, since the save escapes into a buffer of 128 (a longer one is cut there and does not come back whole).  Then the
  save, when its file operations succeed, clears the dirty flag, the file is never too large for the loader, the
  loader finds as many entries as the cache had, and every lookup answers as before.
\<close>

theorem cache_save_load:
  assumes "length (g_cache st) = 1024" and "list_all cache_saveable (filter ce_active (g_cache st))"
    and "g_cache_path st \<noteq> []" and "path \<noteq> []"
  shows "\<exists>file st'. hnc_cache_save st True True True = (st\<lparr>g_cache_dirty := False\<rparr>, 0, Some file) \<and>
     hnc_cache_load (hnc_cache_init (Some path)) (Some file) = (st', hnc_cache_count st) \<and>
     hnc_cache_count st' = hnc_cache_count st \<and> \<not> hnc_cache_is_dirty st' \<and>
     (\<forall>mac hn_len src_len. hnc_cache_lookup st' mac hn_len src_len = hnc_cache_lookup st mac hn_len src_len)"
proof -
  let ?f = "filter ce_active (g_cache st)" and ?i = "hnc_cache_init (Some path)"
  let ?g = "?f @ drop (length ?f) (g_cache ?i)"
  have len: "length (g_cache st) = HNC_CACHE_MAX_ENTRIES" using assms(1) by (simp add: HNC_CACHE_MAX_ENTRIES_def)
  have f: "length ?f \<le> HNC_CACHE_MAX_ENTRIES" using len by (metis length_filter_le)
  have g0: "g_cache ?i = replicate HNC_CACHE_MAX_ENTRIES ce_zero" by (simp add: hnc_cache_init_def)
  have "cache_load_loop ([], cache_json st) (g_cache ?i, 0) = (?g, length ?f)"
    unfolding cache_json_def using assms(2) f g0 by (intro cache_load_json) auto
  moreover have "g_cache_path ?i \<noteq> []" using assms(4) by (cases path) (auto simp: hnc_cache_init_def cbuf_def)
  moreover have "cache_json st \<noteq> []" by (simp add: cache_json_def)
  ultimately have load: "hnc_cache_load ?i (Some (cache_json st)) = (?i\<lparr>g_cache := ?g, g_cache_dirty := False\<rparr>, length ?f)"
    using length_cache_json[OF assms(2) len] nulfree_cache_json[OF assms(2)] by (simp add: hnc_cache_load_def)
  have "?g = ?f @ replicate (HNC_CACHE_MAX_ENTRIES - length ?f) ce_zero" by (simp add: g0)
  then have "find (cache_hit m) ?g = find (cache_hit m) (g_cache st)" "filter ce_active ?g = ?f" for m
    by (simp_all add: find_filter_hit filter_replicate)
  with load assms(3) show ?thesis
    by (intro exI[of _ "cache_json st"] exI[of _ "?i\<lparr>g_cache := ?g, g_cache_dirty := False\<rparr>"])
       (simp add: hnc_cache_save_def hnc_cache_count_def hnc_cache_lookup_def hnc_cache_is_dirty_def)
qed

theorem cache_save_load_witness:
  "\<exists>file st'. hnc_cache_save ((fst (hnc_cache_update (hnc_cache_init (Some ''/c'')) 7 ''aa:bb:cc:dd:ee:ff'' [CHR ''a'', LF, DQ] ''dhcp''))) True True True =
       ((fst (hnc_cache_update (hnc_cache_init (Some ''/c'')) 7 ''aa:bb:cc:dd:ee:ff'' [CHR ''a'', LF, DQ] ''dhcp''))\<lparr>g_cache_dirty := False\<rparr>, 0, Some file) \<and>
     hnc_cache_lookup (fst (hnc_cache_load (hnc_cache_init (Some ''/c'')) (Some file))) ''aa:bb:cc:dd:ee:ff'' 64 12 =
       hnc_cache_lookup (fst (hnc_cache_update (hnc_cache_init (Some ''/c'')) 7 ''aa:bb:cc:dd:ee:ff'' [CHR ''a'', LF, DQ] ''dhcp'')) ''aa:bb:cc:dd:ee:ff'' 64 12"
proof -
  let ?e = "cache_fill ''aa:bb:cc:dd:ee:ff'' [CHR ''a'', LF, DQ] ''dhcp'' 7"
  let ?st = "fst (hnc_cache_update (hnc_cache_init (Some ''/c'')) 7 ''aa:bb:cc:dd:ee:ff'' [CHR ''a'', LF, DQ] ''dhcp'')"
  have rep: "replicate 1024 ce_zero = ce_zero # replicate 1023 ce_zero"
  proof -
    have "(1024 :: nat) = Suc 1023" by simp
    then show ?thesis by (simp only: replicate_Suc)
  qed
  have none: "find_index (cache_hit m) (replicate n ce_zero) = None" for m n
    by (auto simp: find_index_None cache_hit_def ce_zero_def)
  have st: "?st = \<lparr>g_cache = ?e # replicate 1023 ce_zero, g_cache_dirty = True, g_cache_path = ''/c''\<rparr>"
    by (simp add: hnc_cache_update_def hnc_cache_init_def HNC_CACHE_MAX_ENTRIES_def none)
       (simp add: rep)
  have "cache_saveable ?e" by (simp add: cache_saveable_def cache_entry_ok_def cache_fill_def json_esc_def cbuf_def)
  then have sv: "list_all cache_saveable (filter ce_active (g_cache ?st))"
    by (simp add: st filter_replicate)
  have l: "length (g_cache ?st) = 1024" "g_cache_path ?st \<noteq> []" by (simp_all add: st)
  from cache_save_load[OF l(1) sv l(2), of "''/c''"] show ?thesis by force
qed

end
