(* ===== verification/MdnsWorker.thy ===== *)
theory MdnsWorker
  imports HNC_Prelude
begin

text \<open>
  The asynchronous mDNS worker, \<^verbatim>\<open>daemon/hotspotd/mdns_worker.c\<close>: a ring of tasks filled by the main
  thread and emptied by the worker, and a ring of results in the other direction.  Every
  critical section of the code is one operation here, so an interleaving of the two threads
  is a sequence of steps; \<open>worker_step\<close> is the step relation.  The injected resolver is a
  function from IP and MAC to an optional host name.
\<close>

definition HNC_MDNS_QUEUE_SIZE :: nat where "HNC_MDNS_QUEUE_SIZE = 16"
definition HNC_MDNS_MAC_LEN :: nat where "HNC_MDNS_MAC_LEN = 18"
definition HNC_MDNS_IP_LEN :: nat where "HNC_MDNS_IP_LEN = 40"
definition HNC_MDNS_HOSTNAME_LEN :: nat where "HNC_MDNS_HOSTNAME_LEN = 64"
definition HNC_MDNS_SRC_LEN :: nat where "HNC_MDNS_SRC_LEN = 16"

record hnc_mdns_task_t =
  mt_mac :: string
  mt_ip :: string

record hnc_mdns_result_t =
  mr_mac :: string
  mr_hostname :: string
  mr_hostname_src :: string
  mr_success :: bool

type_synonym hnc_mdns_resolve_fn = "string \<Rightarrow> string \<Rightarrow> string option"

record worker_state =
  g_task_q :: "hnc_mdns_task_t list"
  g_task_head :: nat
  g_task_tail :: nat
  g_task_count :: nat
  g_res_q :: "hnc_mdns_result_t list"
  g_res_head :: nat
  g_res_tail :: nat
  g_res_count :: nat
  g_stop :: bool
  g_started :: bool
  g_resolve_fn :: "hnc_mdns_resolve_fn option"

section \<open>Operations\<close>

definition mt_zero :: hnc_mdns_task_t where "mt_zero = \<lparr>mt_mac = [], mt_ip = []\<rparr>"
definition mr_zero :: hnc_mdns_result_t where "mr_zero = \<lparr>mr_mac = [], mr_hostname = [], mr_hostname_src = [], mr_success = False\<rparr>"

definition worker_init :: worker_state where
  "worker_init = \<lparr>g_task_q = replicate HNC_MDNS_QUEUE_SIZE mt_zero, g_task_head = 0, g_task_tail = 0, g_task_count = 0,
     g_res_q = replicate HNC_MDNS_QUEUE_SIZE mr_zero, g_res_head = 0, g_res_tail = 0, g_res_count = 0,
     g_stop = False, g_started = False, g_resolve_fn = None\<rparr>"

definition hnc_mdns_worker_set_resolve_fn :: "hnc_mdns_resolve_fn option \<Rightarrow> worker_state \<Rightarrow> worker_state" where
  "hnc_mdns_worker_set_resolve_fn fn st = st\<lparr>g_resolve_fn := fn\<rparr>"

definition worker_push_result :: "string \<Rightarrow> string \<Rightarrow> string \<Rightarrow> bool \<Rightarrow> worker_state \<Rightarrow> worker_state" where
  "worker_push_result mac hostname src success st =
     (if g_res_count st \<ge> HNC_MDNS_QUEUE_SIZE then st
      else st\<lparr>g_res_q := (g_res_q st)[g_res_tail st :=
                 \<lparr>mr_mac = cbuf HNC_MDNS_MAC_LEN mac, mr_hostname = cbuf HNC_MDNS_HOSTNAME_LEN hostname,
                  mr_hostname_src = cbuf HNC_MDNS_SRC_LEN src, mr_success = success\<rparr>],
              g_res_tail := (g_res_tail st + 1) mod HNC_MDNS_QUEUE_SIZE,
              g_res_count := g_res_count st + 1\<rparr>)"

text \<open>
  The first critical section of the worker's loop: it waits (the condition variable), leaves,
  or takes a task.
\<close>

datatype take_outcome = Take_wait | Take_stop | Take_task hnc_mdns_task_t

definition worker_take :: "worker_state \<Rightarrow> take_outcome \<times> worker_state" where
  "worker_take st =
     (if g_task_count st = 0 \<and> \<not> g_stop st then (Take_wait, st)
      else if g_stop st then (Take_stop, st\<lparr>g_task_head := 0, g_task_tail := 0, g_task_count := 0\<rparr>)
      else (Take_task (g_task_q st ! g_task_head st),
            st\<lparr>g_task_head := (g_task_head st + 1) mod HNC_MDNS_QUEUE_SIZE, g_task_count := g_task_count st - 1\<rparr>))"

text \<open>The rest of the loop body: resolve without a lock, then push the result.\<close>

definition worker_process :: "hnc_mdns_task_t \<Rightarrow> worker_state \<Rightarrow> worker_state" where
  "worker_process task st =
     (let res = (case g_resolve_fn st of None \<Rightarrow> None | Some fn \<Rightarrow> fn (mt_ip task) (mt_mac task))
      in case res of
           Some hostname \<Rightarrow> worker_push_result (mt_mac task) hostname ''mdns'' True st
         | None \<Rightarrow> worker_push_result (mt_mac task) [] ''mac'' False st)"

text \<open>\<open>rc\<close> is the result of \<^verbatim>\<open>pthread_create\<close>.\<close>

definition hnc_mdns_worker_start :: "int \<Rightarrow> worker_state \<Rightarrow> int \<times> worker_state" where
  "hnc_mdns_worker_start rc st =
     (if g_started st then (0, st)
      else let st1 = st\<lparr>g_stop := False, g_task_head := 0, g_task_tail := 0, g_task_count := 0,
                        g_res_head := 0, g_res_tail := 0, g_res_count := 0\<rparr>
           in if rc \<noteq> 0 then (rc, st1) else (0, st1\<lparr>g_started := True\<rparr>))"

definition hnc_mdns_worker_stop :: "worker_state \<Rightarrow> worker_state" where
  "hnc_mdns_worker_stop st = (if \<not> g_started st then st else st\<lparr>g_started := False, g_stop := True\<rparr>)"

definition hnc_mdns_worker_enqueue :: "string \<Rightarrow> string \<Rightarrow> worker_state \<Rightarrow> bool \<times> worker_state" where
  "hnc_mdns_worker_enqueue mac ip st =
     (if \<not> g_started st then (False, st)
      else if g_task_count st \<ge> HNC_MDNS_QUEUE_SIZE then (False, st)
      else (True, st\<lparr>g_task_q := (g_task_q st)[g_task_tail st :=
                        \<lparr>mt_mac = cbuf HNC_MDNS_MAC_LEN mac, mt_ip = cbuf HNC_MDNS_IP_LEN ip\<rparr>],
                     g_task_tail := (g_task_tail st + 1) mod HNC_MDNS_QUEUE_SIZE,
                     g_task_count := g_task_count st + 1\<rparr>))"

fun drain_loop :: "nat \<Rightarrow> worker_state \<Rightarrow> hnc_mdns_result_t list \<times> worker_state" where
  "drain_loop 0 st = ([], st)"
| "drain_loop (Suc room) st =
     (if \<not> g_res_count st > 0 then ([], st)
      else case drain_loop room (st\<lparr>g_res_head := (g_res_head st + 1) mod HNC_MDNS_QUEUE_SIZE, g_res_count := g_res_count st - 1\<rparr>)
           of (out, st') \<Rightarrow> (g_res_q st ! g_res_head st # out, st'))"

definition hnc_mdns_worker_drain_results :: "int \<Rightarrow> worker_state \<Rightarrow> hnc_mdns_result_t list \<times> worker_state" where
  "hnc_mdns_worker_drain_results out_max st = (if out_max \<le> 0 then ([], st) else drain_loop (nat out_max) st)"

definition hnc_mdns_worker_task_count :: "worker_state \<Rightarrow> nat" where
  "hnc_mdns_worker_task_count st = g_task_count st"

definition hnc_mdns_worker_result_count :: "worker_state \<Rightarrow> nat" where
  "hnc_mdns_worker_result_count st = g_res_count st"

section \<open>Ring arithmetic\<close>

text \<open>The contents of a ring of \<open>N\<close> slots, oldest first, and its consistency.\<close>

definition ring_list :: "'a list \<Rightarrow> nat \<Rightarrow> nat \<Rightarrow> 'a list" where
  "ring_list q h n = map (\<lambda>i. q ! ((h + i) mod length q)) [0..<n]"

definition ring_ok :: "'a list \<Rightarrow> nat \<Rightarrow> nat \<Rightarrow> nat \<Rightarrow> bool" where
  "ring_ok q h t n \<longleftrightarrow> length q = HNC_MDNS_QUEUE_SIZE \<and> h < HNC_MDNS_QUEUE_SIZE \<and> n \<le> HNC_MDNS_QUEUE_SIZE \<and>
     t = (h + n) mod HNC_MDNS_QUEUE_SIZE"

lemma length_ring_list [simp]: "length (ring_list q h n) = n"
  by (simp add: ring_list_def)

lemma ring_push:
  assumes "ring_ok q h t n" and "n < HNC_MDNS_QUEUE_SIZE"
  shows "ring_ok (q[t := e]) h ((t + 1) mod HNC_MDNS_QUEUE_SIZE) (n + 1)" and "ring_list (q[t := e]) h (n + 1) = ring_list q h n @ [e]"
proof -
  let ?N = HNC_MDNS_QUEUE_SIZE
  have N: "length q = ?N" "t = (h + n) mod ?N" "h < ?N" using assms by (auto simp: ring_ok_def)
  show "ring_ok (q[t := e]) h ((t + 1) mod ?N) (n + 1)"
    using assms by (auto simp: ring_ok_def mod_Suc_eq)
  have "(h + i) mod ?N \<noteq> t" if "i < n" for i
  proof
    assume "(h + i) mod ?N = t"
    then have "(h + n) mod ?N = (h + i) mod ?N" using N by simp
    then have "?N dvd (h + n) - (h + i)" using that by (simp add: mod_eq_dvd_iff_nat)
    with that assms(2) show False by (auto dest!: dvd_imp_le)
  qed
  then have "q[t := e] ! ((h + i) mod ?N) = q ! ((h + i) mod ?N)" if "i < n" for i
    using that by (metis nth_list_update_neq)
  moreover have "t < ?N" using N assms(2) by simp
  ultimately show "ring_list (q[t := e]) h (n + 1) = ring_list q h n @ [e]" using N by (simp add: ring_list_def)
qed

lemma ring_pop:
  assumes "ring_ok q h t n" and "0 < n"
  shows "ring_ok q ((h + 1) mod HNC_MDNS_QUEUE_SIZE) t (n - 1)"
    and "ring_list q h n = q ! h # ring_list q ((h + 1) mod HNC_MDNS_QUEUE_SIZE) (n - 1)"
proof -
  let ?N = HNC_MDNS_QUEUE_SIZE
  have N: "length q = ?N" "h < ?N" using assms by (auto simp: ring_ok_def)
  have "(h + 1) + (n - 1) = h + n" using assms(2) by simp
  then have "((h + 1) mod ?N + (n - 1)) mod ?N = (h + n) mod ?N" by (metis mod_add_left_eq)
  with assms N show "ring_ok q ((h + 1) mod ?N) t (n - 1)" by (auto simp: ring_ok_def)
  have "[0..<n] = 0 # map Suc [0..<n - 1]" using assms(2) by (simp add: map_Suc_upt upt_conv_Cons)
  then show "ring_list q h n = q ! h # ring_list q ((h + 1) mod ?N) (n - 1)"
    using N by (simp add: ring_list_def mod_add_left_eq comp_def)
qed

definition worker_ok :: "worker_state \<Rightarrow> bool" where
  "worker_ok st \<longleftrightarrow> ring_ok (g_task_q st) (g_task_head st) (g_task_tail st) (g_task_count st) \<and>
     ring_ok (g_res_q st) (g_res_head st) (g_res_tail st) (g_res_count st)"

definition tasks :: "worker_state \<Rightarrow> hnc_mdns_task_t list" where
  "tasks st = ring_list (g_task_q st) (g_task_head st) (g_task_count st)"

definition results :: "worker_state \<Rightarrow> hnc_mdns_result_t list" where
  "results st = ring_list (g_res_q st) (g_res_head st) (g_res_count st)"

lemma length_tasks_results [simp]: "length (tasks st) = g_task_count st" "length (results st) = g_res_count st"
  by (simp_all add: tasks_def results_def)

section \<open>Both rings are bounded first-in first-out queues\<close>

fun iterate_get :: "('s \<Rightarrow> ('e \<times> 's) option) \<Rightarrow> nat \<Rightarrow> 's \<Rightarrow> 'e list \<times> 's" where
  "iterate_get get 0 s = ([], s)"
| "iterate_get get (Suc n) s =
     (case get s of None \<Rightarrow> ([], s) | Some (e, s') \<Rightarrow> (case iterate_get get n s' of (es, s'') \<Rightarrow> (e # es, s'')))"

fun iterate_put :: "('e \<Rightarrow> 's \<Rightarrow> bool \<times> 's) \<Rightarrow> 'e list \<Rightarrow> 's \<Rightarrow> 's" where
  "iterate_put put [] s = s"
| "iterate_put put (e # es) s = iterate_put put es (snd (put e s))"

text \<open>
  The contract: \<open>put\<close> appends the stored form of the element unless the queue is full, and says
  so; \<open>get\<close> takes the oldest element.
\<close>

locale bounded_fifo =
  fixes put :: "'e \<Rightarrow> 's \<Rightarrow> bool \<times> 's" and get :: "'s \<Rightarrow> ('e \<times> 's) option"
    and stored :: "'e \<Rightarrow> 'e" and items :: "'s \<Rightarrow> 'e list" and ok :: "'s \<Rightarrow> bool" and cap :: nat
  assumes put_law: "ok s \<Longrightarrow> put e s = (acc, s') \<Longrightarrow>
      ok s' \<and> acc = (length (items s) < cap) \<and> items s' = (if acc then items s @ [stored e] else items s)"
    and get_law: "ok s \<Longrightarrow> get s = (case items s of [] \<Rightarrow> None | e # es \<Rightarrow> Some (e, snd (the (get s)))) \<and>
      (items s \<noteq> [] \<longrightarrow> ok (snd (the (get s))) \<and> items (snd (the (get s))) = tl (items s))"
begin

lemma get_None: "ok s \<Longrightarrow> items s = [] \<Longrightarrow> get s = None"
  using get_law[of s] by simp

lemma get_Some:
  assumes "ok s" and "items s = e # es"
  obtains s' where "get s = Some (e, s')" and "ok s'" and "items s' = es"
  using get_law[OF assms(1)] assms(2) by auto

lemma iterate_get_take:
  "ok s \<Longrightarrow> fst (iterate_get get n s) = take n (items s) \<and> ok (snd (iterate_get get n s)) \<and>
     items (snd (iterate_get get n s)) = drop n (items s)"
proof (induction n arbitrary: s)
  case (Suc n)
  show ?case
  proof (cases "items s")
    case Nil
    then show ?thesis using get_None[OF Suc.prems] Suc.prems by simp
  next
    case (Cons e es)
    from get_Some[OF Suc.prems Cons] obtain s' where s': "get s = Some (e, s')" "ok s'" "items s' = es" .
    with Suc.IH[OF s'(2)] Cons show ?thesis by (auto split: prod.splits)
  qed
qed simp

lemma iterate_put_append:
  "ok s \<Longrightarrow> length (items s) + length es \<le> cap \<Longrightarrow>
   ok (iterate_put put es s) \<and> items (iterate_put put es s) = items s @ map stored es"
proof (induction es arbitrary: s)
  case (Cons e es)
  obtain acc s' where p: "put e s = (acc, s')" by fastforce
  from put_law[OF Cons.prems(1) p] Cons.prems(2) have "ok s'" "items s' = items s @ [stored e]" by auto
  with Cons p show ?case by simp
qed simp

lemma fifo:
  assumes "ok s" and "items s = []" and "length es \<le> cap"
  shows "fst (iterate_get get (length es) (iterate_put put es s)) = map stored es"
  using iterate_put_append[OF assms(1), of es] iterate_get_take[of "iterate_put put es s" "length es"] assms by simp

end

definition task_put :: "hnc_mdns_task_t \<Rightarrow> worker_state \<Rightarrow> bool \<times> worker_state" where
  "task_put t = hnc_mdns_worker_enqueue (mt_mac t) (mt_ip t)"

definition task_get :: "worker_state \<Rightarrow> (hnc_mdns_task_t \<times> worker_state) option" where
  "task_get st = (case worker_take st of (Take_task t, st') \<Rightarrow> Some (t, st') | _ \<Rightarrow> None)"

definition task_stored :: "hnc_mdns_task_t \<Rightarrow> hnc_mdns_task_t" where
  "task_stored t = \<lparr>mt_mac = cbuf HNC_MDNS_MAC_LEN (mt_mac t), mt_ip = cbuf HNC_MDNS_IP_LEN (mt_ip t)\<rparr>"

definition res_put :: "hnc_mdns_result_t \<Rightarrow> worker_state \<Rightarrow> bool \<times> worker_state" where
  "res_put r st = (g_res_count st < HNC_MDNS_QUEUE_SIZE,
     worker_push_result (mr_mac r) (mr_hostname r) (mr_hostname_src r) (mr_success r) st)"

definition res_get :: "worker_state \<Rightarrow> (hnc_mdns_result_t \<times> worker_state) option" where
  "res_get st = (case drain_loop 1 st of ([r], st') \<Rightarrow> Some (r, st') | _ \<Rightarrow> None)"

definition res_stored :: "hnc_mdns_result_t \<Rightarrow> hnc_mdns_result_t" where
  "res_stored r = \<lparr>mr_mac = cbuf HNC_MDNS_MAC_LEN (mr_mac r), mr_hostname = cbuf HNC_MDNS_HOSTNAME_LEN (mr_hostname r),
     mr_hostname_src = cbuf HNC_MDNS_SRC_LEN (mr_hostname_src r), mr_success = mr_success r\<rparr>"

definition running :: "worker_state \<Rightarrow> bool" where
  "running st \<longleftrightarrow> worker_ok st \<and> g_started st \<and> \<not> g_stop st"

lemma enqueue_cases:
  assumes "worker_ok st" and "hnc_mdns_worker_enqueue mac ip st = (acc, st')"
  shows "worker_ok st' \<and> acc = (g_started st \<and> length (tasks st) < HNC_MDNS_QUEUE_SIZE) \<and>
    tasks st' = (if acc then tasks st @ [task_stored \<lparr>mt_mac = mac, mt_ip = ip\<rparr>] else tasks st) \<and>
    results st' = results st \<and> g_started st' = g_started st \<and> g_stop st' = g_stop st \<and> g_resolve_fn st' = g_resolve_fn st"
  using assms ring_push[of "g_task_q st" "g_task_head st" "g_task_tail st" "g_task_count st"]
  by (auto simp: hnc_mdns_worker_enqueue_def worker_ok_def tasks_def results_def task_stored_def split: if_splits)

lemma push_result_cases:
  assumes "worker_ok st"
  shows "worker_ok (worker_push_result m h s b st) \<and> tasks (worker_push_result m h s b st) = tasks st \<and>
    results (worker_push_result m h s b st) =
      (if length (results st) < HNC_MDNS_QUEUE_SIZE
       then results st @ [res_stored \<lparr>mr_mac = m, mr_hostname = h, mr_hostname_src = s, mr_success = b\<rparr>] else results st) \<and>
    g_started (worker_push_result m h s b st) = g_started st \<and> g_stop (worker_push_result m h s b st) = g_stop st"
  using assms ring_push[of "g_res_q st" "g_res_head st" "g_res_tail st" "g_res_count st"]
  by (auto simp: worker_push_result_def worker_ok_def tasks_def results_def res_stored_def)

lemma take_task_cases:
  assumes "worker_ok st" and "worker_take st = (Take_task t, st')"
  shows "worker_ok st' \<and> tasks st = t # tasks st' \<and> results st' = results st \<and> g_started st' = g_started st \<and>
    g_stop st' = g_stop st \<and> \<not> g_stop st \<and> g_resolve_fn st' = g_resolve_fn st"
  using assms ring_pop[of "g_task_q st" "g_task_head st" "g_task_tail st" "g_task_count st"]
  by (auto simp: worker_take_def worker_ok_def tasks_def results_def split: if_splits)

lemma drain_one:
  assumes "worker_ok st" and "0 < g_res_count st"
  defines "st' \<equiv> st\<lparr>g_res_head := (g_res_head st + 1) mod HNC_MDNS_QUEUE_SIZE, g_res_count := g_res_count st - 1\<rparr>"
  shows "worker_ok st' \<and> results st = g_res_q st ! g_res_head st # results st' \<and> tasks st' = tasks st"
  using assms ring_pop[of "g_res_q st" "g_res_head st" "g_res_tail st" "g_res_count st"]
  by (auto simp: worker_ok_def tasks_def results_def)

interpretation taskq: bounded_fifo task_put task_get task_stored tasks running HNC_MDNS_QUEUE_SIZE
proof
  show "running s' \<and> acc = (length (tasks s) < HNC_MDNS_QUEUE_SIZE) \<and> tasks s' = (if acc then tasks s @ [task_stored e] else tasks s)"
    if "running s" "task_put e s = (acc, s')" for s e acc s'
    using that enqueue_cases[of s "mt_mac e" "mt_ip e" acc s'] by (auto simp: running_def task_put_def task_stored_def)
next
  fix s assume r: "running s"
  show "task_get s = (case tasks s of [] \<Rightarrow> None | e # es \<Rightarrow> Some (e, snd (the (task_get s)))) \<and>
    (tasks s \<noteq> [] \<longrightarrow> running (snd (the (task_get s))) \<and> tasks (snd (the (task_get s))) = tl (tasks s))"
  proof (cases "tasks s")
    case Nil
    then have "g_task_count s = 0" using length_tasks_results(1)[of s] by simp
    then show ?thesis using r Nil by (simp add: task_get_def worker_take_def running_def)
  next
    case (Cons e es)
    then have "g_task_count s \<noteq> 0" using length_tasks_results(1)[of s] by auto
    then obtain t s' where t: "worker_take s = (Take_task t, s')" using r by (auto simp: worker_take_def running_def)
    with take_task_cases[OF _ t] r Cons show ?thesis by (auto simp: task_get_def running_def)
  qed
qed

interpretation resq: bounded_fifo res_put res_get res_stored results worker_ok HNC_MDNS_QUEUE_SIZE
proof
  show "worker_ok s' \<and> acc = (length (results s) < HNC_MDNS_QUEUE_SIZE) \<and> results s' = (if acc then results s @ [res_stored e] else results s)"
    if "worker_ok s" "res_put e s = (acc, s')" for s e acc s'
    using that push_result_cases[OF that(1), of "mr_mac e" "mr_hostname e" "mr_hostname_src e" "mr_success e"] by (auto simp: res_put_def res_stored_def)
next
  fix s assume r: "worker_ok s"
  show "res_get s = (case results s of [] \<Rightarrow> None | e # es \<Rightarrow> Some (e, snd (the (res_get s)))) \<and>
    (results s \<noteq> [] \<longrightarrow> worker_ok (snd (the (res_get s))) \<and> results (snd (the (res_get s))) = tl (results s))"
  proof (cases "results s")
    case Nil
    then have "g_res_count s = 0" using length_tasks_results(2)[of s] by simp
    then show ?thesis using Nil by (simp add: res_get_def)
  next
    case (Cons e es)
    then have "0 < g_res_count s" using length_tasks_results(2)[of s] by auto
    with drain_one[OF r this] Cons show ?thesis by (simp add: res_get_def)
  qed
qed

section \<open>Interleavings of the two threads\<close>

text \<open>
  The worker is between two iterations, works on a task (it holds no lock), or has left.
  The last four fields record history: the addresses accepted by the queue, the results
  handed to the main thread, the addresses whose result found the result ring full, and
  those dropped by the stop.
\<close>

datatype worker_pc = Idle | Working hnc_mdns_task_t | Exited

record worker_sys =
  sys_st :: worker_state
  sys_pc :: worker_pc
  accepted :: "string list"
  delivered :: "hnc_mdns_result_t list"
  lost :: "string list"
  discarded :: "string list"

inductive worker_step :: "worker_sys \<Rightarrow> worker_sys \<Rightarrow> bool" where
  main_enqueue: "hnc_mdns_worker_enqueue mac ip (sys_st s) = (acc, st') \<Longrightarrow>
     worker_step s (s\<lparr>sys_st := st', accepted := accepted s @ (if acc then [cbuf HNC_MDNS_MAC_LEN mac] else [])\<rparr>)"
| main_drain: "hnc_mdns_worker_drain_results out_max (sys_st s) = (out, st') \<Longrightarrow>
     worker_step s (s\<lparr>sys_st := st', delivered := delivered s @ out\<rparr>)"
| main_stop: "worker_step s (s\<lparr>sys_st := hnc_mdns_worker_stop (sys_st s)\<rparr>)"
| worker_takes: "sys_pc s = Idle \<Longrightarrow> worker_take (sys_st s) = (Take_task t, st') \<Longrightarrow>
     worker_step s (s\<lparr>sys_st := st', sys_pc := Working t\<rparr>)"
| worker_leaves: "sys_pc s = Idle \<Longrightarrow> worker_take (sys_st s) = (Take_stop, st') \<Longrightarrow>
     worker_step s (s\<lparr>sys_st := st', sys_pc := Exited, discarded := map mt_mac (tasks (sys_st s))\<rparr>)"
| worker_finishes: "sys_pc s = Working t \<Longrightarrow>
     worker_step s (s\<lparr>sys_st := worker_process t (sys_st s), sys_pc := Idle,
        lost := lost s @ (if g_res_count (sys_st s) \<ge> HNC_MDNS_QUEUE_SIZE then [mt_mac t] else [])\<rparr>)"

inductive_cases worker_step_cases: "worker_step s s'"

definition worker_sys_init :: "hnc_mdns_resolve_fn option \<Rightarrow> worker_sys" where
  "worker_sys_init fn = \<lparr>sys_st = snd (hnc_mdns_worker_start 0 (hnc_mdns_worker_set_resolve_fn fn worker_init)), sys_pc = Idle,
     accepted = [], delivered = [], lost = [], discarded = []\<rparr>"

text \<open>The address the worker holds.\<close>

definition in_flight :: "worker_sys \<Rightarrow> string list" where
  "in_flight s = (case sys_pc s of Working t \<Rightarrow> [mt_mac t] | _ \<Rightarrow> [])"

text \<open>
  Conservation: every accepted address is, in the order of acceptance, answered (delivered
  or in the result ring) or lost, in flight, or still queued (or discarded by the stop).
\<close>

definition worker_sys_ok :: "worker_sys \<Rightarrow> bool" where
  "worker_sys_ok s \<longleftrightarrow> worker_ok (sys_st s) \<and> list_all (\<lambda>t. length (mt_mac t) < HNC_MDNS_MAC_LEN) (tasks (sys_st s)) \<and>
     list_all (\<lambda>m. length m < HNC_MDNS_MAC_LEN) (in_flight s) \<and>
     (sys_pc s = Exited \<longrightarrow> tasks (sys_st s) = [] \<and> \<not> g_started (sys_st s)) \<and> (g_stop (sys_st s) \<longrightarrow> \<not> g_started (sys_st s)) \<and>
     (sys_pc s \<noteq> Exited \<longrightarrow> discarded s = []) \<and>
     (\<exists>A. accepted s = A @ in_flight s @ map mt_mac (tasks (sys_st s)) @ discarded s \<and>
          A \<in> shuffles (lost s) (map mr_mac (delivered s @ results (sys_st s))))"

lemma snoc_in_shuffles: "ys @ [x] \<in> shuffles [x] ys" "ys @ [x] \<in> shuffles ys [x]"
proof -
  show a: "ys @ [x] \<in> shuffles [x] ys" by (induction ys) auto
  then show "ys @ [x] \<in> shuffles ys [x]" by (simp add: shuffles_commutes)
qed

lemma shuffles_snoc:
  "xs \<in> shuffles a b \<Longrightarrow> xs @ [x] \<in> shuffles (a @ [x]) b \<and> xs @ [x] \<in> shuffles a (b @ [x])"
proof (induction a b arbitrary: xs rule: shuffles.induct)
  case (3 u us v vs)
  then show ?case by auto
qed (auto simp: snoc_in_shuffles)

lemma drain_loop_results:
  "worker_ok st \<Longrightarrow> drain_loop n st = iterate_get res_get n st"
proof (induction n arbitrary: st)
  case (Suc n)
  show ?case
  proof (cases "0 < g_res_count st")
    case True
    from drain_one[OF Suc.prems True] Suc.IH True show ?thesis by (simp add: res_get_def)
  next
    case False
    then show ?thesis by (simp add: res_get_def)
  qed
qed simp

lemma drain_loop_same:
  "drain_loop n st = (out, st') \<Longrightarrow> tasks st' = tasks st \<and> g_started st' = g_started st \<and> g_stop st' = g_stop st"
proof (induction n arbitrary: st out)
  case (Suc n)
  then show ?case by (fastforce simp: tasks_def split: if_splits prod.splits)
qed simp

lemma drain_cases:
  assumes "worker_ok st" and "hnc_mdns_worker_drain_results n st = (out, st')"
  shows "worker_ok st' \<and> out = take (nat n) (results st) \<and> results st = out @ results st' \<and> tasks st' = tasks st \<and>
    g_started st' = g_started st \<and> g_stop st' = g_stop st"
proof (cases "n \<le> 0")
  case True
  then show ?thesis using assms by (simp add: hnc_mdns_worker_drain_results_def)
next
  case False
  then have d: "drain_loop (nat n) st = (out, st')" using assms(2) by (simp add: hnc_mdns_worker_drain_results_def)
  have "iterate_get res_get (nat n) st = (out, st')" using d drain_loop_results[OF assms(1), of "nat n"] by simp
  with resq.iterate_get_take[OF assms(1), of "nat n"] drain_loop_same[OF d] show ?thesis by auto
qed

lemma process_cases:
  assumes "worker_ok st"
  obtains m where "m = cbuf HNC_MDNS_MAC_LEN (mt_mac t)" and "worker_ok (worker_process t st)" and "tasks (worker_process t st) = tasks st"
    and "map mr_mac (results (worker_process t st)) = map mr_mac (results st) @ (if g_res_count st \<ge> HNC_MDNS_QUEUE_SIZE then [] else [m])"
    and "g_started (worker_process t st) = g_started st" and "g_stop (worker_process t st) = g_stop st"
proof -
  obtain h s b where "worker_process t st = worker_push_result (mt_mac t) h s b st"
    by (cases "case g_resolve_fn st of None \<Rightarrow> None | Some fn \<Rightarrow> fn (mt_ip t) (mt_mac t)") (auto simp: worker_process_def Let_def)
  with push_result_cases[OF assms, of "mt_mac t" h s b] show thesis by (intro that) (auto simp: res_stored_def)
qed

lemma worker_sys_ok_step [inv_intros]:
  assumes "worker_step s s'" and "worker_sys_ok s"
  shows "worker_sys_ok s'"
proof -
  have ok: "worker_ok (sys_st s)" using assms(2) by (simp add: worker_sys_ok_def)
  obtain A where A: "accepted s = A @ in_flight s @ map mt_mac (tasks (sys_st s)) @ discarded s"
    "A \<in> shuffles (lost s) (map mr_mac (delivered s @ results (sys_st s)))"
    using assms(2) by (auto simp: worker_sys_ok_def)
  from assms(1) show ?thesis
  proof cases
    case (main_enqueue mac ip acc st')
    note e = enqueue_cases[OF ok main_enqueue(2)]
    show ?thesis
    proof (cases acc)
      case True
      with e assms(2) have "sys_pc s \<noteq> Exited" "discarded s = []" by (auto simp: worker_sys_ok_def)
      moreover have "in_flight s' = in_flight s" by (simp add: main_enqueue(1) in_flight_def)
      moreover have "length (cbuf HNC_MDNS_MAC_LEN mac) < HNC_MDNS_MAC_LEN" by (rule length_cbuf_less) (simp add: HNC_MDNS_MAC_LEN_def)
      ultimately show ?thesis using True e assms(2) A main_enqueue(1)
        by (simp add: worker_sys_ok_def task_stored_def del: length_cbuf)
    next
      case False
      with e assms(2) main_enqueue(1) show ?thesis by (simp add: worker_sys_ok_def in_flight_def)
    qed
  next
    case (main_drain out_max out st')
    from drain_cases[OF ok main_drain(2)] have d: "worker_ok st'" "results (sys_st s) = out @ results st'"
      "tasks st' = tasks (sys_st s)" "g_started st' = g_started (sys_st s)" "g_stop st' = g_stop (sys_st s)" by blast+
    with main_drain(1) assms(2) show ?thesis by (simp add: worker_sys_ok_def in_flight_def)
  next
    case main_stop
    with assms(2) show ?thesis
      by (auto simp: worker_sys_ok_def in_flight_def hnc_mdns_worker_stop_def worker_ok_def tasks_def results_def)
  next
    case (worker_takes t st')
    with take_task_cases[OF ok worker_takes(3)] assms(2) A show ?thesis
      by (auto simp: worker_sys_ok_def in_flight_def intro!: exI[of _ A])
  next
    case (worker_leaves st')
    then have "worker_ok st'" "tasks st' = []" "results st' = results (sys_st s)" "g_started st' = g_started (sys_st s)" "g_stop (sys_st s)"
      using ok by (auto simp: worker_take_def worker_ok_def ring_ok_def tasks_def results_def ring_list_def HNC_MDNS_QUEUE_SIZE_def split: if_splits)
    with worker_leaves assms(2) A show ?thesis by (auto simp: worker_sys_ok_def in_flight_def intro!: exI[of _ A])
  next
    case (worker_finishes t)
    from process_cases[OF ok, of t] obtain m where m: "m = cbuf HNC_MDNS_MAC_LEN (mt_mac t)" "worker_ok (worker_process t (sys_st s))"
      "tasks (worker_process t (sys_st s)) = tasks (sys_st s)"
      "map mr_mac (results (worker_process t (sys_st s))) = map mr_mac (results (sys_st s)) @ (if g_res_count (sys_st s) \<ge> HNC_MDNS_QUEUE_SIZE then [] else [m])"
      "g_started (worker_process t (sys_st s)) = g_started (sys_st s)" "g_stop (worker_process t (sys_st s)) = g_stop (sys_st s)" .
    have mt: "m = mt_mac t" using worker_finishes(2) assms(2) m(1) by (simp add: worker_sys_ok_def in_flight_def)
    have "A @ [m] \<in> shuffles (lost s @ (if g_res_count (sys_st s) \<ge> HNC_MDNS_QUEUE_SIZE then [m] else []))
        (map mr_mac (delivered s @ results (worker_process t (sys_st s))))"
      using shuffles_snoc[OF A(2), of m] m(4) by (simp split: if_splits)
    with worker_finishes m mt assms(2) A(1) show ?thesis
      by (auto simp: worker_sys_ok_def in_flight_def intro!: exI[of _ "A @ [m]"])
  qed
qed

lemma worker_sys_ok_init: "worker_sys_ok (worker_sys_init fn)"
  by (simp add: worker_sys_ok_def worker_sys_init_def hnc_mdns_worker_start_def hnc_mdns_worker_set_resolve_fn_def worker_init_def
      worker_ok_def ring_ok_def in_flight_def tasks_def results_def ring_list_def HNC_MDNS_QUEUE_SIZE_def)

lemma worker_reachable_ok: "worker_step\<^sup>*\<^sup>* (worker_sys_init fn) s \<Longrightarrow> worker_sys_ok s"
  by (induction rule: rtranclp_induct) (auto intro: worker_sys_ok_init worker_sys_ok_step)

section \<open>Properties\<close>

text \<open>
  C12: Whatever the interleaving of the two threads, no accepted lookup is forgotten or
  reordered: the accepted addresses are, in order, those answered (delivered to the main
  thread or waiting in the result ring) shuffled with those whose answer found the result
  ring full, then the one in flight, then the queued ones, then those that a stop discarded;
  and neither ring holds more than 16 entries.
\<close>

theorem mdns_tasks_conserved:
  assumes "worker_step\<^sup>*\<^sup>* (worker_sys_init fn) s"
  shows "\<exists>A. accepted s = A @ in_flight s @ map mt_mac (tasks (sys_st s)) @ discarded s \<and>
     A \<in> shuffles (lost s) (map mr_mac (delivered s @ results (sys_st s))) \<and>
     hnc_mdns_worker_task_count (sys_st s) \<le> 16 \<and> hnc_mdns_worker_result_count (sys_st s) \<le> 16"
  using worker_reachable_ok[OF assms]
  by (auto simp: worker_sys_ok_def worker_ok_def ring_ok_def hnc_mdns_worker_task_count_def hnc_mdns_worker_result_count_def
      HNC_MDNS_QUEUE_SIZE_def)

theorem mdns_tasks_conserved_witness:
  "\<exists>s A. accepted s = [''aa:bb''] \<and> delivered s = [] \<and> accepted s = A @ in_flight s @ map mt_mac (tasks (sys_st s)) @ discarded s"
proof -
  let ?i = "worker_sys_init None"
  obtain acc st' where e: "hnc_mdns_worker_enqueue ''aa:bb'' ''10.0.0.2'' (sys_st ?i) = (acc, st')" by fastforce
  then have acc: "acc" by (simp add: worker_sys_init_def hnc_mdns_worker_start_def hnc_mdns_worker_set_resolve_fn_def worker_init_def
      hnc_mdns_worker_enqueue_def HNC_MDNS_QUEUE_SIZE_def)
  let ?s = "?i\<lparr>sys_st := st', accepted := accepted ?i @ (if acc then [cbuf HNC_MDNS_MAC_LEN ''aa:bb''] else [])\<rparr>"
  have "worker_step\<^sup>*\<^sup>* ?i ?s" by (rule r_into_rtranclp, rule main_enqueue, rule e)
  from mdns_tasks_conserved[OF this] acc show ?thesis
    by (intro exI[of _ ?s]) (auto simp: worker_sys_init_def HNC_MDNS_MAC_LEN_def)
qed

text \<open>
  Draining takes the oldest results in order, at most \<open>out_max\<close> of them, and leaves the rest
  in the ring.
\<close>

lemma drain_results_fifo:
  assumes "worker_ok st" and "hnc_mdns_worker_drain_results out_max st = (out, st')"
  shows "out = take (nat out_max) (results st) \<and> results st' = drop (nat out_max) (results st) \<and> worker_ok st' \<and> tasks st' = tasks st"
  using drain_cases[OF assms] by (metis append_eq_conv_conj append_take_drop_id)

lemma drain_results_fifo_witness:
  "fst (hnc_mdns_worker_drain_results 16 (worker_push_result ''b'' [] ''mac'' False (worker_push_result ''a'' ''tv'' ''mdns'' True worker_init)))
     = [\<lparr>mr_mac = ''a'', mr_hostname = ''tv'', mr_hostname_src = ''mdns'', mr_success = True\<rparr>,
        \<lparr>mr_mac = ''b'', mr_hostname = [], mr_hostname_src = ''mac'', mr_success = False\<rparr>]"
proof -
  let ?a = "worker_push_result ''a'' ''tv'' ''mdns'' True worker_init"
  let ?st = "worker_push_result ''b'' [] ''mac'' False ?a"
  have i: "worker_ok worker_init" "results worker_init = []"
    by (simp_all add: worker_ok_def ring_ok_def results_def ring_list_def worker_init_def HNC_MDNS_QUEUE_SIZE_def)
  from push_result_cases[OF i(1), of "''a''" "''tv''" "''mdns''" True] i
  have a: "worker_ok ?a" "results ?a = [\<lparr>mr_mac = ''a'', mr_hostname = ''tv'', mr_hostname_src = ''mdns'', mr_success = True\<rparr>]"
    by (auto simp: res_stored_def HNC_MDNS_QUEUE_SIZE_def HNC_MDNS_MAC_LEN_def HNC_MDNS_HOSTNAME_LEN_def HNC_MDNS_SRC_LEN_def worker_init_def)
  then have "g_res_count ?a = 1" using length_tasks_results(2)[of ?a] by simp
  with push_result_cases[OF a(1), of "''b''" "[]" "''mac''" False] a(2)
  have "worker_ok ?st" "results ?st = results ?a @ [\<lparr>mr_mac = ''b'', mr_hostname = [], mr_hostname_src = ''mac'', mr_success = False\<rparr>]"
    by (auto simp: res_stored_def HNC_MDNS_QUEUE_SIZE_def HNC_MDNS_MAC_LEN_def HNC_MDNS_HOSTNAME_LEN_def HNC_MDNS_SRC_LEN_def)
  with drain_results_fifo[OF _ prod.collapse[symmetric], of ?st 16] a(2) show ?thesis by simp
qed

text \<open>
  A stop always ends the worker: from every reachable state after a stop, the worker
  can reach its exit by its own steps alone (finish the task in hand, then leave), so the
  join returns; the queued tasks are discarded.
\<close>

lemma stop_ends_worker:
  assumes "worker_step\<^sup>*\<^sup>* (worker_sys_init fn) s" and "g_stop (sys_st s)"
  shows "\<exists>s'. worker_step\<^sup>*\<^sup>* s s' \<and> sys_pc s' = Exited \<and> tasks (sys_st s') = []"
proof -
  have leave: "\<exists>s'. worker_step u s' \<and> sys_pc s' = Exited \<and> tasks (sys_st s') = []" if "sys_pc u = Idle" "g_stop (sys_st u)" for u
  proof -
    have t: "worker_take (sys_st u) = (Take_stop, (sys_st u)\<lparr>g_task_head := 0, g_task_tail := 0, g_task_count := 0\<rparr>)"
      using that(2) by (simp add: worker_take_def)
    from worker_leaves[OF that(1) t] show ?thesis by (force simp: tasks_def ring_list_def)
  qed
  show ?thesis
  proof (cases "sys_pc s")
    case Idle
    with leave[of s] assms(2) show ?thesis by blast
  next
    case (Working t)
    have "worker_ok (sys_st s)" using worker_reachable_ok[OF assms(1)] by (simp add: worker_sys_ok_def)
    then have "g_stop (worker_process t (sys_st s))" using process_cases[of "sys_st s" t] assms(2) by metis
    with leave worker_finishes[OF Working] show ?thesis
      by (metis (no_types, lifting) converse_rtranclp_into_rtranclp r_into_rtranclp worker_sys.select_convs(1,2) worker_sys.surjective
          worker_sys.update_convs(1,2,5))
  next
    case Exited
    then show ?thesis using worker_reachable_ok[OF assms(1)] by (auto simp: worker_sys_ok_def)
  qed
qed

lemma stop_ends_worker_witness:
  "\<exists>s s'. g_stop (sys_st s) \<and> worker_step\<^sup>*\<^sup>* s s' \<and> sys_pc s' = Exited"
proof -
  let ?s = "(worker_sys_init None)\<lparr>sys_st := hnc_mdns_worker_stop (sys_st (worker_sys_init None))\<rparr>"
  have "worker_step\<^sup>*\<^sup>* (worker_sys_init None) ?s" by (rule r_into_rtranclp, rule main_stop)
  moreover have "g_stop (sys_st ?s)"
    by (simp add: hnc_mdns_worker_stop_def worker_sys_init_def hnc_mdns_worker_start_def hnc_mdns_worker_set_resolve_fn_def worker_init_def)
  ultimately show ?thesis using stop_ends_worker[of None ?s] by blast
qed

end
