(* ===== verification/MdnsResolve.thy ===== *)
theory MdnsResolve
  imports HNC_Prelude
begin

text \<open>
  The mDNS reverse resolver, \<^verbatim>\<open>daemon/hotspotd/mdns_resolve.c\<close>: DNS name encoding, the PTR query,
  name decompression with its jump limit, the search of a response for the PTR answer, and
  the query attempts.  A packet is a \<^typ>\<open>string\<close> of bytes; the outcomes of socket calls and the
  packets that arrive are arguments.
\<close>

definition MAX_NAME_JUMPS :: nat where "MAX_NAME_JUMPS = 16"
definition MAX_NAME_LEN :: nat where "MAX_NAME_LEN = 256"
definition MAX_PKT :: nat where "MAX_PKT = 1500"
definition DEFAULT_TIMEOUT :: int where "DEFAULT_TIMEOUT = 800"

section \<open>Query construction\<close>

lemma length_tl_drop_takeWhile:
  "name \<noteq> [] \<Longrightarrow> length (tl (drop (length (takeWhile P name)) name)) < length name"
  by (cases name) (auto simp: less_Suc_eq_le)

function encode_loop :: "nat \<Rightarrow> string \<Rightarrow> string \<Rightarrow> string option" where
  "encode_loop outlen name out =
     (if name = [] then Some (out @ [NUL])
      else let label = takeWhile (\<lambda>c. c \<noteq> CHR ''.'') name; label_len = length label; rest = drop label_len name
           in if label_len = 0 \<or> label_len > 63 then None
              else if length out + 1 + label_len + 1 > outlen then None
              else if rest = [] then Some ((out @ chr label_len # label) @ [NUL])
              else encode_loop outlen (tl rest) (out @ chr label_len # label))"
  by pat_completeness auto
termination
  by (relation "measure (\<lambda>(_, name, _). length name)") (auto simp: length_tl_drop_takeWhile simp del: length_tl)

declare encode_loop.simps [simp del]

definition encode_dns_name :: "string \<Rightarrow> nat \<Rightarrow> string option" where
  "encode_dns_name name outlen = (if length name + 2 > outlen then None else encode_loop outlen name [])"

text \<open>\<^verbatim>\<open>%u\<close> of \<^verbatim>\<open>sscanf\<close>: white space, a sign, digits; the value is a 64-bit one cut to 32 bits.\<close>

definition scan_u :: "string \<Rightarrow> (nat \<times> string) option" where
  "scan_u s =
     (let s1 = dropWhile c_isspace s;
          neg = (cget s1 0 = CHR ''-'');
          s2 = (if cget s1 0 = CHR ''-'' \<or> cget s1 0 = CHR ''+'' then tl s1 else s1)
      in if \<not> c_isdigit (cget s2 0) then None
         else case scan_dec 0 s2 of (v, rest) \<Rightarrow>
           (let w = min v (2 ^ 64 - 1) in Some ((if neg then (2 ^ 64 - w) mod 2 ^ 64 else w) mod 2 ^ 32, rest)))"

definition scan_dot :: "string \<Rightarrow> string option" where
  "scan_dot s = (case s of c # r \<Rightarrow> if c = CHR ''.'' then Some r else None | [] \<Rightarrow> None)"

text \<open>\<^verbatim>\<open>sscanf(s, "%u.%u.%u.%u", &a, &b, &c, &d) == 4\<close>\<close>

definition scan_quad :: "string \<Rightarrow> (nat \<times> nat \<times> nat \<times> nat) option" where
  "scan_quad s =
     (case scan_u s of None \<Rightarrow> None | Some (a, s1) \<Rightarrow>
      (case scan_dot s1 of None \<Rightarrow> None | Some s2 \<Rightarrow>
      (case scan_u s2 of None \<Rightarrow> None | Some (b, s3) \<Rightarrow>
      (case scan_dot s3 of None \<Rightarrow> None | Some s4 \<Rightarrow>
      (case scan_u s4 of None \<Rightarrow> None | Some (c, s5) \<Rightarrow>
      (case scan_dot s5 of None \<Rightarrow> None | Some s6 \<Rightarrow>
      (case scan_u s6 of None \<Rightarrow> None | Some (d, _) \<Rightarrow> Some (a, b, c, d))))))))"

definition rev_name :: "nat \<Rightarrow> nat \<Rightarrow> nat \<Rightarrow> nat \<Rightarrow> string" where
  "rev_name a b c d = dec_nat d @ ''.'' @ dec_nat c @ ''.'' @ dec_nat b @ ''.'' @ dec_nat a @ ''.in-addr.arpa''"

definition build_query :: "string \<Rightarrow> nat \<Rightarrow> nat \<Rightarrow> string option" where
  "build_query ip_str buflen txid =
     (case scan_quad ip_str of
        None \<Rightarrow> None
      | Some (a, b, c, d) \<Rightarrow>
          if a > 255 \<or> b > 255 \<or> c > 255 \<or> d > 255 then None
          else let qname = cbuf 64 (rev_name a b c d)
               in if buflen < 12 + 64 + 4 then None
                  else case encode_dns_name qname (buflen - 12 - 4) of
                         None \<Rightarrow> None
                       | Some enc \<Rightarrow>
                           Some ([chr (drop_bit 8 txid), chr (txid AND 0xFF), CHR 0x00, CHR 0x00, CHR 0x00, CHR 0x01,
                                  CHR 0x00, CHR 0x00, CHR 0x00, CHR 0x00, CHR 0x00, CHR 0x00] @ enc @
                                 [CHR 0x00, CHR 0x0C, CHR 0x00, CHR 0x01]))"

section \<open>Response parsing\<close>

definition pkt_byte :: "string \<Rightarrow> nat \<Rightarrow> nat" where
  "pkt_byte pkt i = ord (cget pkt i)"

definition pkt_u16 :: "string \<Rightarrow> nat \<Rightarrow> nat" where
  "pkt_u16 pkt i = push_bit 8 (pkt_byte pkt i) OR pkt_byte pkt (i + 1)"

text \<open>
  The decoder returns \<open>Rejected\<close> (the code's \<open>-1\<close>) or the offset after the name and the bytes written.  Every access to memory is
  checked against the extent of the packet (\<open>readable\<close>) or of the output buffer (\<open>writable\<close>): one outside it makes the result \<open>Fault\<close>,
  which stands for the undefined behaviour of the code.
\<close>

datatype decode_result = Rejected | Fault | Decoded nat string

definition readable :: "string \<Rightarrow> nat \<Rightarrow> nat \<Rightarrow> bool" where
  "readable pkt i n \<longleftrightarrow> i + n \<le> length pkt"

definition writable :: "nat \<Rightarrow> nat \<Rightarrow> nat \<Rightarrow> bool" where
  "writable outlen i n \<longleftrightarrow> i + n \<le> outlen"

text \<open>\<open>first\<close> is \<^verbatim>\<open>after_first_label\<close>, present once \<^verbatim>\<open>jumped\<close> is set.\<close>

function decode_loop :: "string \<Rightarrow> nat \<Rightarrow> nat \<Rightarrow> nat \<Rightarrow> nat option \<Rightarrow> string \<Rightarrow> decode_result" where
  "decode_loop pkt outlen cur jumps first out =
     (if cur \<ge> length pkt then Rejected
      else if \<not> readable pkt cur 1 then Fault
      else let len = pkt_byte pkt cur
           in if len = 0 then
                (if \<not> writable outlen (length out) 1 then Fault else Decoded (case first of None \<Rightarrow> cur + 1 | Some a \<Rightarrow> a) out)
              else if len AND 0xC0 = 0xC0 then
                (if cur + 1 \<ge> length pkt then Rejected
                 else if \<not> readable pkt (cur + 1) 1 then Fault
                 else let ptr = push_bit 8 (len AND 0x3F) OR pkt_byte pkt (cur + 1);
                          first' = (case first of None \<Rightarrow> Some (cur + 2) | Some a \<Rightarrow> Some a)
                      in if jumps + 1 > MAX_NAME_JUMPS then Rejected
                         else if ptr \<ge> length pkt then Rejected
                         else decode_loop pkt outlen ptr (jumps + 1) first' out)
              else if len > 63 then Rejected
              else if cur + 1 + len > length pkt then Rejected
              else if length out + len + 1 \<ge> outlen then Rejected
              else if \<not> readable pkt (cur + 1) len \<or> \<not> writable outlen (length out) ((if length out > 0 then 1 else 0) + len) then Fault
              else decode_loop pkt outlen (cur + 1 + len) jumps first
                     (out @ (if length out > 0 then ''.'' else []) @ take len (drop (cur + 1) pkt)))"
  by pat_completeness auto
termination
  by (relation "measure (\<lambda>(_, outlen, _, jumps, _, out). (MAX_NAME_JUMPS + 1 - jumps) + (outlen - length out))") (auto simp: readable_def)

declare decode_loop.simps [simp del]

definition decoded :: "decode_result \<Rightarrow> (nat \<times> string) option" where
  "decoded r = (case r of Decoded off out \<Rightarrow> Some (off, out) | _ \<Rightarrow> None)"

lemma decoded_simps [simp]: "decoded Rejected = None" "decoded Fault = None" "decoded (Decoded off out) = Some (off, out)"
  by (simp_all add: decoded_def)

lemma decoded_Some: "decoded r = Some (off, out) \<longleftrightarrow> r = Decoded off out"
  by (cases r) simp_all

definition decode_dns_name :: "string \<Rightarrow> nat \<Rightarrow> nat \<Rightarrow> (nat \<times> string) option" where
  "decode_dns_name pkt off outlen = decoded (decode_loop pkt outlen off 0 None [])"

fun skip_questions :: "nat \<Rightarrow> string \<Rightarrow> nat \<Rightarrow> nat option" where
  "skip_questions 0 pkt off = Some off"
| "skip_questions (Suc n) pkt off =
     (case decode_dns_name pkt off MAX_NAME_LEN of
        None \<Rightarrow> None
      | Some (off', _) \<Rightarrow> if off' + 4 > length pkt then None else skip_questions n pkt (off' + 4))"

fun find_answer :: "nat \<Rightarrow> string \<Rightarrow> nat \<Rightarrow> nat \<Rightarrow> string option \<Rightarrow> string option" where
  "find_answer 0 pkt off outlen expected = None"
| "find_answer (Suc n) pkt off outlen expected =
     (case decode_dns_name pkt off MAX_NAME_LEN of
        None \<Rightarrow> None
      | Some (off1, rname) \<Rightarrow>
          if off1 + 10 > length pkt then None
          else let rtype = pkt_u16 pkt off1; rdlen = pkt_u16 pkt (off1 + 8); off2 = off1 + 10
               in if off2 + rdlen > length pkt then None
                  else if (case expected of None \<Rightarrow> False | Some x \<Rightarrow> \<not> strcasecmp_eq (cstr rname) x)
                  then find_answer n pkt (off2 + rdlen) outlen expected
                  else if rtype = 0x000C then map_option (\<lambda>(_, out). cstr out) (decode_dns_name pkt off2 outlen)
                  else find_answer n pkt (off2 + rdlen) outlen expected)"

definition parse_response :: "string \<Rightarrow> nat \<Rightarrow> string option \<Rightarrow> string option" where
  "parse_response pkt outlen expected =
     (if length pkt < 12 then None
      else let flags = pkt_u16 pkt 2; qdcount = pkt_u16 pkt 4; ancount = pkt_u16 pkt 6
           in if flags AND 0x8000 = 0 then None
              else if ancount = 0 then None
              else case skip_questions qdcount pkt 12 of
                     None \<Rightarrow> None
                   | Some off \<Rightarrow> find_answer ancount pkt off outlen expected)"

definition strip_local_suffix :: "string \<Rightarrow> string" where
  "strip_local_suffix name =
     (let name1 = rev (dropWhile (\<lambda>c. c = CHR ''.'') (rev name)); n = length name1
      in if n > 6 \<and> strcasecmp_eq (drop (n - 6) name1) ''.local'' then take (n - 6) name1 else name1)"

section \<open>Query attempts\<close>

text \<open>
  An event of the receive loop is the time elapsed when the loop reads the clock and what
  \<^verbatim>\<open>recvfrom\<close> then returns (\<^const>\<open>None\<close>: an error or the socket timeout).  After the last event the
  socket times out.
\<close>

fun recv_loop :: "int \<Rightarrow> nat \<Rightarrow> string option \<Rightarrow> (int \<times> string option) list \<Rightarrow> string option" where
  "recv_loop timeout_ms outlen expected [] = None"
| "recv_loop timeout_ms outlen expected ((elapsed_ms, pkt) # evs) =
     (if elapsed_ms \<ge> timeout_ms then None
      else case pkt of
        None \<Rightarrow> None
      | Some p \<Rightarrow>
          if length p < 12 then recv_loop timeout_ms outlen expected evs
          else case parse_response p outlen expected of
                 Some name \<Rightarrow> Some name
               | None \<Rightarrow> recv_loop timeout_ms outlen expected evs)"

record query_env =
  qe_socket_ok :: bool
  qe_pton_ok :: bool
  qe_send_ok :: bool
  qe_time :: int
  qe_events :: "(int \<times> string option) list"

definition try_query :: "query_env \<Rightarrow> string \<Rightarrow> int \<Rightarrow> nat \<Rightarrow> string option" where
  "try_query env src_ip timeout_ms outlen =
     (if \<not> qe_socket_ok env then None
      else case build_query src_ip MAX_PKT (nat (qe_time env mod 65536)) of
        None \<Rightarrow> None
      | Some pkt \<Rightarrow>
          (let expected_rname = (case scan_quad src_ip of Some (a, b, c, d) \<Rightarrow> cbuf 64 (rev_name a b c d) | None \<Rightarrow> [])
           in if \<not> qe_pton_ok env then None
              else if \<not> qe_send_ok env then None
              else recv_loop timeout_ms outlen (if expected_rname \<noteq> [] then Some expected_rname else None) (qe_events env)))"

text \<open>
  The attempts of \<^verbatim>\<open>main\<close> on an address: unicast, then multicast.  \<open>ip_ok\<close> is the check of the
  address by \<^verbatim>\<open>inet_pton\<close>; the result is the printed name.
\<close>

definition mdns_main :: "(string \<Rightarrow> bool) \<Rightarrow> query_env \<Rightarrow> query_env \<Rightarrow> string \<Rightarrow> int \<Rightarrow> string option" where
  "mdns_main ip_ok unicast multicast ip timeout_ms =
     (if \<not> ip_ok ip then None
      else let attempt = (\<lambda>env. case try_query env ip (timeout_ms div 2) MAX_NAME_LEN of
                            None \<Rightarrow> None
                          | Some h \<Rightarrow> let s = strip_local_suffix h in if s \<noteq> [] then Some s else None)
           in case attempt unicast of Some h \<Rightarrow> Some h | None \<Rightarrow> attempt multicast)"

fun mdns_args :: "string list \<Rightarrow> int \<times> string option \<Rightarrow> (int \<times> string option) option" where
  "mdns_args [] acc = Some acc"
| "mdns_args (a # as) (timeout_ms, ip) =
     (if a = ''-t'' \<and> as \<noteq> [] then
        (let t = strtol10 (hd as) in mdns_args (tl as) (if t \<le> 0 \<or> t > 10000 then DEFAULT_TIMEOUT else t, ip))
      else if a = ''-v'' then mdns_args as (timeout_ms, ip)
      else if cget a 0 = CHR ''-'' then None
      else mdns_args as (timeout_ms, Some a))"

section \<open>Names as label lists\<close>

fun dotted :: "string list \<Rightarrow> string" where
  "dotted [] = []"
| "dotted [l] = l"
| "dotted (l # ls) = l @ CHR ''.'' # dotted ls"

definition wire :: "string list \<Rightarrow> string" where
  "wire ls = concat (map (\<lambda>l. chr (length l) # l) ls) @ [NUL]"

definition label_ok :: "string \<Rightarrow> bool" where
  "label_ok l \<longleftrightarrow> l \<noteq> [] \<and> length l \<le> 63 \<and> CHR ''.'' \<notin> set l"

lemma wire_simps [simp]: "wire [] = [NUL]" "wire (l # ls) = chr (length l) # l @ wire ls"
  by (simp_all add: wire_def)

lemma length_wire: "ls \<noteq> [] \<Longrightarrow> length (wire ls) = length (dotted ls) + 2"
  by (induction ls rule: dotted.induct) auto

lemma dotted_nonempty: "list_all label_ok ls \<Longrightarrow> ls \<noteq> [] \<Longrightarrow> dotted ls \<noteq> []"
  by (cases ls rule: dotted.cases) (auto simp: label_ok_def)

lemma takeWhile_label: "label_ok l \<Longrightarrow> takeWhile (\<lambda>c. c \<noteq> CHR ''.'') (l @ CHR ''.'' # r) = l"
  "label_ok l \<Longrightarrow> takeWhile (\<lambda>c. c \<noteq> CHR ''.'') l = l"
  by (auto simp: label_ok_def takeWhile_append takeWhile_eq_all_conv)

lemma encode_loop_labels:
  "list_all label_ok ls \<Longrightarrow> ls \<noteq> [] \<Longrightarrow> length out + length (dotted ls) + 2 \<le> outlen \<Longrightarrow>
   encode_loop outlen (dotted ls) out = Some (out @ wire ls)"
proof (induction ls arbitrary: out rule: dotted.induct)
  case (2 l)
  then have l: "label_ok l" by simp
  with 2 show ?case by (subst encode_loop.simps) (auto simp: takeWhile_label(2)[OF l] Let_def label_ok_def)
next
  case (3 l l' ls)
  then have l: "label_ok l" and "dotted (l' # ls) \<noteq> []" using dotted_nonempty[of "l' # ls"] by auto
  moreover have "encode_loop outlen (dotted (l' # ls)) (out @ chr (length l) # l) = Some ((out @ chr (length l) # l) @ wire (l' # ls))"
    using 3 by (intro "3.IH") auto
  ultimately show ?case using 3
    by (subst encode_loop.simps) (auto simp: takeWhile_label(1)[OF l] Let_def label_ok_def)
qed simp

lemma and_C0_small: "n < 64 \<Longrightarrow> n AND 0xC0 = (0 :: nat)"
proof -
  assume "n < 64"
  then have "take_bit 6 n = n" by (simp add: take_bit_nat_eq_self)
  then have "n AND 0xC0 = take_bit 6 n AND 0xC0" by simp
  also have "\<dots> = n AND take_bit 6 0xC0" by (metis and.assoc and.commute take_bit_eq_mask)
  also have "\<dots> = 0" by (simp add: take_bit_nat_def)
  finally show ?thesis .
qed

text \<open>One turn of the decoding loop: the result, or the variables of the next turn.\<close>

definition decode_step :: "string \<Rightarrow> nat \<Rightarrow> nat \<times> nat \<times> nat option \<times> string \<Rightarrow> decode_result + (nat \<times> nat \<times> nat option \<times> string)" where
  "decode_step pkt outlen = (\<lambda>(cur, jumps, first, out).
     if cur \<ge> length pkt then Inl Rejected
     else if \<not> readable pkt cur 1 then Inl Fault
     else let len = pkt_byte pkt cur
          in if len = 0 then
               Inl (if \<not> writable outlen (length out) 1 then Fault else Decoded (case first of None \<Rightarrow> cur + 1 | Some a \<Rightarrow> a) out)
             else if len AND 0xC0 = 0xC0 then
               (if cur + 1 \<ge> length pkt then Inl Rejected
                else if \<not> readable pkt (cur + 1) 1 then Inl Fault
                else let ptr = push_bit 8 (len AND 0x3F) OR pkt_byte pkt (cur + 1)
                     in if jumps + 1 > MAX_NAME_JUMPS then Inl Rejected
                        else if ptr \<ge> length pkt then Inl Rejected
                        else Inr (ptr, jumps + 1, case first of None \<Rightarrow> Some (cur + 2) | Some a \<Rightarrow> Some a, out))
             else if len > 63 then Inl Rejected
             else if cur + 1 + len > length pkt then Inl Rejected
             else if length out + len + 1 \<ge> outlen then Inl Rejected
             else if \<not> readable pkt (cur + 1) len \<or> \<not> writable outlen (length out) ((if length out > 0 then 1 else 0) + len) then Inl Fault
             else Inr (cur + 1 + len, jumps, first, out @ (if length out > 0 then ''.'' else []) @ take len (drop (cur + 1) pkt)))"

text \<open>At most \<open>n\<close> turns; \<^const>\<open>None\<close> when they are not enough.\<close>

fun decode_turns :: "string \<Rightarrow> nat \<Rightarrow> nat \<Rightarrow> nat \<times> nat \<times> nat option \<times> string \<Rightarrow> (nat \<times> string) option option" where
  "decode_turns pkt outlen 0 st = None"
| "decode_turns pkt outlen (Suc n) st = (case decode_step pkt outlen st of Inl r \<Rightarrow> Some (decoded r) | Inr st' \<Rightarrow> decode_turns pkt outlen n st')"

lemma decode_loop_step:
  "decode_loop pkt outlen cur jumps first out =
     (case decode_step pkt outlen (cur, jumps, first, out) of Inl r \<Rightarrow> r | Inr (c, j, f, o') \<Rightarrow> decode_loop pkt outlen c j f o')"
  by (subst decode_loop.simps) (simp add: decode_step_def Let_def split: option.split)

lemma decode_step_progress:
  assumes "decode_step pkt outlen (cur, jumps, first, out) = Inr (c, j, f, o')" and "jumps \<le> MAX_NAME_JUMPS"
  shows "(MAX_NAME_JUMPS - j) + (outlen - length o') < (MAX_NAME_JUMPS - jumps) + (outlen - length out) \<and> j \<le> MAX_NAME_JUMPS"
  using assms by (auto simp: decode_step_def readable_def Let_def split: if_splits)

lemma decode_turns_enough:
  "jumps \<le> MAX_NAME_JUMPS \<Longrightarrow> (MAX_NAME_JUMPS - jumps) + (outlen - length out) < n \<Longrightarrow>
   decode_turns pkt outlen n (cur, jumps, first, out) = Some (decoded (decode_loop pkt outlen cur jumps first out))"
proof (induction n arbitrary: cur jumps first out)
  case (Suc n)
  show ?case
  proof (cases "decode_step pkt outlen (cur, jumps, first, out)")
    case (Inl r)
    then show ?thesis by (simp add: decode_loop_step)
  next
    case (Inr st)
    obtain c j f o' where st: "st = (c, j, f, o')" by (rule prod_cases4)
    note p = decode_step_progress[OF Inr[unfolded st] Suc.prems(1)]
    then have "(MAX_NAME_JUMPS - j) + (outlen - length o') < n" using Suc.prems(2) by linarith
    with p have "decode_turns pkt outlen n (c, j, f, o') = Some (decoded (decode_loop pkt outlen c j f o'))" by (intro Suc.IH) simp_all
    then show ?thesis using Inr st by (subst decode_loop_step) simp
  qed
qed simp

lemma decode_loop_end:
  "drop cur pkt = NUL # post \<Longrightarrow> length out < outlen \<Longrightarrow>
   decode_loop pkt outlen cur jumps first out = Decoded (case first of None \<Rightarrow> cur + 1 | Some a \<Rightarrow> a) out"
proof -
  assume d: "drop cur pkt = NUL # post" and o: "length out < outlen"
  then have "cur < length pkt" by (metis drop_eq_Nil list.distinct(1) not_le)
  moreover from this d have "pkt ! cur = NUL" by (metis Cons_nth_drop_Suc list.inject)
  ultimately show ?thesis using o by (subst decode_loop.simps) (simp add: pkt_byte_def cget_def readable_def writable_def)
qed

lemma decode_loop_label:
  assumes "drop cur pkt = chr (length l) # l @ rest" and "l \<noteq> []" and "length l \<le> 63" and "length out + length l + 1 < outlen"
  shows "decode_loop pkt outlen cur jumps first out =
    decode_loop pkt outlen (cur + 1 + length l) jumps first (out @ (if length out > 0 then ''.'' else []) @ l)"
proof -
  have c: "cur < length pkt" using assms(1) by (metis drop_eq_Nil list.distinct(1) not_le)
  then have nth: "pkt ! cur = chr (length l)" and dr: "drop (cur + 1) pkt = l @ rest"
    using assms(1) by (metis Cons_nth_drop_Suc list.inject, metis Cons_nth_drop_Suc Suc_eq_plus1 list.inject)
  have len: "pkt_byte pkt cur = length l" using c nth assms(3) by (simp add: pkt_byte_def cget_def)
  have "length (drop (cur + 1) pkt) = length l + length rest" using dr by simp
  then have "\<not> cur + 1 + length l > length pkt" using c by simp
  with c len dr assms and_C0_small[of "length l"] show ?thesis
    by (subst decode_loop.simps) (simp add: readable_def writable_def)
qed

text \<open>Decoding the wire form anywhere in a packet, with text already decoded in front.\<close>

lemma decode_loop_wire:
  assumes "list_all label_ok ls" and "drop cur pkt = wire ls @ post"
    and "length out + (if out = [] \<or> ls = [] then 0 else 1) + length (dotted ls) + 1 < outlen"
  shows "decode_loop pkt outlen cur jumps first out =
    Decoded (case first of None \<Rightarrow> cur + length (wire ls) | Some a \<Rightarrow> a)
          (out @ (if out \<noteq> [] \<and> ls \<noteq> [] then ''.'' else []) @ dotted ls)"
  using assms
proof (induction ls arbitrary: cur out)
  case Nil
  then show ?case using decode_loop_end[of cur pkt post out] by (simp split: option.split)
next
  case (Cons l ls)
  let ?out = "out @ (if length out > 0 then ''.'' else []) @ l"
  have l: "l \<noteq> []" "length l \<le> 63" using Cons.prems(1) by (auto simp: label_ok_def)
  have dl: "length (dotted (l # ls)) = length l + (if ls = [] then 0 else 1 + length (dotted ls))"
    by (cases ls) auto
  have d: "drop (cur + 1 + length l) pkt = wire ls @ post"
  proof -
    have "drop (cur + 1 + length l) pkt = drop (1 + length l) (drop cur pkt)" by (simp add: add.commute)
    with Cons.prems(2) show ?thesis by simp
  qed
  have "decode_loop pkt outlen cur jumps first out = decode_loop pkt outlen (cur + 1 + length l) jumps first ?out"
    using Cons.prems(2,3) l dl by (intro decode_loop_label[where rest = "wire ls @ post"]) (auto split: if_splits)
  also have "\<dots> = Decoded (case first of None \<Rightarrow> cur + 1 + length l + length (wire ls) | Some a \<Rightarrow> a)
      (?out @ (if ?out \<noteq> [] \<and> ls \<noteq> [] then ''.'' else []) @ dotted ls)"
    using Cons.prems(1,3) d l dl by (intro Cons.IH) (auto split: if_splits)
  also have "?out @ (if ?out \<noteq> [] \<and> ls \<noteq> [] then ''.'' else []) @ dotted ls = out @ (if out \<noteq> [] \<and> l # ls \<noteq> [] then ''.'' else []) @ dotted (l # ls)"
    using l by (cases ls) auto
  finally show ?case by (simp split: option.splits)
qed

lemma decode_wire:
  assumes "list_all label_ok ls" and "drop off pkt = wire ls @ post" and "length (dotted ls) + 1 < outlen"
  shows "decode_dns_name pkt off outlen = Some (off + length (wire ls), dotted ls)"
  using decode_loop_wire[OF assms(1,2), of "[]" outlen 0 None] assms(3) by (simp add: decode_dns_name_def)

section \<open>Safety of the decoder\<close>

text \<open>
  No access is outside the packet or the buffer, the decoded name leaves room for its terminator, and the offset moves
  forward and stays within the packet.
\<close>

definition decode_good :: "string \<Rightarrow> nat \<Rightarrow> nat \<Rightarrow> nat option \<Rightarrow> decode_result \<Rightarrow> bool" where
  "decode_good pkt outlen cur first r \<longleftrightarrow> (case r of Rejected \<Rightarrow> True | Fault \<Rightarrow> False
     | Decoded off res \<Rightarrow> length res < outlen \<and> off \<le> length pkt \<and> (case first of None \<Rightarrow> cur < off | Some a \<Rightarrow> off = a))"

lemma decode_step_good:
  assumes "decode_step pkt outlen (cur, jumps, first, out) = Inl r" and "length out < outlen"
    and "case first of None \<Rightarrow> True | Some a \<Rightarrow> a \<le> length pkt"
  shows "decode_good pkt outlen cur first r"
  using assms by (auto simp: decode_step_def decode_good_def readable_def writable_def Let_def split: if_splits option.splits)

lemma decode_step_next:
  assumes "decode_step pkt outlen (cur, jumps, first, out) = Inr (c, j, f, o')" and "length out < outlen"
    and "case first of None \<Rightarrow> True | Some a \<Rightarrow> a \<le> length pkt"
  shows "length o' < outlen \<and> (case f of None \<Rightarrow> True | Some a \<Rightarrow> a \<le> length pkt) \<and> (decode_good pkt outlen c f r \<longrightarrow> decode_good pkt outlen cur first r)"
  using assms
  by (auto simp: decode_step_def decode_good_def readable_def writable_def Let_def split: if_splits option.splits decode_result.splits)

lemma decode_loop_good:
  assumes "jumps \<le> MAX_NAME_JUMPS" and "length out < outlen" and "case first of None \<Rightarrow> True | Some a \<Rightarrow> a \<le> length pkt"
  shows "decode_good pkt outlen cur first (decode_loop pkt outlen cur jumps first out)"
  using assms
proof (induction "(MAX_NAME_JUMPS - jumps) + (outlen - length out)" arbitrary: cur jumps first out rule: less_induct)
  case less
  show ?case
  proof (cases "decode_step pkt outlen (cur, jumps, first, out)")
    case (Inl r)
    then show ?thesis using decode_step_good[OF Inl less.prems(2,3)] by (subst decode_loop_step) simp
  next
    case (Inr st)
    obtain c j f o' where st: "st = (c, j, f, o')" by (rule prod_cases4)
    note p = decode_step_progress[OF Inr[unfolded st] less.prems(1)] and n = decode_step_next[OF Inr[unfolded st] less.prems(2,3)]
    have "decode_good pkt outlen c f (decode_loop pkt outlen c j f o')" using p n[of Rejected] by (intro less.hyps) blast+
    then show ?thesis using n Inr st by (subst decode_loop_step) simp
  qed
qed

lemma decode_bounds:
  "decode_dns_name pkt off outlen = Some (off', res) \<Longrightarrow> 0 < outlen \<Longrightarrow> length res < outlen \<and> off < off' \<and> off' \<le> length pkt"
  using decode_loop_good[where jumps = 0 and out = "[]" and first = None and outlen = outlen and pkt = pkt and cur = off] by (simp add: decode_dns_name_def decoded_Some decode_good_def)

text \<open>A pointer to itself runs into the jump limit.\<close>

lemma decode_self_pointer:
  assumes "cur + 1 < length pkt" and "pkt_byte pkt cur AND 0xC0 = 0xC0"
    and "push_bit 8 (pkt_byte pkt cur AND 0x3F) OR pkt_byte pkt (cur + 1) = cur"
  shows "decode_loop pkt outlen cur jumps first out = Rejected"
proof -
  have nz: "pkt_byte pkt cur \<noteq> 0" using assms(2) by (intro notI) simp
  show ?thesis
proof (induction "MAX_NAME_JUMPS + 1 - jumps" arbitrary: jumps first)
  case 0
  then show ?case using assms nz by (subst decode_loop.simps) (auto simp: Let_def readable_def)
next
  case (Suc n)
  show ?case
  proof (cases "jumps + 1 > MAX_NAME_JUMPS")
    case True
    then show ?thesis using assms nz by (subst decode_loop.simps) (simp add: Let_def readable_def)
  next
    case False
    with Suc(2) have "n = MAX_NAME_JUMPS + 1 - (jumps + 1)" by simp
    from Suc(1)[OF this] assms nz False show ?thesis by (subst decode_loop.simps) (simp add: Let_def readable_def)
  qed
qed
qed

section \<open>Queries and responses\<close>

lemma pkt_u16_eq: "pkt_u16 pkt i = 256 * pkt_byte pkt i + pkt_byte pkt (i + 1)"
proof -
  have "pkt_byte pkt (i + 1) < 2 ^ 8" by (simp add: pkt_byte_def)
  from push_or[OF this] show ?thesis by (simp add: pkt_u16_def)
qed

lemma pkt_byte_append: "pkt_byte (xs @ ys) i = (if i < length xs then ord (xs ! i) else pkt_byte ys (i - length xs))"
  by (auto simp: pkt_byte_def cget_def nth_append)

definition rev_labels :: "nat \<Rightarrow> nat \<Rightarrow> nat \<Rightarrow> nat \<Rightarrow> string list" where
  "rev_labels a b c d = [dec_nat d, dec_nat c, dec_nat b, dec_nat a, ''in-addr'', ''arpa'']"

definition quad_text :: "nat \<Rightarrow> nat \<Rightarrow> nat \<Rightarrow> nat \<Rightarrow> string" where
  "quad_text a b c d = dec_nat a @ ''.'' @ dec_nat b @ ''.'' @ dec_nat c @ ''.'' @ dec_nat d"

lemma rev_name_dotted: "rev_name a b c d = dotted (rev_labels a b c d)"
  by (simp add: rev_name_def rev_labels_def)

lemma label_ok_dec: "n \<le> 255 \<Longrightarrow> label_ok (dec_nat n)"
  using length_dec_nat[of n 3] dec_nat_nonempty[of n] dec_nat_digits[of n] by (auto simp: label_ok_def c_isdigit_def)

lemma length_dec_octet: "n \<le> 255 \<Longrightarrow> length (dec_nat n) \<le> 3"
  using length_dec_nat[of n 3] by simp

lemma rev_labels_ok:
  assumes "a \<le> 255" "b \<le> 255" "c \<le> 255" "d \<le> 255"
  shows "list_all label_ok (rev_labels a b c d)" and "length (dotted (rev_labels a b c d)) \<le> 28"
  using assms label_ok_dec length_dec_octet[OF assms(1)] length_dec_octet[OF assms(2)] length_dec_octet[OF assms(3)] length_dec_octet[OF assms(4)]
  by (simp_all add: rev_labels_def) (simp add: label_ok_def)

lemma scan_u_dec:
  assumes "n < 2 ^ 32" and "rest = [] \<or> \<not> c_isdigit (hd rest)"
  shows "scan_u (dec_nat n @ rest) = Some (n, rest)"
proof -
  obtain d ds where ds: "dec_nat n = d # ds" using dec_nat_nonempty[of n] by (auto simp: neq_Nil_conv)
  then have d: "c_isdigit d" using dec_nat_digits[of n] by simp
  then have ne: "\<not> c_isspace d" "d \<noteq> CHR ''-''" "d \<noteq> CHR ''+''" by (auto simp: c_isdigit_def c_isspace_def)
  have sc: "scan_dec 0 (dec_nat n @ rest) = (n, rest)"
    using assms(2) scan_dec_nat_sep[of "hd rest" n "tl rest"] scan_dec_nat[of n] by (cases rest) auto
  show ?thesis using ds d ne sc assms(1) by (simp add: scan_u_def Let_def min_def)
qed

lemma scan_quad_text:
  assumes "a \<le> 255" "b \<le> 255" "c \<le> 255" "d \<le> 255"
  shows "scan_quad (quad_text a b c d) = Some (a, b, c, d)"
proof -
  have dot: "\<not> c_isdigit (CHR ''.'')" by (simp add: c_isdigit_def)
  have s: "scan_u (dec_nat n @ CHR ''.'' # r) = Some (n, CHR ''.'' # r)" if "n \<le> 255" for n r
    using that dot by (intro scan_u_dec) auto
  have "scan_u (dec_nat d) = Some (d, [])" using scan_u_dec[of d "[]"] assms(4) by simp
  with assms s show ?thesis by (simp add: scan_quad_def quad_text_def scan_dot_def)
qed

lemma encode_labels:
  "list_all label_ok ls \<Longrightarrow> ls \<noteq> [] \<Longrightarrow> length (dotted ls) + 2 \<le> outlen \<Longrightarrow> encode_dns_name (dotted ls) outlen = Some (wire ls)"
  using encode_loop_labels[of ls "[]" outlen] by (simp add: encode_dns_name_def)

text \<open>A response with one PTR answer for the owner name \<open>rls\<close>, as a responder sends it.\<close>

definition ptr_response :: "string \<Rightarrow> string \<Rightarrow> string list \<Rightarrow> string list \<Rightarrow> string" where
  "ptr_response txid class_ttl rls hls =
     txid @ [CHR 0x84, CHR 0x00, CHR 0x00, CHR 0x00, CHR 0x00, CHR 0x01, CHR 0x00, CHR 0x00, CHR 0x00, CHR 0x00] @ wire rls @
     [CHR 0x00, CHR 0x0C] @ class_ttl @ [chr (length (wire hls) div 256), chr (length (wire hls) mod 256)] @ wire hls"

lemma drop_add: "drop (m + n) xs = drop n (drop m xs)"
  by (simp add: add.commute)

lemma parse_ptr_response:
  assumes "list_all label_ok rls" and "list_all label_ok hls" and "length txid = 2" and "length class_ttl = 6"
    and "length (dotted rls) < 255" and "length (dotted hls) + 1 < outlen" and "length (wire hls) < 65536"
    and "nulfree (dotted rls)" and "nulfree (dotted hls)" and "strcasecmp_eq (dotted rls) x"
  shows "parse_response (ptr_response txid class_ttl rls hls) outlen (Some x) = Some (dotted hls)"
proof -
  let ?p = "ptr_response txid class_ttl rls hls"
  let ?t = "[CHR 0x00, CHR 0x0C] @ class_ttl @ [chr (length (wire hls) div 256), chr (length (wire hls) mod 256)] @ wire hls"
  let ?o = "12 + length (wire rls)"
  obtain t0 t1 where t: "txid = [t0, t1]" using assms(3) by (auto simp: length_Suc_conv numeral_2_eq_2)
  have hdr: "pkt_u16 ?p 2 = 0x8400" "pkt_u16 ?p 4 = 0" "pkt_u16 ?p 6 = 1"
    by (simp_all add: pkt_u16_eq t ptr_response_def pkt_byte_def cget_def)
  have d12: "drop 12 ?p = wire rls @ ?t" by (simp add: ptr_response_def t)
  then have do: "drop ?o ?p = ?t" by (simp only: drop_add) simp
  have len: "length ?p = ?o + 10 + length (wire hls)" by (simp add: ptr_response_def assms(3,4))
  have rn: "decode_dns_name ?p 12 MAX_NAME_LEN = Some (?o, dotted rls)"
    using decode_wire[OF assms(1) d12] assms(5) by (simp add: MAX_NAME_LEN_def)
  have at: "pkt_byte ?p (?o + i) = pkt_byte ?t i" for i
  proof -
    have "?p = take ?o ?p @ ?t" by (metis append_take_drop_id do)
    moreover have "length (take ?o ?p) = ?o" using len by simp
    ultimately show ?thesis by (metis add_diff_cancel_left' not_add_less1 pkt_byte_append)
  qed
  have ty: "pkt_u16 ?p ?o = 0x000C" using at[of 0] at[of 1] by (simp add: pkt_u16_eq pkt_byte_def cget_def)
  have rd: "pkt_u16 ?p (?o + 8) = length (wire hls)"
    using at[of 8] at[of 9] assms(4,7) by (simp add: pkt_u16_eq pkt_byte_append pkt_byte_def cget_def nth_append add.assoc)
  have "drop (?o + 10) ?p = wire hls" using do assms(4) by (simp only: drop_add) simp
  then have hn: "decode_dns_name ?p (?o + 10) outlen = Some (?o + 10 + length (wire hls), dotted hls)"
    using decode_wire[OF assms(2), of "?o + 10" ?p "[]"] assms(6) by simp
  have fl: "(0x8400 :: nat) AND 0x8000 \<noteq> 0" by simp
  have "find_answer 1 ?p 12 outlen (Some x) = Some (dotted hls)"
    using rn ty rd hn len assms(8,9,10) by simp
  then show ?thesis using hdr fl len by (simp add: parse_response_def Let_def)
qed

lemma find_answer_sound:
  assumes "find_answer n pkt off outlen (Some x) = Some name"
  shows "\<exists>o1 o2 rname. decode_dns_name pkt o1 MAX_NAME_LEN = Some (o2, rname) \<and> strcasecmp_eq (cstr rname) x \<and>
    pkt_u16 pkt o2 = 0x000C \<and> map_option (\<lambda>(_, out). cstr out) (decode_dns_name pkt (o2 + 10) outlen) = Some name"
  using assms
proof (induction n arbitrary: off)
  case (Suc n)
  from Suc.prems obtain o2 rname where d: "decode_dns_name pkt off MAX_NAME_LEN = Some (o2, rname)"
    by (auto split: option.splits)
  show ?case
  proof (cases "find_answer n pkt (o2 + 10 + pkt_u16 pkt (o2 + 8)) outlen (Some x) = Some name")
    case True
    then show ?thesis by (rule Suc.IH)
  next
    case False
    with Suc.prems d have "strcasecmp_eq (cstr rname) x" "pkt_u16 pkt o2 = 0x000C"
      "map_option (\<lambda>(_, out). cstr out) (decode_dns_name pkt (o2 + 10) outlen) = Some name"
      by (auto simp: Let_def split: if_splits)
    with d show ?thesis by blast
  qed
qed simp

section \<open>Properties\<close>

text \<open>
  C17: DNS names survive encoding and decoding: a dotted name of non-empty labels of at most
  63 bytes is encoded whenever the buffer has two bytes more than the name, and decoding the
  encoding, wherever it stands in a packet, gives the name and the offset after it.
\<close>

theorem dns_name_roundtrip:
  assumes "list_all label_ok ls" and "ls \<noteq> []" and "length (dotted ls) + 2 \<le> outlen"
  shows "\<exists>enc. encode_dns_name (dotted ls) outlen = Some enc \<and>
     decode_dns_name (pre @ enc @ post) (length pre) outlen = Some (length pre + length enc, dotted ls)"
  using encode_labels[OF assms] decode_wire[OF assms(1), of "length pre" "pre @ wire ls @ post" post outlen] assms(3)
  by simp

theorem dns_name_roundtrip_witness:
  "\<exists>enc. encode_dns_name ''tv.local'' 64 = Some enc \<and> decode_dns_name (''xy'' @ enc @ ''z'') 2 64 = Some (2 + length enc, ''tv.local'')"
  using dns_name_roundtrip[of "[''tv'', ''local'']" 64 "''xy''" "''z''"] by (simp add: label_ok_def numeral_2_eq_2)

text \<open>
  C21: The name decoder is safe on every packet, hostile ones included: it never reads a byte outside the packet and never
  writes outside the output buffer (neither a length byte, nor a pointer, nor the copy of a label, nor the terminator), a decoded name
  with its terminator fits the buffer, the offset moves forward and stays within the packet,
  and a compression pointer to itself is rejected.
\<close>

theorem decode_dns_name_safe:
  assumes "0 < outlen"
  shows "decode_loop pkt outlen off 0 None [] \<noteq> Fault \<and>
     (case decode_dns_name pkt off outlen of None \<Rightarrow> True
          | Some (off', name) \<Rightarrow> length name < outlen \<and> off < off' \<and> off' \<le> length pkt) \<and>
     (off + 1 < length pkt \<and> pkt_byte pkt off AND 0xC0 = 0xC0 \<and> push_bit 8 (pkt_byte pkt off AND 0x3F) OR pkt_byte pkt (off + 1) = off
        \<longrightarrow> decode_loop pkt outlen off 0 None [] = Rejected)"
proof (intro conjI impI)
  show "decode_loop pkt outlen off 0 None [] \<noteq> Fault"
    using decode_loop_good[where jumps = 0 and out = "[]" and first = None and outlen = outlen and pkt = pkt and cur = off] assms by (auto simp: decode_good_def)
  show "case decode_dns_name pkt off outlen of None \<Rightarrow> True
      | Some (off', name) \<Rightarrow> length name < outlen \<and> off < off' \<and> off' \<le> length pkt"
    using decode_bounds[of pkt off outlen] assms by (auto split: option.split)
  show "decode_loop pkt outlen off 0 None [] = Rejected"
    if "off + 1 < length pkt \<and> pkt_byte pkt off AND 0xC0 = 0xC0 \<and> push_bit 8 (pkt_byte pkt off AND 0x3F) OR pkt_byte pkt (off + 1) = off"
    using that by (intro decode_self_pointer) auto
qed

text \<open>A label that claims five bytes where the packet has two.\<close>

theorem decode_dns_name_safe_witness:
  "decode_loop [CHR 0xC0, CHR 0x00] 256 0 0 None [] = Rejected \<and> decode_loop [CHR 0x05, CHR 0x61, CHR 0x62] 256 0 0 None [] \<noteq> Fault"
  using decode_dns_name_safe[where outlen = 256 and off = 0 and pkt = "[CHR 0xC0, CHR 0x00]"]
    decode_dns_name_safe[where outlen = 256 and off = 0 and pkt = "[CHR 0x05, CHR 0x61, CHR 0x62]"] by (simp add: pkt_byte_def cget_def)

text \<open>
  A PTR answer for the queried name is found: from a response that carries one answer
  for a name equal to the expected one up to case, the parser returns exactly the host name
  of the answer.
\<close>

lemma parse_response_complete:
  assumes "list_all label_ok rls" and "list_all label_ok hls" and "length txid = 2" and "length class_ttl = 6"
    and "length (dotted rls) < 255" and "length (dotted hls) < 255"
    and "nulfree (dotted rls)" and "nulfree (dotted hls)" and "strcasecmp_eq (dotted rls) x"
  shows "parse_response (ptr_response txid class_ttl rls hls) MAX_NAME_LEN (Some x) = Some (dotted hls)"
proof (cases "hls = []")
  case True
  then show ?thesis using assms by (intro parse_ptr_response) (auto simp: MAX_NAME_LEN_def)
next
  case False
  then show ?thesis using assms length_wire[OF False] by (intro parse_ptr_response) (auto simp: MAX_NAME_LEN_def)
qed

lemma parse_response_complete_witness:
  "parse_response (ptr_response ''ab'' ''123456'' [''2'', ''0'', ''0'', ''10'', ''in-addr'', ''arpa''] [''Mi-10'', ''local'']) 256
     (Some ''2.0.0.10.in-addr.arpa'') = Some ''Mi-10.local''"
  using parse_response_complete[of "[''2'', ''0'', ''0'', ''10'', ''in-addr'', ''arpa'']" "[''Mi-10'', ''local'']" "''ab''" "''123456''"
      "''2.0.0.10.in-addr.arpa''"]
  by (simp add: label_ok_def strcasecmp_eq_def MAX_NAME_LEN_def)

text \<open>
  C27: A spoofed answer is never accepted: whatever the packet, a name the parser returns for
  an expected owner name comes from a PTR record of the packet whose owner name equals the
  expected one up to case, and it fits the buffer.
\<close>

theorem parse_response_sound:
  assumes "parse_response pkt outlen (Some x) = Some name" and "0 < outlen"
  shows "\<exists>o1 o2 o3 rname out. decode_dns_name pkt o1 MAX_NAME_LEN = Some (o2, rname) \<and> strcasecmp_eq (cstr rname) x \<and>
     pkt_u16 pkt o2 = 0x000C \<and> decode_dns_name pkt (o2 + 10) outlen = Some (o3, out) \<and> name = cstr out \<and> length name < outlen"
proof -
  from assms(1) obtain n off where "find_answer n pkt off outlen (Some x) = Some name"
    by (auto simp: parse_response_def Let_def split: if_splits option.splits)
  from find_answer_sound[OF this] obtain o1 o2 rname o3 out where f: "decode_dns_name pkt o1 MAX_NAME_LEN = Some (o2, rname)"
    "strcasecmp_eq (cstr rname) x" "pkt_u16 pkt o2 = 0x000C" "decode_dns_name pkt (o2 + 10) outlen = Some (o3, out)" "name = cstr out"
    by auto
  moreover have "length (cstr out) \<le> length out" by (simp add: cstr_def length_takeWhile_le)
  ultimately show ?thesis using decode_bounds[OF f(4) assms(2)] by fastforce
qed

theorem parse_response_sound_witness:
  "\<exists>o1 o2 rname. decode_dns_name (ptr_response ''ab'' ''123456'' [''2'', ''arpa''] [''tv'']) o1 MAX_NAME_LEN = Some (o2, rname) \<and>
     strcasecmp_eq (cstr rname) ''2.ARPA''"
proof -
  have "strcasecmp_eq (dotted [''2'', ''arpa'']) ''2.ARPA''" by code_simp
  then have "parse_response (ptr_response ''ab'' ''123456'' [''2'', ''arpa''] [''tv'']) 256 (Some ''2.ARPA'') = Some ''tv''"
    using parse_ptr_response[of "[''2'', ''arpa'']" "[''tv'']" "''ab''" "''123456''" 256 "''2.ARPA''"] by (simp add: label_ok_def)
  from parse_response_sound[OF this] show ?thesis by fastforce
qed

text \<open>
  For a dotted-quad address the query packet has the right question: a 12-byte header
  with one question, then the name \<open>d.c.b.a.in-addr.arpa\<close> (decoding the packet at offset 12
  gives it back), then type PTR and class IN.
\<close>

lemma build_query_correct:
  assumes "a \<le> 255" and "b \<le> 255" and "c \<le> 255" and "d \<le> 255" and "80 \<le> buflen"
  shows "\<exists>hdr enc. build_query (quad_text a b c d) buflen txid = Some (hdr @ enc @ [CHR 0x00, CHR 0x0C, CHR 0x00, CHR 0x01]) \<and>
     length hdr = 12 \<and> pkt_u16 hdr 4 = 1 \<and>
     decode_dns_name (hdr @ enc @ [CHR 0x00, CHR 0x0C, CHR 0x00, CHR 0x01]) 12 MAX_NAME_LEN = Some (12 + length enc, rev_name a b c d)"
proof -
  let ?ls = "rev_labels a b c d"
  let ?hdr = "[chr (drop_bit 8 txid), chr (txid AND 0xFF), CHR 0x00, CHR 0x00, CHR 0x00, CHR 0x01,
      CHR 0x00, CHR 0x00, CHR 0x00, CHR 0x00, CHR 0x00, CHR 0x00]"
  note ok = rev_labels_ok[OF assms(1-4)]
  have ne: "?ls \<noteq> []" by (simp add: rev_labels_def)
  have enc: "encode_dns_name (dotted ?ls) (buflen - 16) = Some (wire ?ls)"
    using ok assms(5) by (intro encode_labels) (auto simp: ne)
  have "build_query (quad_text a b c d) buflen txid = Some (?hdr @ wire ?ls @ [CHR 0x00, CHR 0x0C, CHR 0x00, CHR 0x01])"
    using assms ok(2) enc by (simp add: build_query_def scan_quad_text[OF assms(1-4)] rev_name_dotted)
  moreover have "decode_dns_name (?hdr @ wire ?ls @ [CHR 0x00, CHR 0x0C, CHR 0x00, CHR 0x01]) 12 MAX_NAME_LEN = Some (12 + length (wire ?ls), dotted ?ls)"
    using ok(2) by (intro decode_wire[OF ok(1)]) (auto simp: MAX_NAME_LEN_def)
  moreover have "pkt_u16 ?hdr 4 = 1" by (simp add: pkt_u16_eq pkt_byte_def cget_def)
  ultimately show ?thesis by (intro exI[of _ ?hdr] exI[of _ "wire ?ls"]) (simp add: rev_name_dotted)
qed

lemma build_query_correct_witness:
  "\<exists>hdr enc. build_query (quad_text 10 193 171 30) MAX_PKT 0x1234 = Some (hdr @ enc @ [CHR 0x00, CHR 0x0C, CHR 0x00, CHR 0x01]) \<and>
     length hdr = 12 \<and> pkt_u16 hdr 4 = 1 \<and>
     decode_dns_name (hdr @ enc @ [CHR 0x00, CHR 0x0C, CHR 0x00, CHR 0x01]) 12 MAX_NAME_LEN = Some (12 + length enc, rev_name 10 193 171 30)"
  by (rule build_query_correct) (simp_all add: MAX_PKT_def)

text \<open>
  The suffix stripper removes the domain \<^verbatim>\<open>.local\<close> in any case and any trailing dots, and keeps
  the host part unchanged.
\<close>

lemma strip_local_suffix_correct:
  assumes "h \<noteq> []" and "strcasecmp_eq suf ''.local'' \<and> last suf \<noteq> CHR ''.''"
  shows "strip_local_suffix (h @ suf @ replicate n (CHR ''.'')) = h"
proof -
  have len: "length suf = 6" using assms(2) strcasecmp_eq_length[of suf "''.local''"] by simp
  then obtain c s' where rs: "rev suf = c # s'" by (metis length_rev length_Suc_conv eval_nat_numeral(2))
  then have "c \<noteq> CHR ''.''" using assms(2) by (metis hd_rev list.sel(1))
  then have "dropWhile (\<lambda>c. c = CHR ''.'') (rev (h @ suf @ replicate n (CHR ''.''))) = rev suf @ rev h"
    using rs by (simp add: dropWhile_append)
  then show ?thesis using assms len by (simp add: strip_local_suffix_def Let_def)
qed

lemma strip_local_suffix_correct_witness: "strip_local_suffix ''Mi-10.Local..'' = ''Mi-10''"
proof -
  have "strcasecmp_eq ''.Local'' ''.local'' \<and> last ''.Local'' \<noteq> CHR ''.''" by code_simp
  from strip_local_suffix_correct[OF _ this, of "''Mi-10''" 2] show ?thesis by (simp add: numeral_2_eq_2)
qed

text \<open>
  C26: A hostile packet cannot keep the decoder of names busy: for every packet, offset and output buffer, with any cycles among its
  compression pointers, the loop ends after at most as many turns as pointers are allowed and
  the buffer has bytes, and what it ends with is the result of the function.
\<close>

theorem decode_terminates:
  "decode_turns pkt outlen (MAX_NAME_JUMPS + outlen + 1) (off, 0, None, []) = Some (decode_dns_name pkt off outlen)"
  unfolding decode_dns_name_def by (rule decode_turns_enough) simp_all

end
