(* ===== verification/Adapter.thy ===== *)
theory Adapter
  imports HNC_Prelude
begin

text \<open>
  The hardware-offload abstraction, \<^verbatim>\<open>daemon/hotspotd/offload/adapter.{h,c}\<close> and \<^verbatim>\<open>adapter_null.c\<close>:
  error codes, adapter types and granularities, the table of operations of an adapter, the
  null adapter and the election.  The operations act on a state \<open>'w\<close> that holds the adapter's
  own state and the kernel; an operation pointer that may be \<^verbatim>\<open>NULL\<close> is an option.
\<close>

datatype offload_err_t = OFFLOAD_OK | OFFLOAD_ENOTSUP | OFFLOAD_EPERM | OFFLOAD_EINVAL | OFFLOAD_ENOENT
  | OFFLOAD_EAGAIN | OFFLOAD_EINTERNAL

datatype offload_type_t = OFFLOAD_NONE | OFFLOAD_QCOM_BPF | OFFLOAD_MTK_PPE | OFFLOAD_SAMSUNG_NSS
  | OFFLOAD_HISI_HINAT | OFFLOAD_UNKNOWN

datatype offload_granularity_t = OFFLOAD_GRAN_NONE | OFFLOAD_GRAN_GLOBAL | OFFLOAD_GRAN_PER_UPSTREAM
  | OFFLOAD_GRAN_PER_DEVICE

fun offload_err_str :: "offload_err_t \<Rightarrow> string" where
  "offload_err_str OFFLOAD_OK = ''OK''"
| "offload_err_str OFFLOAD_ENOTSUP = ''ENOTSUP''"
| "offload_err_str OFFLOAD_EPERM = ''EPERM''"
| "offload_err_str OFFLOAD_EINVAL = ''EINVAL''"
| "offload_err_str OFFLOAD_ENOENT = ''ENOENT''"
| "offload_err_str OFFLOAD_EAGAIN = ''EAGAIN''"
| "offload_err_str OFFLOAD_EINTERNAL = ''EINTERNAL''"

fun offload_type_str :: "offload_type_t \<Rightarrow> string" where
  "offload_type_str OFFLOAD_NONE = ''none''"
| "offload_type_str OFFLOAD_QCOM_BPF = ''qcom_bpf''"
| "offload_type_str OFFLOAD_MTK_PPE = ''mtk_ppe''"
| "offload_type_str OFFLOAD_SAMSUNG_NSS = ''samsung_nss''"
| "offload_type_str OFFLOAD_HISI_HINAT = ''hisi_hinat''"
| "offload_type_str OFFLOAD_UNKNOWN = ''unknown''"

fun offload_gran_str :: "offload_granularity_t \<Rightarrow> string" where
  "offload_gran_str OFFLOAD_GRAN_NONE = ''none''"
| "offload_gran_str OFFLOAD_GRAN_GLOBAL = ''global''"
| "offload_gran_str OFFLOAD_GRAN_PER_UPSTREAM = ''per_upstream''"
| "offload_gran_str OFFLOAD_GRAN_PER_DEVICE = ''per_device''"

text \<open>The numbers of the C enumerations, as the JSON summary prints them.\<close>

fun offload_type_num :: "offload_type_t \<Rightarrow> nat" where
  "offload_type_num OFFLOAD_NONE = 0"
| "offload_type_num OFFLOAD_QCOM_BPF = 1"
| "offload_type_num OFFLOAD_MTK_PPE = 2"
| "offload_type_num OFFLOAD_SAMSUNG_NSS = 3"
| "offload_type_num OFFLOAD_HISI_HINAT = 4"
| "offload_type_num OFFLOAD_UNKNOWN = 99"

fun offload_gran_num :: "offload_granularity_t \<Rightarrow> nat" where
  "offload_gran_num OFFLOAD_GRAN_NONE = 0"
| "offload_gran_num OFFLOAD_GRAN_GLOBAL = 1"
| "offload_gran_num OFFLOAD_GRAN_PER_UPSTREAM = 2"
| "offload_gran_num OFFLOAD_GRAN_PER_DEVICE = 3"

record offload_status_t =
  os_active :: bool
  os_last_refresh_ts :: int
  os_last_delta_bytes :: "64 word"
  os_disabled_upstream_count :: nat
  os_disabled_upstream_ifindex :: "int list"
  os_globally_disabled :: bool

definition os_zero :: offload_status_t where
  "os_zero = \<lparr>os_active = False, os_last_refresh_ts = 0, os_last_delta_bytes = 0, os_disabled_upstream_count = 0,
     os_disabled_upstream_ifindex = replicate 8 0, os_globally_disabled = False\<rparr>"

record 'w offload_adapter_t =
  ad_name :: string
  ad_type :: offload_type_t
  ad_granularity :: offload_granularity_t
  ad_probe :: "('w \<Rightarrow> int) option"
  ad_init :: "'w \<Rightarrow> offload_err_t \<times> 'w"
  ad_shutdown :: "('w \<Rightarrow> 'w) option"
  ad_self_check :: "('w \<Rightarrow> offload_err_t \<times> 'w) option"
  ad_status :: "('w \<Rightarrow> offload_status_t) option"
  ad_refresh_active :: "('w \<Rightarrow> offload_err_t \<times> 'w) option"
  ad_disable_global :: "('w \<Rightarrow> offload_err_t \<times> 'w) option"
  ad_restore_global :: "('w \<Rightarrow> offload_err_t \<times> 'w) option"
  ad_disable_upstream :: "(int \<Rightarrow> 'w \<Rightarrow> offload_err_t \<times> 'w) option"
  ad_restore_upstream :: "(int \<Rightarrow> 'w \<Rightarrow> offload_err_t \<times> 'w) option"

section \<open>The null adapter\<close>

definition null_probe :: "'w \<Rightarrow> int" where "null_probe w = 0"
definition null_init :: "'w \<Rightarrow> offload_err_t \<times> 'w" where "null_init w = (OFFLOAD_OK, w)"
definition null_shutdown :: "'w \<Rightarrow> 'w" where "null_shutdown w = w"
definition null_self_check :: "'w \<Rightarrow> offload_err_t \<times> 'w" where "null_self_check w = (OFFLOAD_OK, w)"
definition null_status :: "'w \<Rightarrow> offload_status_t" where "null_status w = os_zero"
definition null_refresh_active :: "'w \<Rightarrow> offload_err_t \<times> 'w" where "null_refresh_active w = (OFFLOAD_OK, w)"
definition null_disable_global :: "'w \<Rightarrow> offload_err_t \<times> 'w" where "null_disable_global w = (OFFLOAD_OK, w)"
definition null_restore_global :: "'w \<Rightarrow> offload_err_t \<times> 'w" where "null_restore_global w = (OFFLOAD_OK, w)"

definition adapter_null :: "'w offload_adapter_t" where
  "adapter_null = \<lparr>ad_name = ''null'', ad_type = OFFLOAD_NONE, ad_granularity = OFFLOAD_GRAN_NONE,
     ad_probe = Some null_probe, ad_init = null_init, ad_shutdown = Some null_shutdown, ad_self_check = Some null_self_check,
     ad_status = Some null_status, ad_refresh_active = Some null_refresh_active,
     ad_disable_global = Some null_disable_global, ad_restore_global = Some null_restore_global,
     ad_disable_upstream = None, ad_restore_upstream = None\<rparr>"

section \<open>Registry and election\<close>

text \<open>
  \<open>g_adapters\<close> of the code is the list of the adapters compiled in, then the null adapter.
\<close>

definition g_adapters :: "'w offload_adapter_t list \<Rightarrow> 'w offload_adapter_t list" where
  "g_adapters compiled = compiled @ [adapter_null]"

fun select_loop :: "'w offload_adapter_t list \<Rightarrow> 'w \<Rightarrow> 'w offload_adapter_t option" where
  "select_loop [] w = None"
| "select_loop (a # as) w =
     (case ad_probe a of None \<Rightarrow> select_loop as w | Some probe \<Rightarrow> if probe w = 0 then Some a else select_loop as w)"

text \<open>The result and the new value of \<^verbatim>\<open>s_active\<close>.\<close>

definition offload_select_adapter ::
  "'w offload_adapter_t list \<Rightarrow> 'w \<Rightarrow> 'w offload_adapter_t option \<Rightarrow> 'w offload_adapter_t option \<times> 'w offload_adapter_t option" where
  "offload_select_adapter adapters w s_active =
     (case select_loop adapters w of Some a \<Rightarrow> (Some a, Some a) | None \<Rightarrow> (None, s_active))"

definition offload_active_adapter ::
  "'w offload_adapter_t list \<Rightarrow> 'w \<Rightarrow> 'w offload_adapter_t option \<Rightarrow> 'w offload_adapter_t option \<times> 'w offload_adapter_t option" where
  "offload_active_adapter adapters w s_active =
     (case s_active of None \<Rightarrow> offload_select_adapter adapters w s_active | Some a \<Rightarrow> (Some a, s_active))"

definition offload_set_active_adapter :: "'w offload_adapter_t option \<Rightarrow> 'w offload_adapter_t option" where
  "offload_set_active_adapter a = a"

section \<open>The contract of an adapter\<close>

text \<open>
  What the scheduler relies on.  \<open>ok\<close> is the part of the state the adapter is responsible for
  (with what it expects of the kernel), \<open>blocked w i\<close> says that the fast path through upstream
  \<open>i\<close> is shut.
\<close>

locale offload_contract =
  fixes A :: "'w offload_adapter_t" and ok :: "'w \<Rightarrow> bool" and blocked :: "'w \<Rightarrow> int \<Rightarrow> bool"
  assumes per_upstream_ops: "ad_granularity A = OFFLOAD_GRAN_PER_UPSTREAM \<Longrightarrow>
      ad_disable_upstream A \<noteq> None \<and> ad_disable_global A \<noteq> None \<and> ad_restore_global A \<noteq> None"
    and global_ops: "ad_granularity A = OFFLOAD_GRAN_GLOBAL \<Longrightarrow> ad_disable_global A \<noteq> None \<and> ad_restore_global A \<noteq> None"
    and refresh_ok: "ok w \<Longrightarrow> ad_refresh_active A = Some f \<Longrightarrow>
      ok (snd (f w)) \<and> (\<forall>i. blocked (snd (f w)) i = blocked w i)"
    and disable_global_ok: "ok w \<Longrightarrow> ad_disable_global A = Some f \<Longrightarrow>
      ok (snd (f w)) \<and> (\<forall>i. blocked w i \<longrightarrow> blocked (snd (f w)) i)"
    and restore_global_ok: "ok w \<Longrightarrow> ad_restore_global A = Some f \<Longrightarrow> ok (snd (f w))"
    and disable_upstream_ok: "ok w \<Longrightarrow> ad_disable_upstream A = Some g \<Longrightarrow>
      ok (snd (g i w)) \<and> (\<forall>j. blocked w j \<longrightarrow> blocked (snd (g i w)) j) \<and> (fst (g i w) = OFFLOAD_OK \<longrightarrow> blocked (snd (g i w)) i)"

interpretation null: offload_contract "adapter_null :: 'w offload_adapter_t" "\<lambda>_. True" "\<lambda>_ _. False"
  by unfold_locales (auto simp: adapter_null_def null_refresh_active_def null_disable_global_def)

section \<open>Properties\<close>

text \<open>
  The election always succeeds and is by priority: it returns the first adapter of the
  registry whose probe accepts the platform, and the null adapter when no other does; the
  elected adapter becomes the active one.
\<close>

lemma select_adapter_first_match:
  "\<exists>a pre post. offload_select_adapter (g_adapters compiled) w s_active = (Some a, Some a) \<and>
     g_adapters compiled = pre @ a # post \<and> (\<exists>p. ad_probe a = Some p \<and> p w = 0) \<and>
     list_all (\<lambda>b. \<not> (\<exists>p. ad_probe b = Some p \<and> p w = 0)) pre \<and>
     (list_all (\<lambda>b. \<not> (\<exists>p. ad_probe b = Some p \<and> p w = 0)) compiled \<longrightarrow> a = adapter_null)"
proof -
  have n: "ad_probe adapter_null = Some null_probe" "null_probe w = 0" by (simp_all add: adapter_null_def null_probe_def)
  have "\<exists>a pre post. select_loop (xs @ [adapter_null]) w = Some a \<and> xs @ [adapter_null] = pre @ a # post \<and>
     (\<exists>p. ad_probe a = Some p \<and> p w = 0) \<and> list_all (\<lambda>b. \<not> (\<exists>p. ad_probe b = Some p \<and> p w = 0)) pre \<and>
     (list_all (\<lambda>b. \<not> (\<exists>p. ad_probe b = Some p \<and> p w = 0)) xs \<longrightarrow> a = adapter_null)" for xs
  proof (induction xs)
    case Nil
    show ?case by (rule exI[of _ adapter_null], rule exI[of _ "[]"], rule exI[of _ "[]"]) (auto simp: n)
  next
    case (Cons x xs)
    show ?case
    proof (cases "\<exists>p. ad_probe x = Some p \<and> p w = 0")
      case True
      then show ?thesis by - (rule exI[of _ x], rule exI[of _ "[]"], rule exI[of _ "xs @ [adapter_null]"], auto)
    next
      case False
      then have "select_loop ((x # xs) @ [adapter_null]) w = select_loop (xs @ [adapter_null]) w" by (auto split: option.splits)
      moreover from Cons obtain a pre post where "select_loop (xs @ [adapter_null]) w = Some a" "xs @ [adapter_null] = pre @ a # post"
        "\<exists>p. ad_probe a = Some p \<and> p w = 0" "list_all (\<lambda>b. \<not> (\<exists>p. ad_probe b = Some p \<and> p w = 0)) pre"
        "list_all (\<lambda>b. \<not> (\<exists>p. ad_probe b = Some p \<and> p w = 0)) xs \<longrightarrow> a = adapter_null" by blast
      ultimately show ?thesis using False
        by - (rule exI[of _ a], rule exI[of _ "x # pre"], rule exI[of _ post], simp)
    qed
  qed
  from this[of compiled] obtain a pre post where "select_loop (g_adapters compiled) w = Some a" "g_adapters compiled = pre @ a # post"
    "\<exists>p. ad_probe a = Some p \<and> p w = 0" "list_all (\<lambda>b. \<not> (\<exists>p. ad_probe b = Some p \<and> p w = 0)) pre"
    "list_all (\<lambda>b. \<not> (\<exists>p. ad_probe b = Some p \<and> p w = 0)) compiled \<longrightarrow> a = adapter_null"
    unfolding g_adapters_def by blast
  then show ?thesis
    by - (rule exI[of _ a], rule exI[of _ pre], rule exI[of _ post], simp add: offload_select_adapter_def)
qed

lemma select_adapter_first_match_witness:
  "\<exists>a. offload_select_adapter (g_adapters []) () None = (Some a, Some a) \<and> ad_name a = ''null''"
  using select_adapter_first_match[of "[]" "()" None] by (auto simp: adapter_null_def)

end
