(* ===== verification/BoundedSet.thy ===== *)
theory BoundedSet
  imports HNC_Prelude
begin

text \<open>
  Sets of bounded size kept in an array and a counter, with removal by moving the last element
  into the hole.  Two components keep such a set (the disabled upstreams of the BPF adapter and
  the limited devices of the scheduler); the locale states their contract once.
\<close>

section \<open>Arrays with a counter\<close>

lemma take_swap_remove:
  assumes "i < n" and "n \<le> length xs"
  shows "mset (take (n - 1) (xs[i := xs ! (n - 1)])) = mset (take n xs) - {#xs ! i#}"
proof -
  obtain m where n: "n = Suc m" using assms(1) by (cases n) auto
  have tk: "take n xs = take m xs @ [xs ! m]" using assms(2) n by (simp add: take_Suc_conv_app_nth)
  show ?thesis
  proof (cases "i = m")
    case True
    then show ?thesis using tk n by simp
  next
    case False
    then have "i < m" using assms(1) n by simp
    then have "take m (xs[i := xs ! m]) = (take m xs)[i := xs ! m]" by (simp add: take_update_swap)
    moreover have "mset ((take m xs)[i := xs ! m]) = add_mset (xs ! m) (mset (take m xs) - {#xs ! i#})"
      using \<open>i < m\<close> assms(2) n by (subst mset_update) auto
    moreover have "xs ! i \<in># mset (take m xs)" using \<open>i < m\<close> assms(2) n by (auto simp: in_set_conv_nth)
    ultimately show ?thesis using tk n by simp
  qed
qed

lemma swap_remove_set:
  assumes "i < n" and "n \<le> length xs" and "distinct (take n xs)"
  shows "set (take (n - 1) (xs[i := xs ! (n - 1)])) = set (take n xs) - {xs ! i}"
    and "distinct (take (n - 1) (xs[i := xs ! (n - 1)]))"
proof -
  let ?l = "take (n - 1) (xs[i := xs ! (n - 1)])"
  note m = take_swap_remove[OF assms(1,2)]
  have d: "distinct (remove1 (xs ! i) (take n xs))" using assms(3) by (rule distinct_remove1)
  have mm: "mset ?l = mset (remove1 (xs ! i) (take n xs))" using m by simp
  show "distinct ?l" using d mm by (metis mset_eq_imp_distinct_iff)
  have "set ?l = set (remove1 (xs ! i) (take n xs))" using mm by (rule mset_eq_setD)
  then show "set ?l = set (take n xs) - {xs ! i}" using assms(3) by (simp add: set_remove1_eq)
qed

section \<open>The contract\<close>

locale bounded_set =
  fixes items :: "'s \<Rightarrow> 'e list" and add :: "'e \<Rightarrow> 's \<Rightarrow> 's" and remove :: "'e \<Rightarrow> 's \<Rightarrow> 's"
    and ok :: "'s \<Rightarrow> bool" and fits :: "'e \<Rightarrow> bool" and cap :: nat
  assumes ok_items: "ok s \<Longrightarrow> distinct (items s) \<and> length (items s) \<le> cap"
    and add_law: "ok s \<Longrightarrow> fits e \<Longrightarrow> ok (add e s) \<and>
      set (items (add e s)) = (if e \<in> set (items s) \<or> length (items s) < cap then insert e (set (items s)) else set (items s))"
    and remove_law: "ok s \<Longrightarrow> ok (remove e s) \<and> set (items (remove e s)) = set (items s) - {e}"
begin

lemma length_card: "ok s \<Longrightarrow> length (items s) = card (set (items s))"
  using ok_items by (simp add: distinct_card)

lemma add_keeps: "ok s \<Longrightarrow> fits e \<Longrightarrow> x \<in> set (items s) \<Longrightarrow> x \<in> set (items (add e s))"
  using add_law[of s e] by (auto split: if_splits)

lemma add_count:
  "ok s \<Longrightarrow> fits e \<Longrightarrow> length (items (add e s)) = (if e \<in> set (items s) \<or> cap \<le> length (items s) then length (items s) else length (items s) + 1)"
proof -
  assume s: "ok s" and f: "fits e"
  from add_law[OF s f] have a: "ok (add e s)"
    and st: "set (items (add e s)) = (if e \<in> set (items s) \<or> length (items s) < cap then insert e (set (items s)) else set (items s))" by auto
  show ?thesis using st unfolding length_card[OF a] length_card[OF s] by (auto simp: card_insert_if)
qed

lemma remove_count: "ok s \<Longrightarrow> length (items (remove e s)) = (if e \<in> set (items s) then length (items s) - 1 else length (items s))"
proof -
  assume s: "ok s"
  from remove_law[OF s, of e] have a: "ok (remove e s)" "set (items (remove e s)) = set (items s) - {e}" by auto
  show ?thesis unfolding length_card[OF a(1)] length_card[OF s] a(2) by (simp add: card_Diff_singleton_if)
qed

lemma fold_add:
  assumes "ok s" and "list_all fits es" and "card (set (items s) \<union> set es) \<le> cap"
  shows "ok (fold add es s) \<and> set (items (fold add es s)) = set (items s) \<union> set es"
  using assms
proof (induction es arbitrary: s)
  case (Cons e es)
  have sub: "set (items s) \<union> set (e # es) = insert e (set (items s)) \<union> set es" by auto
  have st: "set (items (add e s)) = insert e (set (items s))"
  proof (cases "e \<in> set (items s)")
    case True
    then show ?thesis using add_law[OF Cons.prems(1), of e] Cons.prems(2) by simp
  next
    case False
    have "card (insert e (set (items s))) \<le> card (set (items s) \<union> set (e # es))" by (intro card_mono) auto
    then have "length (items s) < cap" using False Cons.prems length_card by (simp add: card_insert_if)
    then show ?thesis using add_law[OF Cons.prems(1), of e] Cons.prems(2) by simp
  qed
  moreover have "ok (add e s)" using add_law[OF Cons.prems(1), of e] Cons.prems(2) by simp
  ultimately show ?case using Cons.IH[of "add e s"] Cons.prems(2,3) sub by simp
qed simp

end

end
