(* ===== verification/AdapterBpf.thy ===== *)
theory AdapterBpf
  imports Adapter BoundedSet
begin

text \<open>
  The BPF tethering adapter, \<^verbatim>\<open>daemon/hotspotd/offload/adapter_bpf.c\<close>.  The kernel's \<^verbatim>\<open>bpf\<close> system call is
  the parameter \<open>K\<close>, a record of functions on a kernel state; a traversal of a map by
  \<^verbatim>\<open>BPF_MAP_GET_NEXT_KEY\<close> is the list of keys that the successive calls return and the error number
  of the last one (the map of the kernel is finite).  The operations act on the pair of the
  adapter's static state and the kernel state; each is one critical section of \<^verbatim>\<open>s_lock\<close>, except
  the refresh, which has two with a sleep between.
\<close>

definition EPERM :: nat where "EPERM = 1"
definition ENOENT :: nat where "ENOENT = 2"
definition EBADF :: nat where "EBADF = 9"
definition EAGAIN :: nat where "EAGAIN = 11"
definition EACCES :: nat where "EACCES = 13"
definition EBUSY :: nat where "EBUSY = 16"
definition EINVAL :: nat where "EINVAL = 22"

lemmas errno_defs = EPERM_def ENOENT_def EBADF_def EAGAIN_def EACCES_def EBUSY_def EINVAL_def

record 'k bpf_kernel =
  k_stat :: "string \<Rightarrow> 'k \<Rightarrow> bool"
  k_obj_get :: "string \<Rightarrow> 'k \<Rightarrow> (nat + int) \<times> 'k"
  k_close :: "int \<Rightarrow> 'k \<Rightarrow> 'k"
  k_update :: "int \<Rightarrow> nat \<Rightarrow> 64 word \<Rightarrow> bool \<Rightarrow> 'k \<Rightarrow> nat \<times> 'k"
  k_keys :: "int \<Rightarrow> 'k \<Rightarrow> nat list \<times> nat"
  k_stats :: "int \<Rightarrow> nat \<Rightarrow> 'k \<Rightarrow> (64 word \<times> 64 word) option"
  k_info :: "int \<Rightarrow> 'k \<Rightarrow> (nat \<times> nat) option"
  k_sleep :: "nat \<Rightarrow> 'k \<Rightarrow> 'k"
  k_time :: "'k \<Rightarrow> int"

definition errno_to_offload :: "nat \<Rightarrow> offload_err_t" where
  "errno_to_offload e =
     (if e = 0 then OFFLOAD_OK else if e = EPERM \<or> e = EACCES then OFFLOAD_EPERM else if e = ENOENT then OFFLOAD_ENOENT
      else if e = EINVAL then OFFLOAD_EINVAL else if e = EAGAIN \<or> e = EBUSY then OFFLOAD_EAGAIN else OFFLOAD_EINTERNAL)"

definition BPF_LIMIT_MAP :: string where "BPF_LIMIT_MAP = ''/sys/fs/bpf/tethering/map_offload_tether_limit_map''"
definition BPF_STATS_MAP :: string where "BPF_STATS_MAP = ''/sys/fs/bpf/tethering/map_offload_tether_stats_map''"
definition BPF_ERROR_MAP :: string where "BPF_ERROR_MAP = ''/sys/fs/bpf/tethering/map_offload_tether_error_map''"
definition BPF_LIMIT_NONE :: "64 word" where "BPF_LIMIT_NONE = 0xFFFFFFFFFFFFFFFF"
definition BPF_LIMIT_ZERO :: "64 word" where "BPF_LIMIT_ZERO = 0"
definition ACTIVE_THRESHOLD_BYTES :: "64 word" where "ACTIVE_THRESHOLD_BYTES = 1048576"
definition ACTIVE_SAMPLE_INTERVAL :: nat where "ACTIVE_SAMPLE_INTERVAL = 5"
definition MAX_DISABLED_UPSTREAMS :: nat where "MAX_DISABLED_UPSTREAMS = 8"

record bpf_state =
  initialized :: bool
  fd_limit :: int
  fd_stats :: int
  fd_error :: int
  cached_active :: bool
  cached_refresh_ts :: int
  cached_delta_bytes :: "64 word"
  cached_last_total :: "64 word"
  disabled_upstream_ifindex :: "int list"
  disabled_upstream_count :: nat
  globally_disabled :: bool

definition bpf_state0 :: bpf_state where
  "bpf_state0 = \<lparr>initialized = False, fd_limit = - 1, fd_stats = - 1, fd_error = - 1, cached_active = False, cached_refresh_ts = 0,
     cached_delta_bytes = 0, cached_last_total = 0, disabled_upstream_ifindex = replicate MAX_DISABLED_UPSTREAMS 0,
     disabled_upstream_count = 0, globally_disabled = False\<rparr>"

type_synonym 'k bpf_world = "bpf_state \<times> 'k"

section \<open>File descriptors\<close>

text \<open>The error number (\<^const>\<open>None\<close>: success), the new descriptor and the kernel state.\<close>

definition reopen_fd :: "'k bpf_kernel \<Rightarrow> string \<Rightarrow> int \<Rightarrow> 'k \<Rightarrow> nat option \<times> int \<times> 'k" where
  "reopen_fd K path fd k =
     (let k1 = (if fd \<ge> 0 then k_close K fd k else k); fd1 = (if fd \<ge> 0 then - 1 else fd)
      in case k_obj_get K path k1 of (Inl e, k2) \<Rightarrow> (Some e, fd1, k2) | (Inr new_fd, k2) \<Rightarrow> (None, new_fd, k2))"

definition reopen_limit :: "'k bpf_kernel \<Rightarrow> 'k bpf_world \<Rightarrow> nat option \<times> 'k bpf_world" where
  "reopen_limit K = (\<lambda>(s, k). case reopen_fd K BPF_LIMIT_MAP (fd_limit s) k of (r, fd, k') \<Rightarrow> (r, s\<lparr>fd_limit := fd\<rparr>, k'))"

definition ensure_limit_fd :: "'k bpf_kernel \<Rightarrow> 'k bpf_world \<Rightarrow> nat option \<times> 'k bpf_world" where
  "ensure_limit_fd K w = (if fd_limit (fst w) \<ge> 0 then (None, w) else reopen_limit K w)"

definition ensure_stats_fd :: "'k bpf_kernel \<Rightarrow> 'k bpf_world \<Rightarrow> nat option \<times> 'k bpf_world" where
  "ensure_stats_fd K = (\<lambda>(s, k). if fd_stats s \<ge> 0 then (None, s, k)
     else case reopen_fd K BPF_STATS_MAP (fd_stats s) k of (r, fd, k') \<Rightarrow> (r, s\<lparr>fd_stats := fd\<rparr>, k'))"

section \<open>The set of disabled upstreams\<close>

definition disabled_items :: "bpf_state \<Rightarrow> int list" where
  "disabled_items s = take (disabled_upstream_count s) (disabled_upstream_ifindex s)"

definition disabled_set_contains :: "int \<Rightarrow> bpf_state \<Rightarrow> bool" where
  "disabled_set_contains ifindex s = (find_index (\<lambda>x. x = ifindex) (disabled_items s) \<noteq> None)"

definition disabled_set_add :: "int \<Rightarrow> bpf_state \<Rightarrow> bpf_state" where
  "disabled_set_add ifindex s =
     (if disabled_set_contains ifindex s then s
      else if disabled_upstream_count s \<ge> MAX_DISABLED_UPSTREAMS then s
      else s\<lparr>disabled_upstream_ifindex := (disabled_upstream_ifindex s)[disabled_upstream_count s := ifindex],
             disabled_upstream_count := disabled_upstream_count s + 1\<rparr>)"

definition disabled_set_remove :: "int \<Rightarrow> bpf_state \<Rightarrow> bpf_state" where
  "disabled_set_remove ifindex s =
     (case find_index (\<lambda>x. x = ifindex) (disabled_items s) of
        None \<Rightarrow> s
      | Some i \<Rightarrow> s\<lparr>disabled_upstream_ifindex := (disabled_upstream_ifindex s)[i := disabled_upstream_ifindex s ! (disabled_upstream_count s - 1)],
                    disabled_upstream_count := disabled_upstream_count s - 1\<rparr>)"

section \<open>Operations\<close>

definition stats_total_bytes :: "'k bpf_kernel \<Rightarrow> 'k bpf_world \<Rightarrow> 64 word \<times> 'k bpf_world" where
  "stats_total_bytes K w =
     (case ensure_stats_fd K w of
        (Some _, w') \<Rightarrow> (0, w')
      | (None, (s, k)) \<Rightarrow>
          (fold (\<lambda>key total. case k_stats K (fd_stats s) key k of Some (rx, tx) \<Rightarrow> total + (rx + tx) | None \<Rightarrow> total)
             (fst (k_keys K (fd_stats s) k)) 0, (s, k)))"

definition bpf_probe :: "'k bpf_kernel \<Rightarrow> 'k bpf_world \<Rightarrow> int" where
  "bpf_probe K = (\<lambda>(s, k). if \<not> k_stat K BPF_LIMIT_MAP k then - 1 else 0)"

definition bpf_init :: "'k bpf_kernel \<Rightarrow> 'k bpf_world \<Rightarrow> offload_err_t \<times> 'k bpf_world" where
  "bpf_init K w =
     (if initialized (fst w) then (OFFLOAD_OK, w)
      else case ensure_limit_fd K w of
        (Some e, w1) \<Rightarrow> (errno_to_offload e, w1)
      | (None, w1) \<Rightarrow>
          (case ensure_stats_fd K w1 of (_, (s2, k2)) \<Rightarrow>
            (case k_obj_get K BPF_ERROR_MAP k2 of (r, k3) \<Rightarrow>
              (OFFLOAD_OK, (s2\<lparr>fd_error := (case r of Inl _ \<Rightarrow> - 1 | Inr fd \<Rightarrow> fd), initialized := True\<rparr>, k3)))))"

definition close_fd :: "'k bpf_kernel \<Rightarrow> int \<Rightarrow> 'k \<Rightarrow> int \<times> 'k" where
  "close_fd K fd k = (if fd \<ge> 0 then (- 1, k_close K fd k) else (fd, k))"

definition bpf_shutdown :: "'k bpf_kernel \<Rightarrow> 'k bpf_world \<Rightarrow> 'k bpf_world" where
  "bpf_shutdown K = (\<lambda>(s, k).
     if \<not> initialized s then (s, k)
     else case close_fd K (fd_limit s) k of (l, k1) \<Rightarrow>
       (case close_fd K (fd_stats s) k1 of (t, k2) \<Rightarrow>
         (case close_fd K (fd_error s) k2 of (e, k3) \<Rightarrow>
           (s\<lparr>fd_limit := l, fd_stats := t, fd_error := e, initialized := False\<rparr>, k3))))"

definition bpf_self_check :: "'k bpf_kernel \<Rightarrow> 'k bpf_world \<Rightarrow> offload_err_t \<times> 'k bpf_world" where
  "bpf_self_check K w =
     (case ensure_limit_fd K w of
        (Some e, w1) \<Rightarrow> (errno_to_offload e, w1)
      | (None, w1) \<Rightarrow>
          (case k_info K (fd_limit (fst w1)) (snd w1) of
             None \<Rightarrow> (OFFLOAD_EINTERNAL, w1)
           | Some (key_size, value_size) \<Rightarrow> if key_size \<noteq> 4 \<or> value_size \<noteq> 8 then (OFFLOAD_EINTERNAL, w1) else (OFFLOAD_OK, w1)))"

definition bpf_status :: "'k bpf_world \<Rightarrow> offload_status_t" where
  "bpf_status w =
     (let s = fst w; n = min (disabled_upstream_count s) 8
      in \<lparr>os_active = cached_active s, os_last_refresh_ts = cached_refresh_ts s, os_last_delta_bytes = cached_delta_bytes s,
          os_disabled_upstream_count = disabled_upstream_count s,
          os_disabled_upstream_ifindex = take n (disabled_upstream_ifindex s) @ replicate (8 - n) 0,
          os_globally_disabled = globally_disabled s\<rparr>)"

text \<open>The two critical sections of the refresh; the first one ends it when the map is not there.\<close>

definition refresh_begin :: "'k bpf_kernel \<Rightarrow> 'k bpf_world \<Rightarrow> 64 word option \<times> 'k bpf_world" where
  "refresh_begin K w =
     (case stats_total_bytes K w of (t1, (s, k)) \<Rightarrow>
        if t1 = 0 \<and> fd_stats s < 0 then (None, (s\<lparr>cached_active := False\<rparr>, k)) else (Some t1, (s, k)))"

definition refresh_end :: "'k bpf_kernel \<Rightarrow> 64 word \<Rightarrow> 'k bpf_world \<Rightarrow> 'k bpf_world" where
  "refresh_end K t1 w =
     (case stats_total_bytes K w of (t2, (s, k)) \<Rightarrow>
        let delta = (if t2 \<ge> t1 then t2 - t1 else 0)
        in (s\<lparr>cached_delta_bytes := delta, cached_active := (delta \<ge> ACTIVE_THRESHOLD_BYTES),
              cached_refresh_ts := k_time K k, cached_last_total := t2\<rparr>, k))"

definition bpf_refresh_active :: "'k bpf_kernel \<Rightarrow> 'k bpf_world \<Rightarrow> offload_err_t \<times> 'k bpf_world" where
  "bpf_refresh_active K w =
     (case refresh_begin K w of
        (None, w1) \<Rightarrow> (OFFLOAD_ENOENT, w1)
      | (Some t1, (s, k)) \<Rightarrow> (OFFLOAD_OK, refresh_end K t1 (s, k_sleep K ACTIVE_SAMPLE_INTERVAL k)))"

text \<open>\<^verbatim>\<open>bpf_map_update_elem(s.fd_limit, ...)\<close>: the error number (0: success).\<close>

definition limit_update :: "'k bpf_kernel \<Rightarrow> nat \<Rightarrow> 64 word \<Rightarrow> bool \<Rightarrow> 'k bpf_world \<Rightarrow> nat \<times> 'k bpf_world" where
  "limit_update K key val exist = (\<lambda>(s, k). case k_update K (fd_limit s) key val exist k of (e, k') \<Rightarrow> (e, (s, k')))"

text \<open>The first attempt with the retry on a stale descriptor; \<open>Inl\<close> is the early return.\<close>

definition update_retry :: "'k bpf_kernel \<Rightarrow> nat \<Rightarrow> 64 word \<Rightarrow> 'k bpf_world \<Rightarrow> (offload_err_t + nat) \<times> 'k bpf_world" where
  "update_retry K key val w =
     (case limit_update K key val True w of (e1, w1) \<Rightarrow>
        if e1 = EBADF then
          (case reopen_limit K w1 of
             (Some e, w2) \<Rightarrow> (Inl (errno_to_offload e), w2)
           | (None, w2) \<Rightarrow> (case limit_update K key val True w2 of (e2, w3) \<Rightarrow> (Inr e2, w3)))
        else (Inr e1, w1))"

definition upd_set :: "(bpf_state \<Rightarrow> bpf_state) \<Rightarrow> 'k bpf_world \<Rightarrow> 'k bpf_world" where
  "upd_set f w = (f (fst w), snd w)"

definition bpf_disable_upstream :: "'k bpf_kernel \<Rightarrow> int \<Rightarrow> 'k bpf_world \<Rightarrow> offload_err_t \<times> 'k bpf_world" where
  "bpf_disable_upstream K ifindex w =
     (if ifindex \<le> 0 then (OFFLOAD_EINVAL, w)
      else case ensure_limit_fd K w of
        (Some e, w1) \<Rightarrow> (errno_to_offload e, w1)
      | (None, w1) \<Rightarrow>
          (case update_retry K (nat ifindex) BPF_LIMIT_ZERO w1 of
             (Inl ret, w2) \<Rightarrow> (ret, w2)
           | (Inr e, w2) \<Rightarrow>
               if e = 0 then (OFFLOAD_OK, upd_set (disabled_set_add ifindex) w2)
               else if e = ENOENT then
                 (case limit_update K (nat ifindex) BPF_LIMIT_ZERO False w2 of (e3, w3) \<Rightarrow>
                    if e3 = 0 then (OFFLOAD_OK, upd_set (disabled_set_add ifindex) w3) else (errno_to_offload e3, w3))
               else (errno_to_offload e, w2)))"

definition bpf_restore_upstream :: "'k bpf_kernel \<Rightarrow> int \<Rightarrow> 'k bpf_world \<Rightarrow> offload_err_t \<times> 'k bpf_world" where
  "bpf_restore_upstream K ifindex w =
     (if ifindex \<le> 0 then (OFFLOAD_EINVAL, w)
      else case ensure_limit_fd K w of
        (Some e, w1) \<Rightarrow> (errno_to_offload e, w1)
      | (None, w1) \<Rightarrow>
          (case update_retry K (nat ifindex) BPF_LIMIT_NONE w1 of
             (Inl ret, w2) \<Rightarrow> (ret, w2)
           | (Inr e, w2) \<Rightarrow>
               if e = 0 \<or> e = ENOENT then (OFFLOAD_OK, upd_set (disabled_set_remove ifindex) w2)
               else (errno_to_offload e, w2)))"

text \<open>\<^verbatim>\<open>(int)next_key\<close>\<close>

definition i32 :: "nat \<Rightarrow> int" where
  "i32 n = (if n < 2 ^ 31 then int n else int n - 2 ^ 32)"

text \<open>The loop over the keys of a traversal: \<open>touched\<close> and \<open>errs\<close> count the successes and failures.\<close>

fun global_loop :: "'k bpf_kernel \<Rightarrow> 64 word \<Rightarrow> (int \<Rightarrow> bpf_state \<Rightarrow> bpf_state) \<Rightarrow> nat list \<Rightarrow> nat \<Rightarrow> nat \<Rightarrow> 'k bpf_world \<Rightarrow> nat \<times> nat \<times> 'k bpf_world" where
  "global_loop K val f [] touched errs w = (touched, errs, w)"
| "global_loop K val f (key # keys) touched errs w =
     (case limit_update K key val True w of (e, w1) \<Rightarrow>
        if e = 0 then global_loop K val f keys (touched + 1) errs (upd_set (f (i32 key)) w1)
        else global_loop K val f keys touched (errs + 1) w1)"

definition global_ret :: "nat \<Rightarrow> nat \<Rightarrow> nat \<Rightarrow> offload_err_t" where
  "global_ret touched errs iter_errno =
     (if errs = 0 then OFFLOAD_OK else if iter_errno \<noteq> 0 \<and> touched = 0 then errno_to_offload iter_errno
      else if touched > 0 then OFFLOAD_OK else OFFLOAD_EINTERNAL)"

definition bpf_disable_global :: "'k bpf_kernel \<Rightarrow> 'k bpf_world \<Rightarrow> offload_err_t \<times> 'k bpf_world" where
  "bpf_disable_global K w =
     (case ensure_limit_fd K w of
        (Some e, w1) \<Rightarrow> (errno_to_offload e, w1)
      | (None, w1) \<Rightarrow>
          (case k_keys K (fd_limit (fst w1)) (snd w1) of (keys, last_errno) \<Rightarrow>
             (case global_loop K BPF_LIMIT_ZERO disabled_set_add keys 0 0 w1 of (touched, errs0, w2) \<Rightarrow>
                (let iter_errno = (if last_errno = ENOENT then 0 else last_errno); errs = (if last_errno = ENOENT then errs0 else errs0 + 1);
                     w3 = upd_set (\<lambda>s. s\<lparr>globally_disabled := (if touched > 0 \<and> errs = 0 then True else globally_disabled s)\<rparr>) w2
                 in (global_ret touched errs iter_errno, w3)))))"

definition bpf_restore_global :: "'k bpf_kernel \<Rightarrow> 'k bpf_world \<Rightarrow> offload_err_t \<times> 'k bpf_world" where
  "bpf_restore_global K w =
     (case ensure_limit_fd K w of
        (Some e, w1) \<Rightarrow> (errno_to_offload e, w1)
      | (None, w1) \<Rightarrow>
          (case k_keys K (fd_limit (fst w1)) (snd w1) of (keys, last_errno) \<Rightarrow>
             (case global_loop K BPF_LIMIT_NONE disabled_set_remove keys 0 0 w1 of (touched, errs0, w2) \<Rightarrow>
                (let iter_errno = (if last_errno = ENOENT then 0 else last_errno); errs = (if last_errno = ENOENT then errs0 else errs0 + 1);
                     w3 = (if errs = 0 then upd_set (\<lambda>s. s\<lparr>globally_disabled := False, disabled_upstream_count := 0\<rparr>) w2 else w2)
                 in (global_ret touched errs iter_errno, w3)))))"

definition adapter_bpf :: "'k bpf_kernel \<Rightarrow> 'k bpf_world offload_adapter_t" where
  "adapter_bpf K = \<lparr>ad_name = ''bpf'', ad_type = OFFLOAD_QCOM_BPF, ad_granularity = OFFLOAD_GRAN_PER_UPSTREAM,
     ad_probe = Some (bpf_probe K), ad_init = bpf_init K, ad_shutdown = Some (bpf_shutdown K), ad_self_check = Some (bpf_self_check K),
     ad_status = Some bpf_status, ad_refresh_active = Some (bpf_refresh_active K),
     ad_disable_global = Some (bpf_disable_global K), ad_restore_global = Some (bpf_restore_global K),
     ad_disable_upstream = Some (bpf_disable_upstream K), ad_restore_upstream = Some (bpf_restore_upstream K)\<rparr>"

section \<open>The disabled set\<close>

definition disabled_ok :: "bpf_state \<Rightarrow> bool" where
  "disabled_ok s \<longleftrightarrow> length (disabled_upstream_ifindex s) = MAX_DISABLED_UPSTREAMS \<and>
     disabled_upstream_count s \<le> MAX_DISABLED_UPSTREAMS \<and> distinct (disabled_items s)"

lemma length_disabled_items: "disabled_ok s \<Longrightarrow> length (disabled_items s) = disabled_upstream_count s"
  by (simp add: disabled_ok_def disabled_items_def)

lemma disabled_set_contains_iff: "disabled_set_contains i s \<longleftrightarrow> i \<in> set (disabled_items s)"
  by (auto simp: disabled_set_contains_def find_index_None)

interpretation disabled: bounded_set disabled_items disabled_set_add disabled_set_remove disabled_ok "\<lambda>_. True" MAX_DISABLED_UPSTREAMS
proof
  fix s e assume s: "disabled_ok s"
  then show "distinct (disabled_items s) \<and> length (disabled_items s) \<le> MAX_DISABLED_UPSTREAMS"
    by (simp add: length_disabled_items) (simp add: disabled_ok_def)
  show "disabled_ok (disabled_set_add e s) \<and> set (disabled_items (disabled_set_add e s)) =
      (if e \<in> set (disabled_items s) \<or> length (disabled_items s) < MAX_DISABLED_UPSTREAMS then insert e (set (disabled_items s)) else set (disabled_items s))"
  proof (cases "e \<in> set (disabled_items s) \<or> MAX_DISABLED_UPSTREAMS \<le> disabled_upstream_count s")
    case True
    then show ?thesis using s by (auto simp: disabled_set_add_def disabled_set_contains_iff length_disabled_items insert_absorb)
  next
    case False
    then have "disabled_items (disabled_set_add e s) = disabled_items s @ [e]"
      using s by (simp add: disabled_set_add_def disabled_set_contains_iff disabled_items_def disabled_ok_def take_Suc_update)
    with False s show ?thesis
      by (simp add: length_disabled_items) (simp add: disabled_ok_def disabled_set_add_def disabled_set_contains_iff)
  qed
  show "disabled_ok (disabled_set_remove e s) \<and> set (disabled_items (disabled_set_remove e s)) = set (disabled_items s) - {e}"
  proof (cases "find_index (\<lambda>x. x = e) (disabled_items s)")
    case None
    then have "e \<notin> set (disabled_items s)" by (auto simp: find_index_None)
    with None s show ?thesis by (simp add: disabled_set_remove_def)
  next
    case (Some i)
    let ?n = "disabled_upstream_count s" and ?xs = "disabled_upstream_ifindex s"
    from find_index_Some[OF Some] s have i: "i < ?n" "?n \<le> length ?xs" "?xs ! i = e" "distinct (take ?n ?xs)"
      by (auto simp: disabled_items_def disabled_ok_def)
    have "?n - 1 \<le> MAX_DISABLED_UPSTREAMS" using s by (simp add: disabled_ok_def le_diff_conv)
    with swap_remove_set[OF i(1,2,4)] i s Some show ?thesis
      by (simp add: disabled_set_remove_def disabled_items_def disabled_ok_def)
  qed
qed

section \<open>What the kernel promises\<close>

text \<open>
  What the adapter relies on of \<^verbatim>\<open>bpf(2)\<close>, through two views of a kernel state: the contents of the map
  that is pinned at a path, and the map that a descriptor of the process refers to (\<^const>\<open>None\<close>: it is not open on a map).
  \<^verbatim>\<open>BPF_OBJ_GET\<close> returns a new descriptor of the map at its path, or fails with an error number; \<^verbatim>\<open>close\<close> gives the descriptor
  up; \<^verbatim>\<open>BPF_MAP_UPDATE_ELEM\<close> writes at most the map its descriptor refers to, and nothing when it fails; it does not
  succeed on a descriptor without a map, and its error there is not \<^verbatim>\<open>ENOENT\<close>.  On the limit map, whose values are 64-bit numbers, a successful update
  sets the value of the key (with \<^verbatim>\<open>BPF_EXIST\<close> only when the key is there), and with \<^verbatim>\<open>BPF_EXIST\<close> the error
  \<^verbatim>\<open>ENOENT\<close> means that the key is missing.  The sleep of the refresh changes neither view: what other processes write meanwhile
  is counted before or after the refresh, which touches the statistics map only.  A path stays pinned to one map.
\<close>

record 'k bpf_view =
  v_map :: "'k \<Rightarrow> string \<Rightarrow> nat \<Rightarrow> 64 word option"
  v_fd :: "'k \<Rightarrow> int \<Rightarrow> string option"

definition kernel_maps :: "'k bpf_kernel \<Rightarrow> 'k bpf_view \<Rightarrow> bool" where
  "kernel_maps K V \<longleftrightarrow>
     (\<forall>path k r k'. k_obj_get K path k = (r, k') \<longrightarrow> v_map V k' = v_map V k \<and>
        (case r of Inl e \<Rightarrow> e \<noteq> 0 \<and> v_fd V k' = v_fd V k
         | Inr fd \<Rightarrow> 0 \<le> fd \<and> v_fd V k fd = None \<and> v_fd V k' = (v_fd V k)(fd \<mapsto> path))) \<and>
     (\<forall>fd k. v_map V (k_close K fd k) = v_map V k \<and> v_fd V (k_close K fd k) = (v_fd V k)(fd := None)) \<and>
     (\<forall>n k. v_map V (k_sleep K n k) = v_map V k \<and> v_fd V (k_sleep K n k) = v_fd V k) \<and>
     (\<forall>fd key val exist k e k'. k_update K fd key val exist k = (e, k') \<longrightarrow>
        v_fd V k' = v_fd V k \<and> (\<forall>path. v_fd V k fd \<noteq> Some path \<longrightarrow> v_map V k' path = v_map V k path) \<and>
        (e \<noteq> 0 \<longrightarrow> v_map V k' = v_map V k) \<and> (v_fd V k fd = None \<longrightarrow> e \<noteq> 0 \<and> e \<noteq> ENOENT) \<and>
        (v_fd V k fd = Some BPF_LIMIT_MAP \<longrightarrow>
           (e = 0 \<longrightarrow> v_map V k' BPF_LIMIT_MAP = (v_map V k BPF_LIMIT_MAP)(key \<mapsto> val) \<and> (exist \<longrightarrow> key \<in> dom (v_map V k BPF_LIMIT_MAP))) \<and>
           (exist \<and> e = ENOENT \<longrightarrow> key \<notin> dom (v_map V k BPF_LIMIT_MAP))))"

text \<open>The limit map of a kernel state, and the state in which exactly one entry of it has another value.\<close>

abbreviation limit_map :: "'k bpf_view \<Rightarrow> 'k \<Rightarrow> nat \<Rightarrow> 64 word option" where
  "limit_map V k \<equiv> v_map V k BPF_LIMIT_MAP"

abbreviation maps_with :: "'k bpf_view \<Rightarrow> 'k \<Rightarrow> nat \<Rightarrow> 64 word option \<Rightarrow> string \<Rightarrow> nat \<Rightarrow> 64 word option" where
  "maps_with V k key x \<equiv> (v_map V k)(BPF_LIMIT_MAP := (limit_map V k)(key := x))"

text \<open>The descriptor of the limit map is closed, stale, or open on the limit map; and all three of the adapter are not stale.\<close>

definition limit_fd_ok :: "'k bpf_view \<Rightarrow> 'k bpf_world \<Rightarrow> bool" where
  "limit_fd_ok V w \<longleftrightarrow> fd_limit (fst w) < 0 \<or> v_fd V (snd w) (fd_limit (fst w)) \<in> {None, Some BPF_LIMIT_MAP}"

definition fds_ok :: "'k bpf_view \<Rightarrow> 'k bpf_world \<Rightarrow> bool" where
  "fds_ok V w \<longleftrightarrow>
     (0 \<le> fd_limit (fst w) \<longrightarrow> v_fd V (snd w) (fd_limit (fst w)) = Some BPF_LIMIT_MAP) \<and>
     (0 \<le> fd_stats (fst w) \<longrightarrow> v_fd V (snd w) (fd_stats (fst w)) = Some BPF_STATS_MAP) \<and>
     (0 \<le> fd_error (fst w) \<longrightarrow> v_fd V (snd w) (fd_error (fst w)) = Some BPF_ERROR_MAP)"

definition bpf_ok :: "'k bpf_kernel \<Rightarrow> 'k bpf_view \<Rightarrow> 'k bpf_world \<Rightarrow> bool" where
  "bpf_ok K V w \<longleftrightarrow> kernel_maps K V \<and> disabled_ok (fst w) \<and> fds_ok V w"

definition bpf_blocked :: "'k bpf_view \<Rightarrow> 'k bpf_world \<Rightarrow> int \<Rightarrow> bool" where
  "bpf_blocked V w i \<longleftrightarrow> 0 < i \<and> limit_map V (snd w) (nat i) = Some 0"

lemma map_paths_distinct [simp]:
  "BPF_LIMIT_MAP \<noteq> BPF_STATS_MAP" "BPF_STATS_MAP \<noteq> BPF_LIMIT_MAP" "BPF_LIMIT_MAP \<noteq> BPF_ERROR_MAP" "BPF_ERROR_MAP \<noteq> BPF_LIMIT_MAP"
  "BPF_STATS_MAP \<noteq> BPF_ERROR_MAP" "BPF_ERROR_MAP \<noteq> BPF_STATS_MAP"
  by (simp_all add: BPF_LIMIT_MAP_def BPF_STATS_MAP_def BPF_ERROR_MAP_def)

lemma fds_limit_ok: "fds_ok V w \<Longrightarrow> limit_fd_ok V w"
  by (auto simp: fds_ok_def limit_fd_ok_def)

lemma kernel_obj_get:
  assumes "kernel_maps K V" and "k_obj_get K path k = (r, k')"
  shows "v_map V k' = v_map V k \<and> (case r of Inl e \<Rightarrow> e \<noteq> 0 \<and> v_fd V k' = v_fd V k
     | Inr fd \<Rightarrow> 0 \<le> fd \<and> v_fd V k fd = None \<and> v_fd V k' = (v_fd V k)(fd \<mapsto> path))"
  using assms(1)[unfolded kernel_maps_def, THEN conjunct1, rule_format, OF assms(2)] .

lemma kernel_close: "kernel_maps K V \<Longrightarrow> v_map V (k_close K fd k) = v_map V k \<and> v_fd V (k_close K fd k) = (v_fd V k)(fd := None)"
  unfolding kernel_maps_def by blast

lemma kernel_sleep: "kernel_maps K V \<Longrightarrow> v_map V (k_sleep K n k) = v_map V k \<and> v_fd V (k_sleep K n k) = v_fd V k"
  unfolding kernel_maps_def by blast

lemma kernel_update:
  assumes "kernel_maps K V" and "k_update K fd key val exist k = (e, k')"
  shows "v_fd V k' = v_fd V k \<and> (\<forall>path. v_fd V k fd \<noteq> Some path \<longrightarrow> v_map V k' path = v_map V k path) \<and>
    (e \<noteq> 0 \<longrightarrow> v_map V k' = v_map V k) \<and> (v_fd V k fd = None \<longrightarrow> e \<noteq> 0 \<and> e \<noteq> ENOENT) \<and>
    (v_fd V k fd = Some BPF_LIMIT_MAP \<longrightarrow>
       (e = 0 \<longrightarrow> limit_map V k' = (limit_map V k)(key \<mapsto> val) \<and> (exist \<longrightarrow> key \<in> dom (limit_map V k))) \<and>
       (exist \<and> e = ENOENT \<longrightarrow> key \<notin> dom (limit_map V k)))"
  using assms unfolding kernel_maps_def by blast

text \<open>An update through a descriptor that is stale or on the limit map writes the one entry or nothing.\<close>

lemma kernel_update_limit:
  assumes "kernel_maps K V" and "k_update K fd key val exist k = (e, k')" and "v_fd V k fd \<in> {None, Some BPF_LIMIT_MAP}"
  shows "v_fd V k' = v_fd V k \<and> v_map V k' = (if e = 0 then maps_with V k key (Some val) else v_map V k) \<and>
    (e = 0 \<and> exist \<longrightarrow> key \<in> dom (limit_map V k)) \<and> (exist \<and> e = ENOENT \<longrightarrow> key \<notin> dom (limit_map V k))"
proof -
  note u = kernel_update[OF assms(1,2)]
  show ?thesis
  proof (cases "e = 0")
    case True
    then have f: "v_fd V k fd = Some BPF_LIMIT_MAP" using u assms(3) by auto
    have "v_map V k' path = maps_with V k key (Some val) path" for path using u f True by (cases "path = BPF_LIMIT_MAP") auto
    with u f True show ?thesis by (auto simp: ENOENT_def)
  next
    case False
    then show ?thesis using u assms(3) by auto
  qed
qed

lemma errno_to_offload_OK: "errno_to_offload e = OFFLOAD_OK \<longleftrightarrow> e = 0"
  by (auto simp: errno_to_offload_def)

text \<open>Opening descriptors changes neither a map nor the disabled set.\<close>

definition same_sets :: "bpf_state \<Rightarrow> bpf_state \<Rightarrow> bool" where
  "same_sets s s' \<longleftrightarrow> disabled_upstream_ifindex s' = disabled_upstream_ifindex s \<and>
     disabled_upstream_count s' = disabled_upstream_count s \<and> globally_disabled s' = globally_disabled s"

lemma same_sets_refl [simp]: "same_sets s s"
  by (simp add: same_sets_def)

lemma same_sets_trans: "same_sets a b \<Longrightarrow> same_sets b c \<Longrightarrow> same_sets a c"
  by (simp add: same_sets_def)

lemma same_sets_items: "same_sets s s' \<Longrightarrow> disabled_items s' = disabled_items s \<and> disabled_ok s' = disabled_ok s"
  by (simp add: same_sets_def disabled_items_def disabled_ok_def)

text \<open>Two worlds with the same maps and the same disabled set; \<open>keeps_fds\<close>: the descriptors stay in order.\<close>

definition same_maps :: "'k bpf_view \<Rightarrow> 'k bpf_world \<Rightarrow> 'k bpf_world \<Rightarrow> bool" where
  "same_maps V w w' \<longleftrightarrow> v_map V (snd w') = v_map V (snd w) \<and> same_sets (fst w) (fst w')"

definition keeps_fds :: "'k bpf_view \<Rightarrow> 'k bpf_world \<Rightarrow> 'k bpf_world \<Rightarrow> bool" where
  "keeps_fds V w w' \<longleftrightarrow> (fds_ok V w \<longrightarrow> fds_ok V w') \<and> (limit_fd_ok V w \<longrightarrow> limit_fd_ok V w')"

lemma keeps_fds_refl [simp]: "keeps_fds V w w"
  by (simp add: keeps_fds_def)

lemma keeps_fds_trans: "keeps_fds V a b \<Longrightarrow> keeps_fds V b c \<Longrightarrow> keeps_fds V a c"
  by (simp add: keeps_fds_def)

lemma same_maps_refl [simp]: "same_maps V w w"
  by (simp add: same_maps_def)

lemma same_maps_trans: "same_maps V a b \<Longrightarrow> same_maps V b c \<Longrightarrow> same_maps V a c"
  by (auto simp: same_maps_def intro: same_sets_trans)

text \<open>The descriptors depend on three fields and the table of the kernel only.\<close>

lemma keeps_fds_cong:
  assumes "fd_limit (fst w') = fd_limit (fst w)" and "fd_stats (fst w') = fd_stats (fst w)" and "fd_error (fst w') = fd_error (fst w)"
    and "v_fd V (snd w') = v_fd V (snd w)"
  shows "keeps_fds V w w'"
  using assms by (simp add: keeps_fds_def fds_ok_def limit_fd_ok_def)

lemma set_fds [simp]:
  "fd_limit (disabled_set_add i s) = fd_limit s" "fd_stats (disabled_set_add i s) = fd_stats s" "fd_error (disabled_set_add i s) = fd_error s"
  "fd_limit (disabled_set_remove i s) = fd_limit s" "fd_stats (disabled_set_remove i s) = fd_stats s" "fd_error (disabled_set_remove i s) = fd_error s"
  by (simp_all add: disabled_set_add_def disabled_set_remove_def split: option.split)

lemma upd_set_fds: "fd_limit (f (fst w)) = fd_limit (fst w) \<Longrightarrow> fd_stats (f (fst w)) = fd_stats (fst w) \<Longrightarrow>
    fd_error (f (fst w)) = fd_error (fst w) \<Longrightarrow> keeps_fds V w (upd_set f w)"
  by (rule keeps_fds_cong) (simp_all add: upd_set_def)

lemma reopen_fd_kernel:
  assumes "kernel_maps K V" and "reopen_fd K path fd k = (r, fd', k')"
  shows "v_map V k' = v_map V k \<and> r \<noteq> Some 0 \<and>
    (if r = None then 0 \<le> fd' \<and> (fd' = fd \<or> v_fd V k fd' = None) \<and> v_fd V k' fd' = Some path else fd' < 0 \<and> (fd < 0 \<longrightarrow> fd' = fd)) \<and>
    (\<forall>x. x \<noteq> fd \<and> x \<noteq> fd' \<longrightarrow> v_fd V k' x = v_fd V k x)"
proof -
  define k1 where "k1 = (if fd \<ge> 0 then k_close K fd k else k)"
  have k1: "v_map V k1 = v_map V k" "v_fd V k1 = (if fd \<ge> 0 then (v_fd V k)(fd := None) else v_fd V k)"
    using kernel_close[OF assms(1), of fd k] by (simp_all add: k1_def)
  obtain q k2 where q: "k_obj_get K path k1 = (q, k2)" by (rule prod.exhaust)
  show ?thesis using kernel_obj_get[OF assms(1) q] assms(2) k1 q
    by (cases q) (auto simp: reopen_fd_def k1_def[symmetric] Let_def split: if_splits)
qed

lemma reopen_limit_same:
  assumes "kernel_maps K V" and "reopen_limit K w = (r, w')"
  shows "same_maps V w w' \<and> keeps_fds V w w' \<and> r \<noteq> Some 0 \<and> limit_fd_ok V w'"
proof -
  obtain s k where w: "w = (s, k)" by (rule prod.exhaust)
  obtain fd k' where o: "reopen_fd K BPF_LIMIT_MAP (fd_limit s) k = (r, fd, k')" "w' = (s\<lparr>fd_limit := fd\<rparr>, k')"
    using assms(2) w by (auto simp: reopen_limit_def split: prod.splits)
  note f = reopen_fd_kernel[OF assms(1) o(1)]
  have l: "limit_fd_ok V w'" using f o(2) by (cases r) (auto simp: limit_fd_ok_def)
  have other: "0 \<le> x \<Longrightarrow> v_fd V k x = Some p \<Longrightarrow> p \<noteq> BPF_LIMIT_MAP \<Longrightarrow>
      (0 \<le> fd_limit s \<longrightarrow> v_fd V k (fd_limit s) = Some BPF_LIMIT_MAP) \<Longrightarrow> v_fd V k' x = Some p" for x p
    using f by (cases "x = fd_limit s"; cases "x = fd"; cases r) auto
  have "fds_ok V w \<Longrightarrow> fds_ok V w'" using other f w o(2) by (cases r) (auto simp: fds_ok_def)
  with l f w o(2) show ?thesis by (auto simp: keeps_fds_def same_maps_def same_sets_def)
qed

lemma ensure_limit_same:
  assumes "kernel_maps K V" and "ensure_limit_fd K w = (r, w')"
  shows "same_maps V w w' \<and> keeps_fds V w w' \<and> r \<noteq> Some 0 \<and> (limit_fd_ok V w \<longrightarrow> limit_fd_ok V w')"
  using assms reopen_limit_same[OF assms(1), of w r w'] by (auto simp: ensure_limit_fd_def split: if_splits)

lemma ensure_stats_same:
  assumes "kernel_maps K V" and "ensure_stats_fd K w = (r, w')"
  shows "same_maps V w w' \<and> (fds_ok V w \<longrightarrow> fds_ok V w')"
proof (cases "fd_stats (fst w) \<ge> 0")
  case True
  then show ?thesis using assms(2) by (auto simp: ensure_stats_fd_def split: prod.splits)
next
  case False
  obtain s k where w: "w = (s, k)" by (rule prod.exhaust)
  obtain fd k' where o: "reopen_fd K BPF_STATS_MAP (fd_stats s) k = (r, fd, k')" "w' = (s\<lparr>fd_stats := fd\<rparr>, k')"
    using assms(2) w False by (auto simp: ensure_stats_fd_def split: prod.splits)
  note f = reopen_fd_kernel[OF assms(1) o(1)]
  have other: "0 \<le> x \<Longrightarrow> v_fd V k x = Some p \<Longrightarrow> v_fd V k' x = Some p" for x p
    using f False w by (cases "x = fd_stats s"; cases "x = fd"; cases r) auto
  have "fds_ok V w \<Longrightarrow> fds_ok V w'" using other f w o(2) by (cases r) (auto simp: fds_ok_def)
  with f w o(2) show ?thesis by (auto simp: same_maps_def same_sets_def)
qed

lemma limit_update_kernel:
  assumes "kernel_maps K V" and "limit_update K key val exist w = (e, w')" and "0 \<le> fd_limit (fst w)" and "limit_fd_ok V w"
  shows "fst w' = fst w \<and> keeps_fds V w w' \<and> v_map V (snd w') = (if e = 0 then maps_with V (snd w) key (Some val) else v_map V (snd w)) \<and>
     (e = 0 \<and> exist \<longrightarrow> key \<in> dom (limit_map V (snd w))) \<and> (exist \<and> e = ENOENT \<longrightarrow> key \<notin> dom (limit_map V (snd w)))"
proof -
  obtain s k where w: "w = (s, k)" by (rule prod.exhaust)
  obtain k' where u: "k_update K (fd_limit s) key val exist k = (e, k')" "w' = (s, k')"
    using assms(2) w by (auto simp: limit_update_def split: prod.splits)
  have "v_fd V k (fd_limit s) \<in> {None, Some BPF_LIMIT_MAP}" using assms(3,4) w by (auto simp: limit_fd_ok_def)
  note l = kernel_update_limit[OF assms(1) u(1) this]
  then have "keeps_fds V w w'" using u w by (intro keeps_fds_cong) simp_all
  with l u w show ?thesis by auto
qed

lemma reopen_limit_open: "kernel_maps K V \<Longrightarrow> reopen_limit K w = (None, w') \<Longrightarrow> 0 \<le> fd_limit (fst w')"
  using reopen_fd_kernel[of K V BPF_LIMIT_MAP "fd_limit (fst w)" "snd w" None] by (auto simp: reopen_limit_def split: prod.splits)

lemma ensure_limit_open: "kernel_maps K V \<Longrightarrow> ensure_limit_fd K w = (None, w') \<Longrightarrow> 0 \<le> fd_limit (fst w')"
  using reopen_limit_open[of K V w w'] by (auto simp: ensure_limit_fd_def split: if_splits)

lemma update_retry_cases:
  assumes "kernel_maps K V" and "update_retry K key val w = (r, w')" and "0 \<le> fd_limit (fst w)" and "limit_fd_ok V w"
  shows "same_sets (fst w) (fst w') \<and> keeps_fds V w w' \<and>
     (case r of Inl e \<Rightarrow> e \<noteq> OFFLOAD_OK \<and> v_map V (snd w') = v_map V (snd w)
      | Inr e \<Rightarrow> 0 \<le> fd_limit (fst w') \<and> v_map V (snd w') = (if e = 0 then maps_with V (snd w) key (Some val) else v_map V (snd w)) \<and>
          (e = 0 \<longrightarrow> key \<in> dom (limit_map V (snd w))) \<and> (e = ENOENT \<longrightarrow> key \<notin> dom (limit_map V (snd w))))"
proof -
  obtain e1 w1 where u1: "limit_update K key val True w = (e1, w1)" by (rule prod.exhaust)
  note k1 = limit_update_kernel[OF assms(1) u1 assms(3,4)]
  show ?thesis
  proof (cases "e1 = EBADF")
    case False
    then have "r = Inr e1" "w' = w1" using assms(2) u1 by (simp_all add: update_retry_def)
    with k1 assms(3) show ?thesis by simp
  next
    case True
    then have l1: "v_map V (snd w1) = v_map V (snd w)" "fst w1 = fst w" using k1 by (auto simp: errno_defs)
    obtain r2 w2 where o: "reopen_limit K w1 = (r2, w2)" by (rule prod.exhaust)
    note k2 = reopen_limit_same[OF assms(1) o]
    have s2: "same_sets (fst w) (fst w2)" "v_map V (snd w2) = v_map V (snd w)" using k2 l1 by (simp_all add: same_maps_def)
    have f2: "keeps_fds V w w2" using k1 k2 by (metis keeps_fds_trans)
    show ?thesis
    proof (cases r2)
      case (Some e)
      then have "r = Inl (errno_to_offload e)" "w' = w2" using assms(2) u1 True o by (simp_all add: update_retry_def)
      with Some k2 s2 f2 show ?thesis by (simp add: errno_to_offload_OK)
    next
      case None
      have p2: "0 \<le> fd_limit (fst w2)" using reopen_limit_open[OF assms(1)] o None by simp
      obtain e3 w3 where u3: "limit_update K key val True w2 = (e3, w3)" by (rule prod.exhaust)
      have l2: "limit_fd_ok V w2" using k2 by simp
      note k3 = limit_update_kernel[OF assms(1) u3 p2 l2]
      have r: "r = Inr e3" "w' = w3" using assms(2) u1 True o None u3 by (simp_all add: update_retry_def)
      have "keeps_fds V w w3" using f2 k3 by (metis keeps_fds_trans)
      with k3 s2 p2 r show ?thesis by simp
    qed
  qed
qed

section \<open>The operations on the limit map\<close>

lemma errno_nonzero: "e \<noteq> 0 \<Longrightarrow> errno_to_offload e \<noteq> OFFLOAD_OK"
  by (simp add: errno_to_offload_OK)

text \<open>
  Both single-upstream operations write at most the one entry of the limit map and no other map, and only when they
  succeed; the disabled set follows.
\<close>

lemma disable_upstream_effect:
  assumes "kernel_maps K V" and "limit_fd_ok V w" and "bpf_disable_upstream K i w = (ret, w')"
  shows "keeps_fds V w w' \<and> (if ret = OFFLOAD_OK
     then 0 < i \<and> v_map V (snd w') = maps_with V (snd w) (nat i) (Some 0) \<and> (\<exists>s. same_sets (fst w) s \<and> fst w' = disabled_set_add i s)
     else same_maps V w w')"
proof (cases "i \<le> 0")
  case True
  then show ?thesis using assms by (auto simp: bpf_disable_upstream_def)
next
  case False
  obtain r1 w1 where e1: "ensure_limit_fd K w = (r1, w1)" by (rule prod.exhaust)
  note k1 = ensure_limit_same[OF assms(1) e1]
  show ?thesis
  proof (cases r1)
    case (Some e)
    then show ?thesis using assms(3) e1 False k1 errno_nonzero[of e] by (auto simp: bpf_disable_upstream_def)
  next
    case None
    have p1: "0 \<le> fd_limit (fst w1)" "limit_fd_ok V w1" using ensure_limit_open[OF assms(1)] e1 None k1 assms(2) by auto
    obtain r2 w2 where e2: "update_retry K (nat i) BPF_LIMIT_ZERO w1 = (r2, w2)" by (rule prod.exhaust)
    note k2 = update_retry_cases[OF assms(1) e2 p1]
    have s2: "same_sets (fst w) (fst w2)" "keeps_fds V w w2" "v_map V (snd w1) = v_map V (snd w)"
      using k1 k2 same_sets_trans[of "fst w" "fst w1" "fst w2"] keeps_fds_trans[of V w w1 w2] by (simp_all add: same_maps_def)
    show ?thesis
    proof (cases r2)
      case (Inl e)
      then show ?thesis using assms(3) e1 e2 False None k2 s2 by (auto simp: bpf_disable_upstream_def same_maps_def)
    next
      case (Inr e)
      have l2: "limit_fd_ok V w2" using s2(2) assms(2) by (simp add: keeps_fds_def)
      obtain e3 w3 where e3: "limit_update K (nat i) BPF_LIMIT_ZERO False w2 = (e3, w3)" by (rule prod.exhaust)
      have p2: "0 \<le> fd_limit (fst w2)" using k2 Inr by simp
      note k3 = limit_update_kernel[OF assms(1) e3 p2 l2]
      have add: "keeps_fds V u (upd_set (disabled_set_add i) u)" for u by (rule upd_set_fds) simp_all
      have f3: "keeps_fds V w w3" using s2(2) k3 by (metis keeps_fds_trans)
      consider "e = 0" | "e = ENOENT" "e3 = 0" | "e = ENOENT" "e3 \<noteq> 0" | "e \<noteq> 0" "e \<noteq> ENOENT" by blast
      then show ?thesis
      proof cases
        case 1
        then have "ret = OFFLOAD_OK" "w' = upd_set (disabled_set_add i) w2" using assms(3) None Inr e1 e2 False by (simp_all add: bpf_disable_upstream_def)
        with 1 k2 Inr s2 False add[of w2] show ?thesis by (auto simp: upd_set_def BPF_LIMIT_ZERO_def intro: keeps_fds_trans)
      next
        case 2
        then have "ret = OFFLOAD_OK" "w' = upd_set (disabled_set_add i) w3" using assms(3) None Inr e1 e2 e3 False by (simp_all add: bpf_disable_upstream_def ENOENT_def)
        with 2 k2 k3 Inr s2 f3 False add[of w3] show ?thesis by (auto simp: upd_set_def BPF_LIMIT_ZERO_def ENOENT_def intro: keeps_fds_trans)
      next
        case 3
        then have "ret = errno_to_offload e3" "w' = w3" using assms(3) None Inr e1 e2 e3 False by (simp_all add: bpf_disable_upstream_def ENOENT_def)
        with 3 k2 k3 Inr s2 f3 errno_nonzero[of e3] show ?thesis by (simp add: same_maps_def ENOENT_def)
      next
        case 4
        then have "ret = errno_to_offload e" "w' = w2" using assms(3) None Inr e1 e2 False by (simp_all add: bpf_disable_upstream_def)
        with 4 k2 Inr s2 errno_nonzero[of e] show ?thesis by (simp add: same_maps_def)
      qed
    qed
  qed
qed

lemma restore_upstream_effect:
  assumes "kernel_maps K V" and "limit_fd_ok V w" and "bpf_restore_upstream K i w = (ret, w')"
  shows "keeps_fds V w w' \<and> (if ret = OFFLOAD_OK
     then 0 < i \<and> (\<exists>s. same_sets (fst w) s \<and> fst w' = disabled_set_remove i s) \<and>
       v_map V (snd w') = (if nat i \<in> dom (limit_map V (snd w)) then maps_with V (snd w) (nat i) (Some BPF_LIMIT_NONE) else v_map V (snd w))
     else same_maps V w w')"
proof (cases "i \<le> 0")
  case True
  then show ?thesis using assms by (auto simp: bpf_restore_upstream_def)
next
  case False
  obtain r1 w1 where e1: "ensure_limit_fd K w = (r1, w1)" by (rule prod.exhaust)
  note k1 = ensure_limit_same[OF assms(1) e1]
  show ?thesis
  proof (cases r1)
    case (Some e)
    then show ?thesis using assms(3) e1 False k1 errno_nonzero[of e] by (auto simp: bpf_restore_upstream_def)
  next
    case None
    have p1: "0 \<le> fd_limit (fst w1)" "limit_fd_ok V w1" using ensure_limit_open[OF assms(1)] e1 None k1 assms(2) by auto
    obtain r2 w2 where e2: "update_retry K (nat i) BPF_LIMIT_NONE w1 = (r2, w2)" by (rule prod.exhaust)
    note k2 = update_retry_cases[OF assms(1) e2 p1]
    have s2: "same_sets (fst w) (fst w2)" "keeps_fds V w w2" "v_map V (snd w1) = v_map V (snd w)"
      using k1 k2 same_sets_trans[of "fst w" "fst w1" "fst w2"] keeps_fds_trans[of V w w1 w2] by (simp_all add: same_maps_def)
    show ?thesis
    proof (cases r2)
      case (Inl e)
      then show ?thesis using assms(3) e1 e2 False None k2 s2 by (auto simp: bpf_restore_upstream_def same_maps_def)
    next
      case (Inr e)
      have rem: "keeps_fds V w2 (upd_set (disabled_set_remove i) w2)" by (rule upd_set_fds) simp_all
      show ?thesis
      proof (cases "e = 0 \<or> e = ENOENT")
        case True
        then have "ret = OFFLOAD_OK" "w' = upd_set (disabled_set_remove i) w2" using assms(3) None Inr e1 e2 False by (auto simp: bpf_restore_upstream_def)
        with True k2 Inr s2 False rem show ?thesis by (auto simp: upd_set_def ENOENT_def intro: keeps_fds_trans)
      next
        case no: False
        then have "ret = errno_to_offload e" "w' = w2" using assms(3) None Inr e1 e2 False by (simp_all add: bpf_restore_upstream_def)
        with no k2 Inr s2 errno_nonzero[of e] show ?thesis by (simp add: same_maps_def)
      qed
    qed
  qed
qed

text \<open>The loop over the keys of a traversal, with a well-formed descriptor.\<close>

lemma global_loop_effect:
  assumes "kernel_maps K V" and "\<And>i s. disabled_ok s \<Longrightarrow> disabled_ok (f i s)"
    and fds: "\<And>i s. fd_limit (f i s) = fd_limit s \<and> fd_stats (f i s) = fd_stats s \<and> fd_error (f i s) = fd_error s"
    and "global_loop K val f keys t e w = (t', e', w')" and "0 \<le> fd_limit (fst w)" and "limit_fd_ok V w"
  shows "e \<le> e' \<and> t' + e' = t + e + length keys \<and> (disabled_ok (fst w) \<longrightarrow> disabled_ok (fst w')) \<and> keeps_fds V w w' \<and>
     (\<forall>p. p \<noteq> BPF_LIMIT_MAP \<longrightarrow> v_map V (snd w') p = v_map V (snd w) p) \<and>
     (\<forall>k. limit_map V (snd w') k = limit_map V (snd w) k \<or> k \<in> set keys \<and> k \<in> dom (limit_map V (snd w)) \<and> limit_map V (snd w') k = Some val) \<and>
     (e' = e \<longrightarrow> (\<forall>k \<in> set keys. limit_map V (snd w') k = Some val))"
  using assms(4-6)
proof (induction keys arbitrary: t e w)
  case Nil
  then show ?case by simp
next
  case (Cons key keys)
  obtain r w1 where u: "limit_update K key val True w = (r, w1)" by (rule prod.exhaust)
  note k1 = limit_update_kernel[OF assms(1) u Cons.prems(2,3)]
  have l1: "limit_fd_ok V w1" using k1 Cons.prems(3) by (simp add: keeps_fds_def)
  show ?case
  proof (cases "r = 0")
    case True
    let ?w2 = "upd_set (f (i32 key)) w1"
    have g: "global_loop K val f keys (t + 1) e ?w2 = (t', e', w')" using Cons.prems(1) True u by simp
    have f2: "keeps_fds V w1 ?w2" by (rule upd_set_fds) (simp_all add: fds)
    have w2: "0 \<le> fd_limit (fst ?w2)" "limit_fd_ok V ?w2" using f2 l1 k1 Cons.prems(2) by (simp_all add: upd_set_def fds keeps_fds_def)
    note ih = Cons.IH[OF g w2]
    have L1: "limit_map V (snd w1) = (limit_map V (snd w))(key \<mapsto> val)" "key \<in> dom (limit_map V (snd w))" "fst w1 = fst w" using k1 True by auto
    have other: "p \<noteq> BPF_LIMIT_MAP \<Longrightarrow> v_map V (snd w') p = v_map V (snd w) p" for p using ih k1 True by (simp add: upd_set_def)
    have each: "limit_map V (snd w') k = limit_map V (snd w1) k \<or> k \<in> set keys \<and> k \<in> dom (limit_map V (snd w1)) \<and> limit_map V (snd w') k = Some val" for k
      using ih by (simp add: upd_set_def)
    then have here: "limit_map V (snd w') key = Some val" using each[of key] L1 by auto
    have all: "limit_map V (snd w') k = limit_map V (snd w) k \<or> k \<in> set (key # keys) \<and> k \<in> dom (limit_map V (snd w)) \<and> limit_map V (snd w') k = Some val" for k
      using each[of k] L1 by (auto split: if_splits)
    have fd: "keeps_fds V w w'" using ih k1 f2 by (metis keeps_fds_trans)
    have ok: "disabled_ok (fst w) \<longrightarrow> disabled_ok (fst w')" using ih L1(3) assms(2) by (simp add: upd_set_def)
    show ?thesis using ih other here all fd ok by auto
  next
    case False
    have g: "global_loop K val f keys t (e + 1) w1 = (t', e', w')" using Cons.prems(1) False u by simp
    have p1: "0 \<le> fd_limit (fst w1)" using k1 Cons.prems(2) by simp
    note ih = Cons.IH[OF g p1 l1]
    have fd: "keeps_fds V w w'" using ih k1 by (metis keeps_fds_trans)
    show ?thesis using ih k1 False fd by auto
  qed
qed

lemma stats_total_same:
  "kernel_maps K V \<Longrightarrow> stats_total_bytes K w = (t, w') \<Longrightarrow> same_maps V w w' \<and> (fds_ok V w \<longrightarrow> fds_ok V w')"
  by (auto simp: stats_total_bytes_def dest: ensure_stats_same split: prod.splits option.splits)

lemma refresh_same:
  assumes "kernel_maps K V"
  shows "same_maps V w (snd (bpf_refresh_active K w)) \<and> (fds_ok V w \<longrightarrow> fds_ok V (snd (bpf_refresh_active K w)))"
proof -
  obtain t1 s k where t1: "stats_total_bytes K w = (t1, s, k)" by (metis prod.exhaust)
  note k1 = stats_total_same[OF assms t1]
  let ?k = "k_sleep K ACTIVE_SAMPLE_INTERVAL k"
  obtain t2 s2 k2 where t2: "stats_total_bytes K (s, ?k) = (t2, s2, k2)" by (metis prod.exhaust)
  note k2 = stats_total_same[OF assms t2] 
  note sl = kernel_sleep[OF assms, of ACTIVE_SAMPLE_INTERVAL k]
  have "same_maps V w (s2, k2)" using k1 k2 sl by (auto simp: same_maps_def intro: same_sets_trans)
  moreover have "fds_ok V w \<longrightarrow> fds_ok V (s2, k2)" using k1 k2 sl by (auto simp: fds_ok_def)
  ultimately show ?thesis using k1 t1 t2
    by (auto simp: bpf_refresh_active_def refresh_begin_def refresh_end_def Let_def same_maps_def same_sets_def fds_ok_def)
qed

lemma disable_global_effect:
  assumes "kernel_maps K V" and "limit_fd_ok V w" and "bpf_disable_global K w = (ret, w')"
  shows "(disabled_ok (fst w) \<longrightarrow> disabled_ok (fst w')) \<and> keeps_fds V w w' \<and>
     (\<forall>k. limit_map V (snd w') k = limit_map V (snd w) k \<or> k \<in> dom (limit_map V (snd w)) \<and> limit_map V (snd w') k = Some 0)"
proof -
  obtain r1 w1 where e1: "ensure_limit_fd K w = (r1, w1)" by (rule prod.exhaust)
  note k1 = ensure_limit_same[OF assms(1) e1]
  have s1: "disabled_ok (fst w1) = disabled_ok (fst w)" "v_map V (snd w1) = v_map V (snd w)"
    using k1 same_sets_items[of "fst w" "fst w1"] by (simp_all add: same_maps_def)
  show ?thesis
  proof (cases r1)
    case (Some x)
    then show ?thesis using assms(3) e1 k1 s1 by (auto simp: bpf_disable_global_def)
  next
    case None
    obtain keys ln where ks: "k_keys K (fd_limit (fst w1)) (snd w1) = (keys, ln)" by (rule prod.exhaust)
    obtain t e w2 where g: "global_loop K BPF_LIMIT_ZERO disabled_set_add keys 0 0 w1 = (t, e, w2)" by (metis prod.exhaust)
    have ok: "disabled_ok s \<Longrightarrow> disabled_ok (disabled_set_add i s)" for i s using disabled.add_law by simp
    have p1: "0 \<le> fd_limit (fst w1)" "limit_fd_ok V w1" using ensure_limit_open[OF assms(1)] e1 None k1 assms(2) by auto
    note k2 = global_loop_effect[OF assms(1) ok _ g p1, simplified]
    have w': "snd w' = snd w2" "disabled_ok (fst w') = disabled_ok (fst w2)" "keeps_fds V w2 w'"
      using assms(3) None e1 ks g
      by (auto simp: bpf_disable_global_def Let_def upd_set_def disabled_ok_def disabled_items_def intro!: keeps_fds_cong)
    have "keeps_fds V w w'" using k1 k2 w'(3) by (metis keeps_fds_trans)
    with k2 s1 w' show ?thesis by (auto simp: BPF_LIMIT_ZERO_def)
  qed
qed

lemma restore_global_ok:
  assumes "kernel_maps K V" and "disabled_ok (fst w)" and "limit_fd_ok V w"
  shows "disabled_ok (fst (snd (bpf_restore_global K w))) \<and> keeps_fds V w (snd (bpf_restore_global K w))"
proof -
  obtain r1 w1 where e1: "ensure_limit_fd K w = (r1, w1)" by (rule prod.exhaust)
  note k1 = ensure_limit_same[OF assms(1) e1]
  have d1: "disabled_ok (fst w1)" using k1 same_sets_items[of "fst w" "fst w1"] assms(2) by (simp add: same_maps_def)
  show ?thesis
  proof (cases r1)
    case (Some x)
    then show ?thesis using e1 k1 d1 by (simp add: bpf_restore_global_def)
  next
    case None
    obtain keys ln where ks: "k_keys K (fd_limit (fst w1)) (snd w1) = (keys, ln)" by (rule prod.exhaust)
    obtain t e w2 where g: "global_loop K BPF_LIMIT_NONE disabled_set_remove keys 0 0 w1 = (t, e, w2)" by (metis prod.exhaust)
    have ok: "disabled_ok s \<Longrightarrow> disabled_ok (disabled_set_remove i s)" for i s using disabled.remove_law by simp
    have p1: "0 \<le> fd_limit (fst w1)" "limit_fd_ok V w1" using ensure_limit_open[OF assms(1)] e1 None k1 assms(3) by auto
    note k2 = global_loop_effect[OF assms(1) ok _ g p1, simplified]
    have w': "keeps_fds V w2 (snd (bpf_restore_global K w))" using e1 ks g None
      by (auto simp: bpf_restore_global_def Let_def upd_set_def intro!: keeps_fds_cong)
    then have "keeps_fds V w (snd (bpf_restore_global K w))" using k1 k2 by (metis keeps_fds_trans)
    moreover have "disabled_ok (fst (snd (bpf_restore_global K w)))" using e1 ks g None k2 d1
      by (auto simp: bpf_restore_global_def Let_def upd_set_def disabled_ok_def disabled_items_def)
    ultimately show ?thesis by blast
  qed
qed

text \<open>Opening the error map, and closing the three descriptors.\<close>

lemma obj_get_error_fds:
  assumes "kernel_maps K V" and "fds_ok V (s, k)" and "k_obj_get K BPF_ERROR_MAP k = (r, k')"
  shows "fds_ok V (s\<lparr>fd_error := (case r of Inl _ \<Rightarrow> - 1 | Inr fd \<Rightarrow> fd), initialized := b\<rparr>, k')"
  using kernel_obj_get[OF assms(1,3)] assms(2) by (cases r) (auto simp: fds_ok_def)

lemma close_fd_table:
  assumes "kernel_maps K V" and "close_fd K fd k = (fd', k')"
  shows "fd' < 0 \<and> v_map V k' = v_map V k \<and> (\<forall>x. x \<noteq> fd \<longrightarrow> v_fd V k' x = v_fd V k x)"
  using assms(2) kernel_close[OF assms(1), of fd k] by (auto simp: close_fd_def split: if_splits)

interpretation bpf: offload_contract "adapter_bpf K" "bpf_ok K V" "bpf_blocked V" for K :: "'k bpf_kernel" and V
proof
  fix w f assume ok: "bpf_ok K V w"
  then have K: "kernel_maps K V" and D: "disabled_ok (fst w)" and F: "fds_ok V w" "limit_fd_ok V w" by (auto simp: bpf_ok_def fds_limit_ok)
  {
    assume "ad_refresh_active (adapter_bpf K) = Some f"
    then have "f = bpf_refresh_active K" by (simp add: adapter_bpf_def)
    then show "bpf_ok K V (snd (f w)) \<and> (\<forall>i. bpf_blocked V (snd (f w)) i = bpf_blocked V w i)"
      using K D F refresh_same[OF K, of w] same_sets_items by (auto simp: bpf_ok_def bpf_blocked_def same_maps_def)
  next
    assume "ad_disable_global (adapter_bpf K) = Some f"
    then have f: "f = bpf_disable_global K" by (simp add: adapter_bpf_def)
    from disable_global_effect[OF K F(2) prod.collapse[symmetric]] f K D F
    show "bpf_ok K V (snd (f w)) \<and> (\<forall>i. bpf_blocked V w i \<longrightarrow> bpf_blocked V (snd (f w)) i)"
      by (auto simp: bpf_ok_def bpf_blocked_def keeps_fds_def) metis
  next
    assume "ad_restore_global (adapter_bpf K) = Some f"
    then show "bpf_ok K V (snd (f w))" using restore_global_ok[OF K D F(2)] K F by (auto simp: bpf_ok_def adapter_bpf_def keeps_fds_def)
  }
next
  fix w i g assume ok: "bpf_ok K V w" and "ad_disable_upstream (adapter_bpf K) = Some g"
  then have K: "kernel_maps K V" and D: "disabled_ok (fst w)" and F: "fds_ok V w" "limit_fd_ok V w" and g: "g = bpf_disable_upstream K"
    by (auto simp: bpf_ok_def adapter_bpf_def fds_limit_ok)
  obtain ret w' where r: "bpf_disable_upstream K i w = (ret, w')" by (rule prod.exhaust)
  note e = disable_upstream_effect[OF K F(2) r]
  have "disabled_ok (fst w')"
    using e D same_sets_items disabled.add_law by (auto simp: same_maps_def split: if_splits)
  with e K F r g show "bpf_ok K V (snd (g i w)) \<and> (\<forall>j. bpf_blocked V w j \<longrightarrow> bpf_blocked V (snd (g i w)) j) \<and>
      (fst (g i w) = OFFLOAD_OK \<longrightarrow> bpf_blocked V (snd (g i w)) i)"
    by (auto simp: bpf_ok_def bpf_blocked_def same_maps_def keeps_fds_def split: if_splits)
qed (simp_all add: adapter_bpf_def)

section \<open>Properties\<close>

text \<open>
  A kernel for the witnesses: maps by path, a table of open descriptors and the next free number, with every call
  succeeding that can.
\<close>

record pinned_maps =
  pm_maps :: "string \<Rightarrow> nat \<Rightarrow> 64 word option"
  pm_fds :: "(int \<times> string) list"
  pm_next :: nat

definition pm_open :: "pinned_maps \<Rightarrow> int \<Rightarrow> string option" where
  "pm_open k fd = (if fd < int (pm_next k) then map_of (pm_fds k) fd else None)"

definition demo_kernel :: "pinned_maps bpf_kernel" where
  "demo_kernel = \<lparr>k_stat = (\<lambda>_ _. True),
     k_obj_get = (\<lambda>path k. (Inr (int (pm_next k)), k\<lparr>pm_fds := (int (pm_next k), path) # pm_fds k, pm_next := pm_next k + 1\<rparr>)),
     k_close = (\<lambda>fd k. k\<lparr>pm_fds := filter (\<lambda>e. fst e \<noteq> fd) (pm_fds k)\<rparr>),
     k_update = (\<lambda>fd key v exist k. case pm_open k fd of None \<Rightarrow> (EBADF, k)
        | Some path \<Rightarrow> if exist \<and> pm_maps k path key = None then (ENOENT, k)
            else (0, k\<lparr>pm_maps := (pm_maps k)(path := (pm_maps k path)(key \<mapsto> v))\<rparr>)),
     k_keys = (\<lambda>fd k. case pm_open k fd of None \<Rightarrow> ([], EBADF) | Some path \<Rightarrow> (filter (\<lambda>i. pm_maps k path i \<noteq> None) [0..<64], ENOENT)),
     k_stats = (\<lambda>_ _ _. None), k_info = (\<lambda>_ _. Some (4, 8)), k_sleep = (\<lambda>_ k. k), k_time = (\<lambda>_. 0)\<rparr>"

definition demo_view :: "pinned_maps bpf_view" where
  "demo_view = \<lparr>v_map = pm_maps, v_fd = pm_open\<rparr>"

definition demo_maps :: "(nat \<Rightarrow> 64 word option) \<Rightarrow> pinned_maps" where
  "demo_maps m = \<lparr>pm_maps = (\<lambda>_. Map.empty)(BPF_LIMIT_MAP := m), pm_fds = [], pm_next = 3\<rparr>"

definition demo_open :: "(nat \<Rightarrow> 64 word option) \<Rightarrow> pinned_maps" where
  "demo_open m = (demo_maps m)\<lparr>pm_fds := [(5, BPF_ERROR_MAP), (4, BPF_STATS_MAP), (3, BPF_LIMIT_MAP)], pm_next := 6\<rparr>"

lemma demo_view_simps [simp]: "v_map demo_view k = pm_maps k" "v_fd demo_view k = pm_open k"
  by (simp_all add: demo_view_def)

lemma map_of_filter_fd: "map_of (filter (\<lambda>e. fst e \<noteq> fd) es) = (map_of es)(fd := None)"
  by (induction es) auto

lemma demo_kernel_maps: "kernel_maps demo_kernel demo_view"
proof -
  have "pm_open (k\<lparr>pm_fds := (int (pm_next k), p) # pm_fds k, pm_next := Suc (pm_next k)\<rparr>) = (pm_open k)(int (pm_next k) \<mapsto> p)" for k p
    by (auto simp: pm_open_def fun_eq_iff)
  moreover have "pm_open (k\<lparr>pm_fds := filter (\<lambda>e. fst e \<noteq> fd) (pm_fds k)\<rparr>) = (pm_open k)(fd := None)" for k fd
    by (auto simp: pm_open_def map_of_filter_fd fun_eq_iff)
  moreover have "pm_open (k\<lparr>pm_maps := m\<rparr>) = pm_open k" for k m by (simp add: pm_open_def fun_eq_iff)
  moreover have "pm_open k (int (pm_next k)) = None" for k by (simp add: pm_open_def)
  ultimately show ?thesis
    unfolding kernel_maps_def by (auto simp: demo_kernel_def errno_defs split: option.splits if_splits)
qed

lemma demo_state_ok: "disabled_ok bpf_state0" "disabled_items bpf_state0 = []" "fds_ok V (bpf_state0, k)" "limit_fd_ok V (bpf_state0, k)"
  by (simp_all add: disabled_ok_def disabled_items_def bpf_state0_def fds_ok_def limit_fd_ok_def)

lemma demo_bpf_ok: "bpf_ok demo_kernel demo_view (bpf_state0, k)"
  by (simp add: bpf_ok_def demo_kernel_maps demo_state_ok)

text \<open>
  C13: Disabling an upstream either succeeds, and then exactly its entry of the map pinned as the tethering limit map
  is 0 (created if it was missing), no other pinned map has changed, and the upstream is in the disabled set unless that
  was full; or it fails and neither a map nor the set has changed.  The adapter's descriptor of the
  limit map may be closed or stale before (a stale one is reopened on the way), and afterwards it is again one of the
  limit map, if it is open on a map at all.  The set never exceeds 8 entries and has no duplicates.
\<close>

theorem bpf_disable_upstream_correct:
  assumes "kernel_maps K V" and "limit_fd_ok V w" and "disabled_ok (fst w)" and "bpf_disable_upstream K i w = (ret, w')"
  shows "disabled_ok (fst w') \<and> limit_fd_ok V w' \<and> (\<forall>path. path \<noteq> BPF_LIMIT_MAP \<longrightarrow> v_map V (snd w') path = v_map V (snd w) path) \<and>
     (if ret = OFFLOAD_OK
      then 0 < i \<and> limit_map V (snd w') = (limit_map V (snd w))(nat i \<mapsto> 0) \<and>
        set (disabled_items (fst w')) =
          (if i \<in> set (disabled_items (fst w)) \<or> length (disabled_items (fst w)) < 8 then insert i (set (disabled_items (fst w))) else set (disabled_items (fst w)))
      else limit_map V (snd w') = limit_map V (snd w) \<and> set (disabled_items (fst w')) = set (disabled_items (fst w)))"
proof -
  note e = disable_upstream_effect[OF assms(1,2,4)]
  have l: "limit_fd_ok V w'" using e assms(2) by (simp add: keeps_fds_def)
  show ?thesis
  proof (cases "ret = OFFLOAD_OK")
    case True
    with e obtain s where s: "same_sets (fst w) s" "fst w' = disabled_set_add i s"
      and r: "0 < i" "v_map V (snd w') = maps_with V (snd w) (nat i) (Some 0)" by auto
    from same_sets_items[OF s(1)] assms(3) have "disabled_ok s" "disabled_items s = disabled_items (fst w)" by auto
    with disabled.add_law[of s i] s r l True show ?thesis by (auto simp: MAX_DISABLED_UPSTREAMS_def)
  next
    case False
    with e assms(3) l same_sets_items[of "fst w" "fst w'"] show ?thesis by (auto simp: same_maps_def)
  qed
qed

lemmas demo_calls = demo_kernel_def pm_open_def demo_maps_def bpf_disable_upstream_def bpf_restore_upstream_def ensure_limit_fd_def reopen_limit_def reopen_fd_def
  bpf_state0_def update_retry_def limit_update_def errno_defs upd_set_def

text \<open>A stale descriptor, number 9, is reopened.\<close>

theorem bpf_disable_upstream_correct_witness:
  "\<exists>w'. bpf_disable_upstream demo_kernel 7 (bpf_state0\<lparr>fd_limit := 9\<rparr>, demo_maps [7 \<mapsto> BPF_LIMIT_NONE]) = (OFFLOAD_OK, w') \<and>
     pm_maps (snd w') BPF_LIMIT_MAP 7 = Some 0 \<and> set (disabled_items (fst w')) = {7}"
proof -
  let ?w = "(bpf_state0\<lparr>fd_limit := 9\<rparr>, demo_maps [7 \<mapsto> BPF_LIMIT_NONE])"
  have d: "limit_fd_ok demo_view ?w" "disabled_ok (fst ?w)" "disabled_items (fst ?w) = []"
    by (simp_all add: limit_fd_ok_def pm_open_def demo_maps_def bpf_state0_def disabled_ok_def disabled_items_def)
  have "\<exists>w'. bpf_disable_upstream demo_kernel 7 ?w = (OFFLOAD_OK, w')" by (simp add: demo_calls)
  then obtain w' where w: "bpf_disable_upstream demo_kernel 7 ?w = (OFFLOAD_OK, w')" by blast
  from bpf_disable_upstream_correct[OF demo_kernel_maps d(1,2) w] d(3) w show ?thesis by auto
qed

text \<open>
  C15: Restoring an upstream either succeeds, and then its entry of the map pinned as the tethering limit map, if there is
  one, is unlimited, no other entry and no other pinned map has changed and the upstream has left the disabled set;
  or it fails and nothing has changed.  The descriptor of the limit map may be closed or stale.
\<close>

theorem bpf_restore_upstream_correct:
  assumes "kernel_maps K V" and "limit_fd_ok V w" and "disabled_ok (fst w)" and "bpf_restore_upstream K i w = (ret, w')"
  shows "disabled_ok (fst w') \<and> limit_fd_ok V w' \<and> (\<forall>path. path \<noteq> BPF_LIMIT_MAP \<longrightarrow> v_map V (snd w') path = v_map V (snd w) path) \<and>
     (if ret = OFFLOAD_OK
      then 0 < i \<and> limit_map V (snd w') =
          (if nat i \<in> dom (limit_map V (snd w)) then (limit_map V (snd w))(nat i \<mapsto> BPF_LIMIT_NONE) else limit_map V (snd w)) \<and>
        set (disabled_items (fst w')) = set (disabled_items (fst w)) - {i}
      else limit_map V (snd w') = limit_map V (snd w) \<and> set (disabled_items (fst w')) = set (disabled_items (fst w)))"
proof -
  note e = restore_upstream_effect[OF assms(1,2,4)]
  have l: "limit_fd_ok V w'" using e assms(2) by (simp add: keeps_fds_def)
  show ?thesis
  proof (cases "ret = OFFLOAD_OK")
    case True
    with e obtain s where s: "same_sets (fst w) s" "fst w' = disabled_set_remove i s" and r: "0 < i"
      "v_map V (snd w') = (if nat i \<in> dom (limit_map V (snd w)) then maps_with V (snd w) (nat i) (Some BPF_LIMIT_NONE) else v_map V (snd w))" by auto
    from same_sets_items[OF s(1)] assms(3) have "disabled_ok s" "disabled_items s = disabled_items (fst w)" by auto
    with disabled.remove_law[of s i] s r l True show ?thesis by auto
  next
    case False
    with e assms(3) l same_sets_items[of "fst w" "fst w'"] show ?thesis by (auto simp: same_maps_def)
  qed
qed

theorem bpf_restore_upstream_correct_witness:
  "\<exists>w'. bpf_restore_upstream demo_kernel 7 (bpf_state0, demo_maps [7 \<mapsto> 0]) = (OFFLOAD_OK, w') \<and>
     pm_maps (snd w') BPF_LIMIT_MAP 7 = Some BPF_LIMIT_NONE"
proof -
  let ?w = "(bpf_state0, demo_maps [7 \<mapsto> 0])"
  have "\<exists>w'. bpf_restore_upstream demo_kernel 7 ?w = (OFFLOAD_OK, w')" by (simp add: demo_calls)
  then obtain w' where w: "bpf_restore_upstream demo_kernel 7 ?w = (OFFLOAD_OK, w')" by blast
  have "7 \<in> dom (limit_map demo_view (snd ?w))" by (simp add: demo_maps_def)
  with bpf_restore_upstream_correct[OF demo_kernel_maps demo_state_ok(4) _ w] demo_state_ok(1) w show ?thesis by auto
qed

text \<open>
  On an empty limit map the global disable reports success although it has shut
  nothing: no entry is written and the global flag stays clear.  (The scheduler falls back
  to it when it knows no upstream.)
\<close>

lemma disable_global_empty_map:
  assumes "0 \<le> fd_limit (fst w)" and "k_keys K (fd_limit (fst w)) (snd w) = ([], ENOENT)" and "\<not> globally_disabled (fst w)"
  shows "fst (bpf_disable_global K w) = OFFLOAD_OK \<and> snd (snd (bpf_disable_global K w)) = snd w \<and>
     \<not> globally_disabled (fst (snd (bpf_disable_global K w)))"
  using assms by (simp add: bpf_disable_global_def ensure_limit_fd_def global_ret_def upd_set_def)

text \<open>
  When a complete traversal and all its updates succeed, the global disable sets every
  entry of the limit map to 0 and adds none; the global flag goes up only in that case.
\<close>

lemma disable_global_blocks_all:
  assumes "kernel_maps K V" and "limit_fd_ok V w" and "bpf_disable_global K w = (ret, w')" and "\<not> globally_disabled (fst w)" and "globally_disabled (fst w')"
    and "\<And>fd k keys. v_fd V k fd = Some BPF_LIMIT_MAP \<Longrightarrow> k_keys K fd k = (keys, ENOENT) \<Longrightarrow> set keys = dom (limit_map V k)"
    and "\<And>fd k. v_fd V k fd = None \<Longrightarrow> snd (k_keys K fd k) \<noteq> ENOENT"
  shows "ret = OFFLOAD_OK \<and> limit_map V (snd w') = (\<lambda>k. map_option (\<lambda>_. 0) (limit_map V (snd w) k))"
proof -
  obtain r1 w1 where e1: "ensure_limit_fd K w = (r1, w1)" by (rule prod.exhaust)
  note k1 = ensure_limit_same[OF assms(1) e1]
  have r1: "r1 = None" using assms(3-5) e1 k1 by (cases r1) (auto simp: bpf_disable_global_def same_maps_def same_sets_def)
  obtain keys ln where ks: "k_keys K (fd_limit (fst w1)) (snd w1) = (keys, ln)" by (rule prod.exhaust)
  obtain t e w2 where g: "global_loop K BPF_LIMIT_ZERO disabled_set_add keys 0 0 w1 = (t, e, w2)" by (metis prod.exhaust)
  have ok: "disabled_ok s \<Longrightarrow> disabled_ok (disabled_set_add i s)" for i s using disabled.add_law by simp
  have p1: "0 \<le> fd_limit (fst w1)" "limit_fd_ok V w1" using ensure_limit_open[OF assms(1)] e1 r1 k1 assms(2) by auto
  note k2 = global_loop_effect[OF assms(1) ok _ g p1, simplified]
  have flag: "globally_disabled (fst w2) = globally_disabled (fst w)"
  proof -
    have "global_loop K BPF_LIMIT_ZERO disabled_set_add keys a b u = (t', e', u') \<Longrightarrow> globally_disabled (fst u') = globally_disabled (fst u)" for a b t' e' u u'
      by (induction keys arbitrary: a b u)
         (auto simp: limit_update_def upd_set_def disabled_set_add_def split: prod.splits if_splits)
    from this[OF g] k1 show ?thesis by (simp add: same_maps_def same_sets_def)
  qed
  have all: "e = 0" "ln = ENOENT" "snd w' = snd w2" "ret = OFFLOAD_OK" "0 < t"
    using assms(3-5) e1 ks g r1 flag
    by (auto simp: bpf_disable_global_def Let_def upd_set_def global_ret_def split: if_splits)
  have "v_fd V (snd w1) (fd_limit (fst w1)) \<noteq> None" using all(2) ks assms(7)[of "snd w1" "fd_limit (fst w1)"] by auto
  then have "v_fd V (snd w1) (fd_limit (fst w1)) = Some BPF_LIMIT_MAP" using p1 by (auto simp: limit_fd_ok_def)
  from assms(6)[OF this] have dom: "set keys = dom (limit_map V (snd w))" using ks k1 all(2) by (simp add: same_maps_def)
  have "limit_map V (snd w') k = map_option (\<lambda>_. 0) (limit_map V (snd w) k)" for k
  proof (cases "k \<in> dom (limit_map V (snd w))")
    case True
    then show ?thesis using k2 all dom by (auto simp: BPF_LIMIT_ZERO_def)
  next
    case False
    have "limit_map V (snd w2) k = limit_map V (snd w1) k \<or> k \<in> dom (limit_map V (snd w1))" using k2 by blast
    with False have "limit_map V (snd w') k = limit_map V (snd w) k" using k1 all by (auto simp: same_maps_def)
    with False show ?thesis by (auto simp: domIff)
  qed
  with all show ?thesis by blast
qed

end
