(* ===== verification/LsmGuard.thy ===== *)
theory LsmGuard
  imports AdapterBpf
begin

text \<open>
  The limit-map guard: the kernel probe \<^verbatim>\<open>daemon/hotspotd/lsm/hnc_limit_map_guard.bpf.c\<close> that reports
  foreign writes of the limit map, and its user-space side \<^verbatim>\<open>hnc_lsm_loader.c\<close> (start-up, event
  consumer with the counter-write, interface change, shutdown, status).  The outcomes of libbpf
  calls are arguments; an error is the message text the code formats.
\<close>

section \<open>The kernel probe\<close>

definition U64_MAX :: "64 word" where "U64_MAX = 0xFFFFFFFFFFFFFFFF"
definition BPF_MAP_UPDATE_ELEM_CMD :: nat where "BPF_MAP_UPDATE_ELEM_CMD = 2"

record hnc_lsm_ctrl =
  protected_map_id :: nat
  protected_ifindex :: nat
  hotspotd_pid :: nat
  enabled :: nat

record hnc_lsm_event =
  ev_ts_ns :: nat
  ev_caller_pid :: nat
  ev_caller_uid :: nat
  ev_attempted_value :: "64 word"
  ev_ifindex :: nat
  ev_verdict :: nat
  ev_comm :: string

text \<open>
  A \<^verbatim>\<open>bpf\<close> system call as the probe sees it: the command, the descriptor with the caller's
  descriptor table (its size, and the identity of the map behind a descriptor, if the kernel
  structures can be read that far), the key and value read from user memory, and the caller.
\<close>

record bpf_call =
  bc_cmd :: nat
  bc_map_fd :: nat
  bc_max_fds :: nat
  bc_fd_map :: "nat \<Rightarrow> nat option"
  bc_key :: nat
  bc_value :: "64 word"
  bc_tgid :: nat
  bc_uid :: nat
  bc_comm :: string
  bc_time :: nat

text \<open>\<open>reserve_ok\<close>: the ring buffer has room.\<close>

definition hnc_check_bpf :: "hnc_lsm_ctrl option \<Rightarrow> bool \<Rightarrow> bpf_call \<Rightarrow> hnc_lsm_event option" where
  "hnc_check_bpf ctrl reserve_ok c =
     (if bc_cmd c \<noteq> BPF_MAP_UPDATE_ELEM_CMD then None
      else case ctrl of None \<Rightarrow> None
      | Some ct \<Rightarrow>
        if protected_map_id ct = 0 then None
        else if bc_map_fd c \<ge> bc_max_fds c then None
        else (let map_fd = bc_map_fd c AND 0xFFFF
          in if map_fd \<ge> bc_max_fds c then None
             else case bc_fd_map c map_fd of None \<Rightarrow> None
             | Some mid \<Rightarrow>
               if mid \<noteq> protected_map_id ct then None
               else if bc_key c \<noteq> protected_ifindex ct then None
               else if bc_tgid c = hotspotd_pid ct then None
               else if bc_value c \<noteq> U64_MAX then None
               else if reserve_ok then
                 Some \<lparr>ev_ts_ns = bc_time c, ev_caller_pid = bc_tgid c, ev_caller_uid = bc_uid c,
                       ev_attempted_value = bc_value c, ev_ifindex = bc_key c, ev_verdict = 1, ev_comm = cbuf 16 (bc_comm c)\<rparr>
               else None))"

section \<open>The loader\<close>

datatype hnc_lsm_state_t = HNC_LSM_DISABLED | HNC_LSM_ACTIVE | HNC_LSM_FAILED

record hnc_lsm_status_t =
  ls_state :: hnc_lsm_state_t
  ls_protected_map_id :: nat
  ls_protected_ifindex :: nat
  ls_hotspotd_pid :: nat
  ls_deny_count :: nat
  ls_allow_count :: nat
  ls_last_event_ts :: int
  ls_last_caller_comm :: string
  ls_fail_reason :: string

text \<open>
  The handles of the code are flags (present or \<^verbatim>\<open>NULL\<close>); \<open>lg_ctrl\<close> is the content of the control
  map while the BPF object is open.
\<close>

record lsm_state =
  lg_initialized :: bool
  lg_obj :: bool
  lg_link :: bool
  lg_rb :: bool
  lg_ctrl_map_fd :: int
  lg_events_map_fd :: int
  lg_target_limit_map_fd :: int
  lg_rb_thread_started :: bool
  lg_rb_should_stop :: bool
  lg_ctrl :: "hnc_lsm_ctrl option"
  lg_stat :: hnc_lsm_status_t

definition lsm_state0 :: lsm_state where
  "lsm_state0 = \<lparr>lg_initialized = False, lg_obj = False, lg_link = False, lg_rb = False, lg_ctrl_map_fd = - 1, lg_events_map_fd = - 1,
     lg_target_limit_map_fd = - 1, lg_rb_thread_started = False, lg_rb_should_stop = False, lg_ctrl = None,
     lg_stat = \<lparr>ls_state = HNC_LSM_DISABLED, ls_protected_map_id = 0, ls_protected_ifindex = 0, ls_hotspotd_pid = 0,
       ls_deny_count = 0, ls_allow_count = 0, ls_last_event_ts = 0, ls_last_caller_comm = [], ls_fail_reason = []\<rparr>\<rparr>"

definition set_fail :: "string \<Rightarrow> lsm_state \<Rightarrow> lsm_state" where
  "set_fail msg g = g\<lparr>lg_stat := (lg_stat g)\<lparr>ls_state := HNC_LSM_FAILED, ls_fail_reason := cbuf 128 (cbuf 128 msg)\<rparr>\<rparr>"

text \<open>\<^const>\<open>None\<close>: the file cannot be opened.\<close>

definition probe_bpf_lsm_active :: "string option \<Rightarrow> int" where
  "probe_bpf_lsm_active file = (case file of None \<Rightarrow> - 1 | Some t \<Rightarrow> if strstr ''bpf'' (cstr (take 255 t)) \<noteq> None then 1 else 0)"

text \<open>
  The event consumer.  \<open>K\<close> is the kernel interface of the adapter; the counter-write uses
  \<^verbatim>\<open>BPF_ANY\<close>.
\<close>

definition ringbuf_handle_event :: "'k bpf_kernel \<Rightarrow> time_t \<Rightarrow> hnc_lsm_event \<Rightarrow> lsm_state \<times> 'k \<Rightarrow> lsm_state \<times> 'k" where
  "ringbuf_handle_event K now ev = (\<lambda>(g, k).
     let st = lg_stat g;
         st1 = (if ev_verdict ev \<noteq> 0 then st\<lparr>ls_deny_count := ls_deny_count st + 1\<rparr> else st\<lparr>ls_allow_count := ls_allow_count st + 1\<rparr>);
         g1 = g\<lparr>lg_stat := st1\<lparr>ls_last_event_ts := now, ls_last_caller_comm := cbuf 16 (ev_comm ev)\<rparr>\<rparr>
     in if ev_verdict ev \<noteq> 0 \<and> lg_target_limit_map_fd g \<ge> 0
        then (g1, snd (k_update K (lg_target_limit_map_fd g) (ev_ifindex ev) 0 False k))
        else (g1, k))"

record lsm_env =
  le_obj_get :: "string + int"
  le_info :: "string + nat"
  le_open :: "string option"
  le_load :: "string option"
  le_prog :: bool
  le_maps :: "(int \<times> int) option"
  le_ctrl_update :: "string option"
  le_attach :: "string option"
  le_rb_new :: "string option"
  le_thread_ok :: bool
  le_pid :: nat

text \<open>
  The eight steps of the start-up (the first one only logs).  The control record is written in
  step 6 and exists as long as the object is open.
\<close>

definition hnc_lsm_init :: "lsm_env \<Rightarrow> nat \<Rightarrow> lsm_state \<Rightarrow> int \<times> lsm_state" where
  "hnc_lsm_init env initial_ifindex g =
     (if lg_initialized g then (0, g)
      else let g0 = g\<lparr>lg_stat := (lg_stat g)\<lparr>ls_state := HNC_LSM_DISABLED, ls_hotspotd_pid := le_pid env\<rparr>\<rparr>
        in case le_obj_get env of
          Inl e \<Rightarrow> (- 1, set_fail e g0)
        | Inr fd \<Rightarrow>
          (let g1 = g0\<lparr>lg_target_limit_map_fd := fd\<rparr>
           in case le_info env of
             Inl e \<Rightarrow> (- 1, set_fail e g1)
           | Inr mid \<Rightarrow>
             (let g2 = g1\<lparr>lg_stat := (lg_stat g1)\<lparr>ls_protected_map_id := mid, ls_protected_ifindex := initial_ifindex\<rparr>\<rparr>
              in case le_open env of
                Some e \<Rightarrow> (- 1, (set_fail e g2)\<lparr>lg_obj := False\<rparr>)
              | None \<Rightarrow>
                (let g3 = g2\<lparr>lg_obj := True\<rparr>; closed = (\<lambda>g. g\<lparr>lg_obj := False, lg_ctrl := None\<rparr>)
                 in case le_load env of
                   Some e \<Rightarrow> (- 1, closed (set_fail e g3))
                 | None \<Rightarrow>
                   if \<not> le_prog env then (- 1, closed (set_fail ''find prog 'hnc_check_bpf' failed'' g3))
                   else case le_maps env of
                     None \<Rightarrow> (- 1, closed (set_fail ''find map ctrl/events failed'' g3))
                   | Some (cfd, efd) \<Rightarrow>
                     (let g5 = g3\<lparr>lg_ctrl_map_fd := cfd, lg_events_map_fd := efd\<rparr>
                      in case le_ctrl_update env of
                        Some e \<Rightarrow> (- 1, closed (set_fail e g5))
                      | None \<Rightarrow>
                        (let g6 = g5\<lparr>lg_ctrl := Some \<lparr>protected_map_id = ls_protected_map_id (lg_stat g5), protected_ifindex = initial_ifindex,
                                                       hotspotd_pid = le_pid env, enabled = 1\<rparr>\<rparr>
                         in case le_attach env of
                           Some e \<Rightarrow> (- 1, closed ((set_fail e g6)\<lparr>lg_link := False\<rparr>))
                         | None \<Rightarrow>
                           (let g7 = g6\<lparr>lg_link := True\<rparr>
                            in case le_rb_new env of
                              Some e \<Rightarrow> (- 1, closed ((set_fail e g7)\<lparr>lg_link := False\<rparr>))
                            | None \<Rightarrow>
                              (let g8 = g7\<lparr>lg_rb := True, lg_rb_should_stop := False\<rparr>;
                                   g9 = (if le_thread_ok env then g8\<lparr>lg_rb_thread_started := True\<rparr> else g8)
                               in (0, g9\<lparr>lg_stat := (lg_stat g9)\<lparr>ls_state := HNC_LSM_ACTIVE, ls_fail_reason := []\<rparr>,
                                         lg_initialized := True\<rparr>)))))))))"

text \<open>\<open>lookup_ok\<close> and \<open>update_ok\<close> are the outcomes of the two calls on the control map.\<close>

definition hnc_lsm_update_ifindex :: "bool \<Rightarrow> bool \<Rightarrow> nat \<Rightarrow> lsm_state \<Rightarrow> int \<times> lsm_state" where
  "hnc_lsm_update_ifindex lookup_ok update_ok new_ifindex g =
     (if \<not> lg_initialized g \<or> lg_ctrl_map_fd g < 0 then (- 1, g)
      else if \<not> lookup_ok then (- 1, g)
      else if \<not> update_ok then (- 1, g)
      else (0, g\<lparr>lg_ctrl := map_option (\<lambda>v. v\<lparr>protected_ifindex := new_ifindex\<rparr>) (lg_ctrl g),
                 lg_stat := (lg_stat g)\<lparr>ls_protected_ifindex := new_ifindex\<rparr>\<rparr>))"

definition hnc_lsm_shutdown :: "lsm_state \<Rightarrow> lsm_state" where
  "hnc_lsm_shutdown g =
     (if \<not> lg_initialized g then g
      else g\<lparr>lg_rb_should_stop := True, lg_rb_thread_started := False, lg_rb := False, lg_link := False, lg_obj := False, lg_ctrl := None,
             lg_target_limit_map_fd := (if lg_target_limit_map_fd g \<ge> 0 then - 1 else lg_target_limit_map_fd g),
             lg_initialized := False\<rparr>)"

definition hnc_lsm_get_status :: "lsm_state \<Rightarrow> hnc_lsm_status_t" where
  "hnc_lsm_get_status g = lg_stat g"

definition qkey :: "string \<Rightarrow> string" where "qkey s = [DQ] @ s @ [DQ] @ '':''"
definition qstr :: "string \<Rightarrow> string" where "qstr s = [DQ] @ s @ [DQ]"

definition lsm_fragment_text :: "hnc_lsm_status_t \<Rightarrow> string" where
  "lsm_fragment_text st =
     (let state_str = (case ls_state st of HNC_LSM_ACTIVE \<Rightarrow> ''active'' | HNC_LSM_FAILED \<Rightarrow> ''failed'' | HNC_LSM_DISABLED \<Rightarrow> ''disabled'')
      in qkey ''lsm'' @ ''{'' @ qkey ''state'' @ qstr state_str @ '','' @
         qkey ''protected_map_id'' @ dec_nat (ls_protected_map_id st) @ '','' @
         qkey ''protected_ifindex'' @ dec_nat (ls_protected_ifindex st) @ '','' @
         qkey ''hotspotd_pid'' @ dec_nat (ls_hotspotd_pid st) @ '','' @
         qkey ''deny_count'' @ dec_nat (ls_deny_count st) @ '','' @
         qkey ''allow_count'' @ dec_nat (ls_allow_count st) @ '','' @
         qkey ''last_event_ts'' @ dec_int (ls_last_event_ts st) @ '','' @
         qkey ''last_caller'' @ qstr (ls_last_caller_comm st) @ '','' @
         qkey ''fail_reason'' @ qstr (ls_fail_reason st) @ ''}'')"

text \<open>\<^const>\<open>None\<close> is the code's \<open>-1\<close>: the text did not fit.\<close>

definition hnc_lsm_status_to_json_fragment :: "hnc_lsm_status_t \<Rightarrow> nat \<Rightarrow> string option" where
  "hnc_lsm_status_to_json_fragment st buf_size =
     (if length (lsm_fragment_text st) \<ge> buf_size then None else Some (lsm_fragment_text st))"

section \<open>Properties\<close>

text \<open>
  The probe reports an update of the protected map at the protected entry with the unlimited quota by another process,
  as long as its descriptor is below the 16-bit mask and the ring buffer has room.  (The \<^verbatim>\<open>enabled\<close> field of the control record plays no part,
  and neither does the value 0 of the protected interface.)
\<close>

lemma guard_reports_exactly:
  assumes "protected_map_id ct \<noteq> 0" and "bc_map_fd c < 65536" and "room"
  shows "hnc_check_bpf (Some ct) room c =
     (if bc_cmd c = 2 \<and> bc_map_fd c < bc_max_fds c \<and> bc_fd_map c (bc_map_fd c) = Some (protected_map_id ct) \<and>
         bc_key c = protected_ifindex ct \<and> bc_value c = U64_MAX \<and> bc_tgid c \<noteq> hotspotd_pid ct
      then Some \<lparr>ev_ts_ns = bc_time c, ev_caller_pid = bc_tgid c, ev_caller_uid = bc_uid c, ev_attempted_value = U64_MAX,
                 ev_ifindex = protected_ifindex ct, ev_verdict = 1, ev_comm = cbuf 16 (bc_comm c)\<rparr>
      else None)"
proof -
  have m: "bc_map_fd c AND 0xFFFF = bc_map_fd c"
  proof -
    have "take_bit 16 (bc_map_fd c) = bc_map_fd c" using assms(2) by (simp add: take_bit_nat_eq_self)
    then show ?thesis by (simp add: take_bit_eq_mask mask_eq_exp_minus_1)
  qed
  show ?thesis using assms(1,3) by (simp add: hnc_check_bpf_def BPF_MAP_UPDATE_ELEM_CMD_def m split: option.split)
qed

definition demo_call :: bpf_call where
  "demo_call = \<lparr>bc_cmd = 2, bc_map_fd = 5, bc_max_fds = 64, bc_fd_map = (\<lambda>_. Some 9), bc_key = 7, bc_value = U64_MAX,
     bc_tgid = 100, bc_uid = 1000, bc_comm = ''netd'', bc_time = 1\<rparr>"

text \<open>
  Start-up either succeeds, and then the guard is active with probe, ring buffer and
  control record for the given interface; or it fails, and then it is marked failed with a
  reason, nothing is attached and the object is closed.
\<close>

lemma lsm_init_outcome:
  assumes "\<not> lg_initialized g" and "\<not> lg_link g" and "\<not> lg_obj g" and "lg_ctrl g = None" and "hnc_lsm_init env i g = (rc, g')"
  shows "(rc = 0 \<and> lg_initialized g' \<and> lg_link g' \<and> lg_rb g' \<and> ls_state (lg_stat g') = HNC_LSM_ACTIVE \<and>
          (\<exists>ct. lg_ctrl g' = Some ct \<and> protected_ifindex ct = i \<and> hotspotd_pid ct = le_pid env \<and> protected_map_id ct = ls_protected_map_id (lg_stat g'))) \<or>
         (rc = - 1 \<and> \<not> lg_initialized g' \<and> \<not> lg_link g' \<and> \<not> lg_obj g' \<and> lg_ctrl g' = None \<and> ls_state (lg_stat g') = HNC_LSM_FAILED)"
  using assms by (auto simp: hnc_lsm_init_def set_fail_def Let_def split: sum.splits option.splits if_splits prod.splits)

definition demo_lsm_env :: lsm_env where
  "demo_lsm_env = \<lparr>le_obj_get = Inr 4, le_info = Inr 9, le_open = None, le_load = None, le_prog = True, le_maps = Some (5, 6),
     le_ctrl_update = None, le_attach = Some ''attach_kprobe: Operation not supported'', le_rb_new = None, le_thread_ok = True, le_pid = 42\<rparr>"

lemma lsm_init_outcome_witness:
  "ls_state (lg_stat (snd (hnc_lsm_init demo_lsm_env 7 lsm_state0))) = HNC_LSM_FAILED"
proof -
  have "fst (hnc_lsm_init demo_lsm_env 7 lsm_state0) = - 1"
    by (simp add: hnc_lsm_init_def demo_lsm_env_def lsm_state0_def Let_def)
  with lsm_init_outcome[OF _ _ _ _ prod.collapse[symmetric], of lsm_state0 demo_lsm_env 7] show ?thesis
    by (simp add: lsm_state0_def)
qed

text \<open>
  A start-up that fails after the limit map was opened leaks its descriptor: the
  descriptor stays open although the guard is not initialised, and the shutdown, which does
  nothing in that state, never closes it.
\<close>

lemma lsm_init_leaks_fd:
  assumes "\<not> lg_initialized g" and "le_obj_get env = Inr fd" and "hnc_lsm_init env i g = (- 1, g')"
  shows "lg_target_limit_map_fd (hnc_lsm_shutdown g') = fd \<and> hnc_lsm_shutdown g' = g'"
proof -
  have "\<not> lg_initialized g' \<and> lg_target_limit_map_fd g' = fd"
    using assms by (auto simp: hnc_lsm_init_def set_fail_def Let_def split: sum.splits option.splits if_splits prod.splits)
  then show ?thesis by (simp add: hnc_lsm_shutdown_def)
qed

lemma lsm_init_leaks_fd_witness:
  "lg_target_limit_map_fd (hnc_lsm_shutdown (snd (hnc_lsm_init demo_lsm_env 7 lsm_state0))) = 4"
proof -
  have "hnc_lsm_init demo_lsm_env 7 lsm_state0 = (- 1, snd (hnc_lsm_init demo_lsm_env 7 lsm_state0))"
    by (simp add: hnc_lsm_init_def demo_lsm_env_def lsm_state0_def Let_def)
  moreover have "\<not> lg_initialized lsm_state0" "le_obj_get demo_lsm_env = Inr 4" by (simp_all add: lsm_state0_def demo_lsm_env_def)
  ultimately show ?thesis using lsm_init_leaks_fd by blast
qed

text \<open>A started guard: the descriptor it writes through and the control record that the probe reads.\<close>

lemma lsm_init_started:
  assumes "\<not> lg_initialized g0" and "hnc_lsm_init env i g0 = (0, g)"
  shows "\<exists>mid. le_info env = Inr mid \<and> le_obj_get env = Inr (lg_target_limit_map_fd g) \<and>
    lg_ctrl g = Some \<lparr>protected_map_id = mid, protected_ifindex = i, hotspotd_pid = le_pid env, enabled = 1\<rparr>"
  using assms by (auto simp: hnc_lsm_init_def set_fail_def Let_def split: sum.splits option.splits if_splits prod.splits)

text \<open>A counter-write through a descriptor of the limit map writes the one entry and counts the event.\<close>

lemma counter_write_effect:
  assumes "kernel_maps K V" and "ev_verdict ev \<noteq> 0" and "0 \<le> lg_target_limit_map_fd g" and "v_fd V k (lg_target_limit_map_fd g) = Some BPF_LIMIT_MAP"
    and "fst (k_update K (lg_target_limit_map_fd g) (ev_ifindex ev) 0 False k) = 0" and "ringbuf_handle_event K now ev (g, k) = (g', k')"
  shows "v_map V k' = maps_with V k (ev_ifindex ev) (Some 0) \<and> v_fd V k' = v_fd V k \<and> ls_deny_count (lg_stat g') = ls_deny_count (lg_stat g) + 1"
proof -
  obtain e k2 where u: "k_update K (lg_target_limit_map_fd g) (ev_ifindex ev) 0 False k = (e, k2)" by (rule prod.exhaust)
  then have "k' = k2" "ls_deny_count (lg_stat g') = ls_deny_count (lg_stat g) + 1" using assms(2,3,6) by (auto simp: ringbuf_handle_event_def Let_def)
  with kernel_update_limit[OF assms(1) u] assms(4,5) u show ?thesis by simp
qed


definition active_lsm_env :: lsm_env where
  "active_lsm_env = demo_lsm_env\<lparr>le_obj_get := Inr 3, le_attach := None\<rparr>"

definition guarded_maps :: "64 word \<Rightarrow> pinned_maps" where
  "guarded_maps v = (demo_maps [7 \<mapsto> v])\<lparr>pm_fds := [(3, BPF_LIMIT_MAP)], pm_next := 4\<rparr>"


end
