(* ===== verification/Scheduler.thy ===== *)
theory Scheduler
  imports AdapterBpf LsmGuard
begin

text \<open>
  The offload scheduler, \<^verbatim>\<open>daemon/hotspotd/scheduler.c\<close>: the set of limited devices, its rebuild from
  \<^verbatim>\<open>rules.json\<close>, the transitions that shut and reopen the fast path through the elected adapter,
  the periodic worker, start-up and shutdown, and the status summary.  An operation that holds
  \<^verbatim>\<open>sched.lock\<close> throughout is one step.  Results of the upstream detection, of thread creation and
  of the clock are arguments.  Where the code only logs the result of an adapter call, the
  model returns it.
\<close>

definition HNC_SCHED_MAX_LIMITED_DEVICES :: nat where "HNC_SCHED_MAX_LIMITED_DEVICES = 256"
definition HNC_SCHED_IFNAME_LEN :: nat where "HNC_SCHED_IFNAME_LEN = 16"

record 'w sched_state =
  sc_initialized :: bool
  sc_adapter :: "'w offload_adapter_t option"
  limited_macs :: "string list"
  limited_count :: nat
  primary_upstream_ifindex :: int
  primary_upstream_ifname :: string
  worker_started :: bool
  worker_should_stop :: bool
  worker_refresh_requested :: bool
  worker_last_refresh_ts :: int
  worker_refresh_count :: int

definition sched0 :: "'w sched_state" where
  "sched0 = \<lparr>sc_initialized = False, sc_adapter = None, limited_macs = replicate HNC_SCHED_MAX_LIMITED_DEVICES [],
     limited_count = 0, primary_upstream_ifindex = 0, primary_upstream_ifname = [], worker_started = False,
     worker_should_stop = False, worker_refresh_requested = False, worker_last_refresh_ts = 0, worker_refresh_count = 0\<rparr>"

text \<open>The scheduler with the guard, the adapter's world and the election's \<^verbatim>\<open>s_active\<close>.\<close>

record 'w sched_sys =
  sy_sched :: "'w sched_state"
  sy_lsm :: lsm_state
  sy_world :: 'w
  sy_active :: "'w offload_adapter_t option"

section \<open>The limited set\<close>

fun normalize_mac_loop :: "nat \<Rightarrow> string \<Rightarrow> string \<Rightarrow> string option" where
  "normalize_mac_loop i [] out = (if i < 17 then None else Some out)"
| "normalize_mac_loop i (c # cs) out =
     (if i < 17 then
        (if i mod 3 = 2 then (if c \<noteq> CHR '':'' then None else normalize_mac_loop (i + 1) cs (out @ '':''))
         else if \<not> c_isxdigit c then None else normalize_mac_loop (i + 1) cs (out @ [c_tolower c]))
      else if c \<noteq> LF \<and> c \<noteq> CHR '' '' then None else Some out)"

definition normalize_mac :: "string \<Rightarrow> string option" where
  "normalize_mac s = normalize_mac_loop 0 s []"

definition limited_items :: "'w sched_state \<Rightarrow> string list" where
  "limited_items s = take (limited_count s) (limited_macs s)"

definition limited_set_find :: "string \<Rightarrow> 'w sched_state \<Rightarrow> nat option" where
  "limited_set_find mac s = find_index (\<lambda>m. m = mac) (limited_items s)"

text \<open>The new index, or \<^const>\<open>None\<close> for the code's \<open>-1\<close>.\<close>

definition limited_set_add :: "string \<Rightarrow> 'w sched_state \<Rightarrow> nat option \<times> 'w sched_state" where
  "limited_set_add mac s =
     (if limited_set_find mac s \<noteq> None then (None, s)
      else if limited_count s \<ge> HNC_SCHED_MAX_LIMITED_DEVICES then (None, s)
      else (Some (limited_count s),
            s\<lparr>limited_macs := (limited_macs s)[limited_count s := cbuf 18 mac], limited_count := limited_count s + 1\<rparr>))"

definition limited_set_remove :: "string \<Rightarrow> 'w sched_state \<Rightarrow> 'w sched_state" where
  "limited_set_remove mac s =
     (case limited_set_find mac s of
        None \<Rightarrow> s
      | Some idx \<Rightarrow>
          (let last_idx = limited_count s - 1;
               macs = (if idx \<noteq> last_idx then (limited_macs s)[idx := limited_macs s ! last_idx] else limited_macs s)
           in s\<lparr>limited_macs := macs[last_idx := []], limited_count := last_idx\<rparr>))"

section \<open>Rebuild from the rules file\<close>

text \<open>One turn of the search for a true field: the verdict, or the text where the search goes on.\<close>

definition json_bool_step :: "string \<Rightarrow> string \<Rightarrow> bool + string" where
  "json_bool_step needle p =
     (case strstr needle p of
        None \<Rightarrow> Inl False
      | Some p1 \<Rightarrow>
          (let q = dropWhile c_isspace (drop (length needle) p1)
           in if cget q 0 \<noteq> CHR '':'' then Inr q
              else let q2 = dropWhile c_isspace (tl q)
                   in if prefix ''true'' q2 \<and> (cget q2 4 = NUL \<or> cget q2 4 = CHR '','' \<or> cget q2 4 = CHR ''}'' \<or> c_isspace (cget q2 4))
                      then Inl True else Inr q2))"

lemma json_bool_step_length: "needle \<noteq> [] \<Longrightarrow> json_bool_step needle p = Inr p' \<Longrightarrow> length p' < length p"
proof -
  assume n: "needle \<noteq> []" and s: "json_bool_step needle p = Inr p'"
  then obtain p1 where p1: "strstr needle p = Some p1" by (auto simp: json_bool_step_def split: option.splits)
  have "length p1 \<le> length p" using strstr_length[OF p1] .
  moreover have "length needle \<le> length p1" using strstr_prefix[OF p1] by (rule prefix_length_le)
  ultimately have a: "length (dropWhile c_isspace (drop (length needle) p1)) < length p"
    using n length_dropWhile_le[of c_isspace "drop (length needle) p1"] by (cases needle) auto
  have "length (dropWhile c_isspace (tl q)) \<le> length q" for q :: string
    by (metis diff_le_self le_trans length_dropWhile_le length_tl)
  with a s p1 show ?thesis by (fastforce simp: json_bool_step_def Let_def split: if_splits intro: le_less_trans)
qed

function json_bool_loop :: "string \<Rightarrow> string \<Rightarrow> bool" where
  "json_bool_loop needle p =
     (if needle = [] then False else case json_bool_step needle p of Inl r \<Rightarrow> r | Inr p' \<Rightarrow> json_bool_loop needle p')"
  by pat_completeness auto
termination by (relation "measure (\<lambda>(n, p). length p)") (auto dest!: json_bool_step_length)

declare json_bool_loop.simps [simp del]

definition json_bool_true_in_block :: "string \<Rightarrow> string \<Rightarrow> bool" where
  "json_bool_true_in_block block key = json_bool_loop (cbuf 96 (DQ # key @ [DQ])) block"

text \<open>
  The brace counting: the text before the brace that closes depth \<open>d\<close>, and the text after it.
\<close>

fun brace_span :: "nat \<Rightarrow> bool \<Rightarrow> bool \<Rightarrow> string \<Rightarrow> (string \<times> string) option" where
  "brace_span d in_string escape [] = None"
| "brace_span d in_string escape (c # cs) =
     (let more = (\<lambda>d' i' e'. map_option (\<lambda>(u, v). (c # u, v)) (brace_span d' i' e' cs))
      in if escape then more d in_string False
         else if c = BSL then more d in_string True
         else if c = DQ then more d (\<not> in_string) False
         else if in_string then more d in_string False
         else if c = CHR ''{'' then more (d + 1) in_string False
         else if c = CHR ''}'' then (if d - 1 = 0 then Some ([], cs) else more (d - 1) in_string False)
         else more d in_string False)"

definition is_mac_key :: "string \<Rightarrow> bool" where
  "is_mac_key q \<longleftrightarrow> 18 < length q \<and> q ! 3 = CHR '':'' \<and> q ! 6 = CHR '':'' \<and> q ! 9 = CHR '':'' \<and> q ! 12 = CHR '':'' \<and>
     q ! 15 = CHR '':'' \<and> q ! 18 = DQ"

text \<open>One turn of the scan of the device entries, on the text of the devices object.\<close>

definition rebuild_step :: "string \<Rightarrow> nat \<times> 'w sched_state \<Rightarrow> (string \<times> nat \<times> 'w sched_state) option" where
  "rebuild_step p st =
     (case strchr DQ p of
        None \<Rightarrow> None
      | Some q \<Rightarrow>
          if \<not> is_mac_key q then
            (case strchr DQ (tl q) of None \<Rightarrow> None | Some p' \<Rightarrow> Some (tl p', st))
          else
            (case strchr (CHR ''{'') (drop 19 q) of
               None \<Rightarrow> None
             | Some bo \<Rightarrow>
                 (case brace_span 1 False False (tl bo) of
                    None \<Rightarrow> None
                  | Some (inside, rest) \<Rightarrow>
                      Some (rest,
                        (if json_bool_true_in_block (CHR ''{'' # inside @ ''}'') ''limit_enabled'' then
                           (case normalize_mac (take 17 (tl q)) of
                              None \<Rightarrow> st
                            | Some norm \<Rightarrow>
                                (case limited_set_add norm (snd st) of (r, s') \<Rightarrow> (if r \<noteq> None then fst st + 1 else fst st, s')))
                         else st)))))"

lemma brace_span_split: "brace_span d i e s = Some (u, v) \<Longrightarrow> s = u @ CHR ''}'' # v"
  by (induction d i e s arbitrary: u rule: brace_span.induct) (auto simp: Let_def split: if_splits)

lemma rebuild_step_length: "rebuild_step p st = Some (p', st') \<Longrightarrow> length p' < length p"
proof -
  assume a: "rebuild_step p st = Some (p', st')"
  then obtain q where q: "strchr DQ p = Some q" by (auto simp: rebuild_step_def split: option.splits)
  obtain q' where q': "q = DQ # q'" "length q \<le> length p" using strchr_Some_Cons[OF q] strchr_length[OF q] by auto
  show ?thesis
  proof (cases "is_mac_key q")
    case False
    with a q obtain r where r: "strchr DQ (tl q) = Some r" "p' = tl r" by (auto simp: rebuild_step_def split: option.splits)
    show ?thesis using strchr_length[OF r(1)] r(2) q' by simp
  next
    case True
    with a q obtain bo u where b: "strchr (CHR ''{'') (drop 19 q) = Some bo" "brace_span 1 False False (tl bo) = Some (u, p')"
      by (auto simp: rebuild_step_def split: option.splits)
    have "length bo \<le> length q - 19" using strchr_length[OF b(1)] by simp
    moreover have "length p' < length (tl bo)" using brace_span_split[OF b(2)] by simp
    ultimately show ?thesis using q' by simp
  qed
qed

function rebuild_loop :: "string \<Rightarrow> nat \<times> 'w sched_state \<Rightarrow> nat \<times> 'w sched_state" where
  "rebuild_loop p st = (case rebuild_step p st of None \<Rightarrow> st | Some (p', st') \<Rightarrow> rebuild_loop p' st')"
  by pat_completeness auto
termination by (relation "measure (\<lambda>(p, st). length p)") (auto dest!: rebuild_step_length)

declare rebuild_loop.simps [simp del]

definition rebuild_from_rules :: "string option \<Rightarrow> 'w sched_state \<Rightarrow> nat \<times> 'w sched_state" where
  "rebuild_from_rules file s =
     (case file of
        None \<Rightarrow> (0, s)
      | Some content \<Rightarrow>
          (let buf = cstr (take 16383 content)
           in if take 16383 content = [] then (0, s)
              else case strstr (DQ # ''devices'' @ [DQ]) buf of
                None \<Rightarrow> (0, s)
              | Some dev_start \<Rightarrow>
                  (case strchr (CHR ''{'') dev_start of
                     None \<Rightarrow> (0, s)
                   | Some obj_start \<Rightarrow>
                       (case brace_span 1 False False (tl obj_start) of
                          None \<Rightarrow> (0, s)
                        | Some (body, _) \<Rightarrow> rebuild_loop body (0, s)))))"

section \<open>Triggers\<close>

text \<open>\<open>detect\<close> is what \<^verbatim>\<open>upstream_detect_primary\<close> yields: \<^const>\<open>None\<close> when every tier failed.\<close>

definition refresh_primary_upstream_locked :: "(int \<times> string) option \<Rightarrow> 'w sched_state \<Rightarrow> 'w sched_state" where
  "refresh_primary_upstream_locked detect s =
     (case detect of
        Some (idx, name) \<Rightarrow>
          s\<lparr>primary_upstream_ifindex := idx, primary_upstream_ifname := cbuf HNC_SCHED_IFNAME_LEN (cbuf HNC_SCHED_IFNAME_LEN name)\<rparr>
      | None \<Rightarrow> if primary_upstream_ifindex s = 0 then s\<lparr>primary_upstream_ifname := []\<rparr> else s)"

definition call_op :: "('w \<Rightarrow> offload_err_t \<times> 'w) option \<Rightarrow> 'w \<Rightarrow> offload_err_t option \<times> 'w" where
  "call_op f w = (case f of None \<Rightarrow> (None, w) | Some g \<Rightarrow> (case g w of (e, w') \<Rightarrow> (Some e, w')))"

definition trigger_adapter_disable_locked :: "'w sched_state \<Rightarrow> 'w \<Rightarrow> offload_err_t option \<times> 'w" where
  "trigger_adapter_disable_locked s w =
     (case sc_adapter s of
        None \<Rightarrow> (None, w)
      | Some a \<Rightarrow>
          (case ad_granularity a of
             OFFLOAD_GRAN_PER_UPSTREAM \<Rightarrow>
               if primary_upstream_ifindex s \<le> 0 then call_op (ad_disable_global a) w
               else call_op (map_option (\<lambda>g. g (primary_upstream_ifindex s)) (ad_disable_upstream a)) w
           | OFFLOAD_GRAN_GLOBAL \<Rightarrow> call_op (ad_disable_global a) w
           | _ \<Rightarrow> (None, w)))"

definition trigger_adapter_restore_locked :: "'w sched_state \<Rightarrow> 'w \<Rightarrow> offload_err_t option \<times> 'w" where
  "trigger_adapter_restore_locked s w =
     (case sc_adapter s of
        None \<Rightarrow> (None, w)
      | Some a \<Rightarrow>
          (case ad_granularity a of
             OFFLOAD_GRAN_PER_UPSTREAM \<Rightarrow>
               if ad_restore_global a \<noteq> None then call_op (ad_restore_global a) w
               else if ad_restore_upstream a \<noteq> None \<and> primary_upstream_ifindex s > 0
               then call_op (map_option (\<lambda>g. g (primary_upstream_ifindex s)) (ad_restore_upstream a)) w
               else (None, w)
           | OFFLOAD_GRAN_GLOBAL \<Rightarrow> call_op (ad_restore_global a) w
           | _ \<Rightarrow> (None, w)))"

section \<open>Notification and forced operations\<close>

definition hnc_scheduler_request_refresh :: "'w sched_state \<Rightarrow> 'w sched_state" where
  "hnc_scheduler_request_refresh s =
     (if \<not> sc_initialized s \<or> \<not> worker_started s then s else s\<lparr>worker_refresh_requested := True\<rparr>)"

definition hnc_scheduler_notify_device_limit_changed ::
  "(int \<times> string) option \<Rightarrow> string \<Rightarrow> bool \<Rightarrow> 'w sched_sys \<Rightarrow> offload_err_t option \<times> 'w sched_sys" where
  "hnc_scheduler_notify_device_limit_changed detect mac is_limited y =
     (let s = sy_sched y in
      if \<not> sc_initialized s then (None, y)
      else case normalize_mac mac of
        None \<Rightarrow> (None, y)
      | Some norm \<Rightarrow>
          (let old_count = limited_count s;
               s1 = (if is_limited then snd (limited_set_add norm s) else limited_set_remove norm s);
               new_count = limited_count s1;
               triggered_disable = (old_count = 0 \<and> new_count > 0);
               triggered_restore = (\<not> triggered_disable \<and> old_count > 0 \<and> new_count = 0);
               s2 = (if triggered_disable then refresh_primary_upstream_locked detect s1 else s1);
               (r, w) = (if triggered_disable then trigger_adapter_disable_locked s2 (sy_world y)
                         else if triggered_restore then trigger_adapter_restore_locked s2 (sy_world y) else (None, sy_world y));
               s3 = (if triggered_disable \<or> triggered_restore then hnc_scheduler_request_refresh s2 else s2)
           in (r, y\<lparr>sy_sched := s3, sy_world := w\<rparr>)))"

definition hnc_scheduler_force_disable_global :: "'w sched_sys \<Rightarrow> offload_err_t \<times> 'w sched_sys" where
  "hnc_scheduler_force_disable_global y =
     (if \<not> sc_initialized (sy_sched y) then (OFFLOAD_EINTERNAL, y)
      else case sc_adapter (sy_sched y) of
        None \<Rightarrow> (OFFLOAD_EINTERNAL, y)
      | Some a \<Rightarrow>
          (case ad_disable_global a of
             None \<Rightarrow> (OFFLOAD_ENOTSUP, y)
           | Some f \<Rightarrow> (case f (sy_world y) of (e, w) \<Rightarrow> (e, y\<lparr>sy_world := w\<rparr>))))"

definition hnc_scheduler_force_restore_global :: "'w sched_sys \<Rightarrow> offload_err_t \<times> 'w sched_sys" where
  "hnc_scheduler_force_restore_global y =
     (if \<not> sc_initialized (sy_sched y) then (OFFLOAD_EINTERNAL, y)
      else case sc_adapter (sy_sched y) of
        None \<Rightarrow> (OFFLOAD_EINTERNAL, y)
      | Some a \<Rightarrow>
          (case ad_restore_global a of
             None \<Rightarrow> (OFFLOAD_ENOTSUP, y)
           | Some f \<Rightarrow>
               (case f (sy_world y) of (e, w) \<Rightarrow> (e, y\<lparr>sy_sched := (sy_sched y)\<lparr>limited_count := 0\<rparr>, sy_world := w\<rparr>))))"

section \<open>Worker\<close>

text \<open>
  One iteration after the wait: \<^const>\<open>None\<close> when the worker leaves.  \<open>lsm_ok\<close> are the outcomes of the
  two control-map calls of the guard update.
\<close>

definition need_retrigger :: "int \<Rightarrow> int \<Rightarrow> nat \<Rightarrow> bool" where
  "need_retrigger prev_ifindex now_ifindex cnt \<longleftrightarrow>
     (prev_ifindex = 0 \<and> now_ifindex > 0 \<and> cnt > 0) \<or>
     (prev_ifindex > 0 \<and> now_ifindex > 0 \<and> prev_ifindex \<noteq> now_ifindex \<and> cnt > 0)"

text \<open>The section under \<^verbatim>\<open>sched.lock\<close>: the new state, the logged result and the world.\<close>

definition worker_probe :: "(int \<times> string) option \<Rightarrow> 'w sched_state \<Rightarrow> 'w \<Rightarrow> 'w sched_state \<times> offload_err_t option \<times> 'w" where
  "worker_probe detect s0 w =
     (let s1 = refresh_primary_upstream_locked detect s0
      in (s1, if need_retrigger (primary_upstream_ifindex s0) (primary_upstream_ifindex s1) (limited_count s1)
              then trigger_adapter_disable_locked s1 w else (None, w)))"

definition worker_iteration ::
  "(int \<times> string) option \<Rightarrow> bool \<times> bool \<Rightarrow> time_t \<Rightarrow> 'w sched_sys \<Rightarrow> (offload_err_t option \<times> 'w sched_sys) option" where
  "worker_iteration detect lsm_ok now y =
     (if worker_should_stop (sy_sched y) then None
      else
        let s0 = (sy_sched y)\<lparr>worker_refresh_requested := False\<rparr>;
            prev_ifindex = primary_upstream_ifindex s0
        in case worker_probe detect s0 (sy_world y) of (s1, r, w1) \<Rightarrow>
          (let now_ifindex = primary_upstream_ifindex s1;
               lsm1 = (if now_ifindex > 0 \<and> now_ifindex \<noteq> prev_ifindex
                       then snd (hnc_lsm_update_ifindex (fst lsm_ok) (snd lsm_ok) (nat now_ifindex) (sy_lsm y)) else sy_lsm y);
               w2 = (case sc_adapter s1 of None \<Rightarrow> w1 | Some a \<Rightarrow> snd (call_op (ad_refresh_active a) w1));
               s2 = s1\<lparr>worker_last_refresh_ts := now, worker_refresh_count := worker_refresh_count s1 + 1\<rparr>
           in Some (r, y\<lparr>sy_sched := s2, sy_lsm := lsm1, sy_world := w2\<rparr>)))"

section \<open>Start-up and shutdown\<close>

definition run_shutdown :: "'w offload_adapter_t \<Rightarrow> 'w \<Rightarrow> 'w" where
  "run_shutdown a w = (case ad_shutdown a of None \<Rightarrow> w | Some f \<Rightarrow> f w)"

text \<open>The choice of the adapter with the fall-backs to the null adapter.\<close>

definition init_adapter :: "'w offload_adapter_t \<Rightarrow> 'w \<Rightarrow> 'w offload_adapter_t \<times> 'w" where
  "init_adapter a w =
     (case ad_init a w of (e, w1) \<Rightarrow>
        if e \<noteq> OFFLOAD_OK then (adapter_null, snd (ad_init adapter_null w1))
        else case ad_self_check a of
          None \<Rightarrow> (a, w1)
        | Some check \<Rightarrow>
            (case check w1 of (sc, w2) \<Rightarrow>
               if sc \<noteq> OFFLOAD_OK then (adapter_null, snd (ad_init adapter_null (run_shutdown a w2))) else (a, w2)))"

record sched_env =
  se_detect1 :: "(int \<times> string) option"
  se_thread_rc :: int
  se_lsm_env :: lsm_env
  se_rules :: "string option"
  se_detect2 :: "(int \<times> string) option"

text \<open>The end of the start-up: the rebuild and its effect.\<close>

definition init_rebuild ::
  "string option \<Rightarrow> (int \<times> string) option \<Rightarrow> 'w sched_state \<Rightarrow> 'w \<Rightarrow> 'w sched_state \<times> offload_err_t option \<times> 'w" where
  "init_rebuild rules detect s w =
     (case rebuild_from_rules rules s of (rebuilt, s4) \<Rightarrow>
        if rebuilt > 0
        then (let s5 = refresh_primary_upstream_locked detect s4 in (s5, trigger_adapter_disable_locked s5 w))
        else (s4, None, w))"

definition hnc_scheduler_init ::
  "'w offload_adapter_t list \<Rightarrow> sched_env \<Rightarrow> 'w sched_sys \<Rightarrow> int \<times> offload_err_t option \<times> 'w sched_sys" where
  "hnc_scheduler_init adapters env y =
     (if sc_initialized (sy_sched y) then (0, None, y)
      else case offload_select_adapter adapters (sy_world y) (sy_active y) of
        (None, act) \<Rightarrow> (- 1, None, y\<lparr>sy_sched := (sy_sched y)\<lparr>sc_adapter := None\<rparr>, sy_active := act\<rparr>)
      | (Some a0, act) \<Rightarrow>
          (case init_adapter a0 (sy_world y) of (a, w1) \<Rightarrow>
             (let s1 = refresh_primary_upstream_locked (se_detect1 env) ((sy_sched y)\<lparr>sc_adapter := Some a\<rparr>);
                  s2 = s1\<lparr>worker_should_stop := False, worker_refresh_requested := False\<rparr>
              in if se_thread_rc env \<noteq> 0
                 then (- 1, None, y\<lparr>sy_sched := s2, sy_world := run_shutdown a w1, sy_active := Some a\<rparr>)
                 else
                   (let s3 = s2\<lparr>worker_started := True, sc_initialized := True\<rparr>;
                        lsm1 = (if ad_name a = ''bpf'' then snd (hnc_lsm_init (se_lsm_env env) (nat (primary_upstream_ifindex s3 mod 2 ^ 32)) (sy_lsm y)) else sy_lsm y);
                        (s4, r, w2) = init_rebuild (se_rules env) (se_detect2 env) s3 w1
                    in (0, r, y\<lparr>sy_sched := s4, sy_lsm := lsm1, sy_world := w2, sy_active := Some a\<rparr>)))))"

definition hnc_scheduler_shutdown :: "'w sched_sys \<Rightarrow> 'w sched_sys" where
  "hnc_scheduler_shutdown y =
     (let s = sy_sched y in
      if \<not> sc_initialized s then y
      else let s1 = (if worker_started s then s\<lparr>worker_should_stop := True, worker_started := False\<rparr> else s);
               w1 = (case sc_adapter s1 of None \<Rightarrow> sy_world y | Some a \<Rightarrow> run_shutdown a (sy_world y))
           in y\<lparr>sy_sched := s1\<lparr>sc_initialized := False\<rparr>, sy_lsm := hnc_lsm_shutdown (sy_lsm y), sy_world := w1\<rparr>)"

section \<open>Summary\<close>

record hnc_offload_summary_t =
  sm_adapter_name :: string
  sm_adapter_type :: nat
  sm_adapter_gran :: nat
  sm_active :: bool
  sm_last_refresh_ts :: int
  sm_last_delta_bytes :: "64 word"
  sm_globally_disabled :: bool
  sm_disabled_upstream_count :: nat
  sm_disabled_upstream_ifindex :: "int list"
  sm_limited_device_count :: nat
  sm_primary_upstream_ifindex :: int
  sm_primary_upstream_ifname :: string
  sm_worker_running :: bool
  sm_worker_last_refresh_ts :: int
  sm_worker_refresh_count :: int

definition sm_zero :: hnc_offload_summary_t where
  "sm_zero = \<lparr>sm_adapter_name = [], sm_adapter_type = 0, sm_adapter_gran = 0, sm_active = False, sm_last_refresh_ts = 0,
     sm_last_delta_bytes = 0, sm_globally_disabled = False, sm_disabled_upstream_count = 0, sm_disabled_upstream_ifindex = replicate 8 0,
     sm_limited_device_count = 0, sm_primary_upstream_ifindex = 0, sm_primary_upstream_ifname = [], sm_worker_running = False,
     sm_worker_last_refresh_ts = 0, sm_worker_refresh_count = 0\<rparr>"

definition hnc_scheduler_get_summary :: "'w sched_sys \<Rightarrow> hnc_offload_summary_t" where
  "hnc_scheduler_get_summary y =
     (let s = sy_sched y in
      case (if sc_initialized s then sc_adapter s else None) of
        None \<Rightarrow> sm_zero\<lparr>sm_adapter_name := cbuf 32 ''uninitialized''\<rparr>
      | Some a \<Rightarrow>
          (let st = (case ad_status a of None \<Rightarrow> os_zero | Some f \<Rightarrow> f (sy_world y));
               n = min (os_disabled_upstream_count st) 8
           in sm_zero\<lparr>sm_adapter_name := cbuf 32 (ad_name a), sm_adapter_type := offload_type_num (ad_type a),
                sm_adapter_gran := offload_gran_num (ad_granularity a), sm_active := os_active st,
                sm_last_refresh_ts := os_last_refresh_ts st, sm_last_delta_bytes := os_last_delta_bytes st,
                sm_globally_disabled := os_globally_disabled st, sm_disabled_upstream_count := os_disabled_upstream_count st,
                sm_disabled_upstream_ifindex := take n (os_disabled_upstream_ifindex st) @ replicate (8 - n) 0,
                sm_limited_device_count := limited_count s, sm_primary_upstream_ifindex := primary_upstream_ifindex s,
                sm_primary_upstream_ifname := cbuf HNC_SCHED_IFNAME_LEN (primary_upstream_ifname s),
                sm_worker_running := worker_started s, sm_worker_last_refresh_ts := worker_last_refresh_ts s,
                sm_worker_refresh_count := worker_refresh_count s\<rparr>))"

text \<open>
  The array text in its 128-byte buffer: \<open>acc\<close> is what has been written; \<^const>\<open>None\<close> is the jump to
  \<^verbatim>\<open>trunc\<close>.
\<close>

fun dis_arr_loop :: "bool \<Rightarrow> int list \<Rightarrow> string \<Rightarrow> string option" where
  "dis_arr_loop first [] acc = Some acc"
| "dis_arr_loop first (i # is) acc =
     (if length acc \<ge> 128 then Some acc
      else let w = (if first then [] else '','') @ dec_int i
           in if length w \<ge> 128 - length acc then None else dis_arr_loop False is (acc @ w))"

definition dis_arr :: "hnc_offload_summary_t \<Rightarrow> string" where
  "dis_arr s =
     (if sm_disabled_upstream_count s = 0 then ''[]''
      else case dis_arr_loop True (take (sm_disabled_upstream_count s) (sm_disabled_upstream_ifindex s)) ''['' of
        None \<Rightarrow> ''[]''
      | Some acc \<Rightarrow> if length acc < 128 then acc @ cbuf (128 - length acc) '']'' else acc)"

definition json_bool :: "bool \<Rightarrow> string" where
  "json_bool b = (if b then ''true'' else ''false'')"

definition summary_text :: "hnc_offload_summary_t \<Rightarrow> string" where
  "summary_text s =
     ''{'' @ qkey ''adapter'' @ ''{'' @ qkey ''name'' @ qstr (sm_adapter_name s) @ '','' @ qkey ''type'' @ dec_nat (sm_adapter_type s) @ '','' @
     qkey ''granularity'' @ dec_nat (sm_adapter_gran s) @ ''},'' @
     qkey ''active'' @ json_bool (sm_active s) @ '','' @
     qkey ''last_refresh_ts'' @ dec_int (sm_last_refresh_ts s) @ '','' @
     qkey ''last_delta_bytes'' @ dec_nat (unat (sm_last_delta_bytes s)) @ '','' @
     qkey ''globally_disabled'' @ json_bool (sm_globally_disabled s) @ '','' @
     qkey ''disabled_upstream_count'' @ dec_nat (sm_disabled_upstream_count s) @ '','' @
     qkey ''disabled_upstream_ifindex'' @ dis_arr s @ '','' @
     qkey ''limited_device_count'' @ dec_nat (sm_limited_device_count s) @ '','' @
     qkey ''primary_upstream_ifindex'' @ dec_int (sm_primary_upstream_ifindex s) @ '','' @
     qkey ''primary_upstream_ifname'' @ qstr (sm_primary_upstream_ifname s) @ '','' @
     qkey ''worker_running'' @ json_bool (sm_worker_running s) @ '','' @
     qkey ''worker_last_refresh_ts'' @ dec_int (sm_worker_last_refresh_ts s) @ '','' @
     qkey ''worker_refresh_count'' @ dec_int (sm_worker_refresh_count s) @ '',''"

definition hnc_scheduler_summary_to_json :: "hnc_offload_summary_t \<Rightarrow> lsm_state \<Rightarrow> nat \<Rightarrow> string option" where
  "hnc_scheduler_summary_to_json s g buf_size =
     (let t = summary_text s in
      if buf_size = 0 then None
      else if length t \<ge> buf_size then None
      else let body = (case hnc_lsm_status_to_json_fragment (hnc_lsm_get_status g) (buf_size - length t) of
                         None \<Rightarrow> (if t \<noteq> [] \<and> last t = CHR '','' then butlast t else t)
                       | Some frag \<Rightarrow> t @ frag)
           in if length body + 2 \<ge> buf_size then None else Some (body @ ''}''))"

section \<open>MAC addresses and the limited set\<close>

lemma normalize_mac_loop_shape:
  "normalize_mac_loop i s out = Some r \<Longrightarrow> length out = i \<Longrightarrow> i \<le> 17 \<Longrightarrow> \<exists>u v. s = u @ v \<and> length u = 17 - i \<and> r = out @ map c_tolower u \<and>
     (\<forall>j < 17 - i. if (i + j) mod 3 = 2 then u ! j = CHR '':'' else c_isxdigit (u ! j)) \<and> (v = [] \<or> hd v = LF \<or> hd v = CHR '' '')"
proof (induction i s out rule: normalize_mac_loop.induct)
  case (1 i out)
  then show ?case by (auto split: if_splits)
next
  case (2 i c cs out)
  show ?case
  proof (cases "i < 17")
    case False
    with 2 show ?thesis by (auto split: if_splits)
  next
    case True
    let ?o = "out @ [c_tolower c]"
    have c: "if i mod 3 = 2 then c = CHR '':'' else c_isxdigit c" using 2 True by (auto split: if_splits)
    have tc: "c_tolower (CHR '':'') = CHR '':''" by code_simp
    have nx: "normalize_mac_loop (i + 1) cs ?o = Some r" using 2(3) True tc by (auto split: if_splits)
    obtain u v where u: "cs = u @ v" "length u = 17 - (i + 1)" "r = ?o @ map c_tolower u"
      "\<forall>j < 17 - (i + 1). if (i + 1 + j) mod 3 = 2 then u ! j = CHR '':'' else c_isxdigit (u ! j)" "v = [] \<or> hd v = LF \<or> hd v = CHR '' ''"
      using 2(1,2) nx c tc True 2(4) by (cases "i mod 3 = 2") auto
    show ?thesis
    proof (intro exI conjI)
      show "c # cs = (c # u) @ v" using u by simp
      show "length (c # u) = 17 - i" using u True by simp
      show "r = out @ map c_tolower (c # u)" using u by simp
      show "\<forall>j<17 - i. if (i + j) mod 3 = 2 then (c # u) ! j = CHR '':'' else c_isxdigit ((c # u) ! j)"
      proof (intro allI impI)
        fix j assume j: "j < 17 - i"
        show "if (i + j) mod 3 = 2 then (c # u) ! j = CHR '':'' else c_isxdigit ((c # u) ! j)"
          using c u(4)[rule_format, of "j - 1"] j by (cases j) auto
      qed
    qed (rule u(5))
  qed
qed

text \<open>What \<open>normalize_mac\<close> accepts, and that its result is the lower-case address.\<close>

lemma normalize_mac_shape:
  assumes "normalize_mac s = Some r"
  shows "r = map c_tolower (take 17 s) \<and> length r = 17 \<and> 17 \<le> length s \<and>
    (\<forall>j < 17. if j mod 3 = 2 then s ! j = CHR '':'' else c_isxdigit (s ! j))"
proof -
  obtain u v where u: "s = u @ v" "length u = 17" "r = map c_tolower u"
    "\<forall>j < 17. if j mod 3 = 2 then u ! j = CHR '':'' else c_isxdigit (u ! j)"
    using normalize_mac_loop_shape[of 0 s "[]" r] assms by (auto simp: normalize_mac_def)
  have "s ! j = u ! j" if "j < 17" for j using u(1,2) that by (simp add: nth_append)
  with u show ?thesis by simp
qed

definition mac_fits :: "string \<Rightarrow> bool" where
  "mac_fits m \<longleftrightarrow> length m \<le> 17"

lemma normalize_mac_fits: "normalize_mac s = Some r \<Longrightarrow> mac_fits r"
  using normalize_mac_shape by (simp add: mac_fits_def)

definition limited_ok :: "'w sched_state \<Rightarrow> bool" where
  "limited_ok s \<longleftrightarrow> length (limited_macs s) = HNC_SCHED_MAX_LIMITED_DEVICES \<and>
     limited_count s \<le> HNC_SCHED_MAX_LIMITED_DEVICES \<and> distinct (limited_items s)"

lemma length_limited_items: "limited_ok s \<Longrightarrow> length (limited_items s) = limited_count s"
  by (simp add: limited_ok_def limited_items_def)

lemma limited_set_find_None: "limited_set_find m s = None \<longleftrightarrow> m \<notin> set (limited_items s)"
  by (auto simp: limited_set_find_def find_index_None)

lemma limited_add_items:
  assumes "limited_ok s" and "mac_fits m" and "m \<notin> set (limited_items s)" and "limited_count s < HNC_SCHED_MAX_LIMITED_DEVICES"
  shows "limited_items (snd (limited_set_add m s)) = limited_items s @ [m]"
proof -
  have "limited_set_find m s = None" "cbuf 18 m = m" using assms by (simp_all add: limited_set_find_None mac_fits_def)
  with assms show ?thesis by (simp add: limited_set_add_def limited_items_def limited_ok_def take_Suc_update)
qed

interpretation limited: bounded_set limited_items "\<lambda>m s. snd (limited_set_add m s)" limited_set_remove limited_ok mac_fits HNC_SCHED_MAX_LIMITED_DEVICES
proof
  fix s :: "'w sched_state" and e assume s: "limited_ok s"
  then show "distinct (limited_items s) \<and> length (limited_items s) \<le> HNC_SCHED_MAX_LIMITED_DEVICES"
    by (simp add: length_limited_items) (simp add: limited_ok_def)
  show "limited_ok (snd (limited_set_add e s)) \<and> set (limited_items (snd (limited_set_add e s))) =
      (if e \<in> set (limited_items s) \<or> length (limited_items s) < HNC_SCHED_MAX_LIMITED_DEVICES then insert e (set (limited_items s)) else set (limited_items s))"
    if f: "mac_fits e"
  proof (cases "e \<in> set (limited_items s) \<or> HNC_SCHED_MAX_LIMITED_DEVICES \<le> limited_count s")
    case True
    then have "snd (limited_set_add e s) = s" by (auto simp: limited_set_add_def limited_set_find_None)
    with True s show ?thesis by (auto simp: length_limited_items insert_absorb)
  next
    case False
    then have i: "limited_items (snd (limited_set_add e s)) = limited_items s @ [e]" using limited_add_items[OF s f] by simp
    have "limited_set_find e s = None" using False by (simp add: limited_set_find_None)
    then have "limited_ok (snd (limited_set_add e s))"
      using s False i unfolding limited_ok_def by (simp add: limited_set_add_def)
    with False s i show ?thesis by (simp add: length_limited_items)
  qed
  show "limited_ok (limited_set_remove e s) \<and> set (limited_items (limited_set_remove e s)) = set (limited_items s) - {e}"
  proof (cases "limited_set_find e s")
    case None
    then have "limited_set_remove e s = s" "e \<notin> set (limited_items s)" by (simp_all add: limited_set_remove_def limited_set_find_None[symmetric])
    with s show ?thesis by simp
  next
    case (Some i)
    let ?n = "limited_count s" and ?xs = "limited_macs s"
    from find_index_Some[OF Some[unfolded limited_set_find_def]] s have i: "i < ?n" "?n \<le> length ?xs" "?xs ! i = e" "distinct (take ?n ?xs)"
      by (auto simp: limited_items_def limited_ok_def)
    have n: "?n - 1 \<le> HNC_SCHED_MAX_LIMITED_DEVICES" using s by (simp add: limited_ok_def le_diff_conv)
    have it: "limited_items (limited_set_remove e s) = take (?n - 1) (?xs[i := ?xs ! (?n - 1)])"
      using i(1) Some by (cases "i = ?n - 1") (simp_all add: limited_set_remove_def limited_items_def Let_def)
    with swap_remove_set[OF i(1,2,4)] i s n Some show ?thesis
      by (simp add: limited_ok_def) (simp add: limited_items_def limited_set_remove_def Let_def)
  qed
qed

section \<open>The rebuild fills the set\<close>

definition same_but_limited :: "'w sched_state \<Rightarrow> 'w sched_state \<Rightarrow> bool" where
  "same_but_limited s s' \<longleftrightarrow> s' = s\<lparr>limited_macs := limited_macs s', limited_count := limited_count s'\<rparr>"

lemma same_but_limited_refl [simp]: "same_but_limited s s"
  by (simp add: same_but_limited_def)

lemma same_but_limited_trans: "same_but_limited a b \<Longrightarrow> same_but_limited b c \<Longrightarrow> same_but_limited a c"
  unfolding same_but_limited_def by (cases a; cases b; cases c) auto

lemma limited_add_count:
  assumes "limited_ok s" and "mac_fits m" and "limited_set_add m s = (r, s')"
  shows "limited_ok s' \<and> same_but_limited s s' \<and> limited_count s' = limited_count s + (if r \<noteq> None then 1 else 0)"
proof -
  have "limited_ok s'" using limited.add_law[OF assms(1,2)] assms(3) by simp
  with assms(3) show ?thesis by (cases s) (auto simp: limited_set_add_def same_but_limited_def split: if_splits)
qed

lemma rebuild_step_count:
  assumes "rebuild_step p (n, s) = Some (p', n', s')" and "limited_ok s"
  shows "limited_ok s' \<and> same_but_limited s s' \<and> limited_count s' + n = limited_count s + n'"
proof -
  consider "n' = n" "s' = s"
    | q norm r where "normalize_mac q = Some norm" "limited_set_add norm s = (r, s')" "n' = (if r \<noteq> None then n + 1 else n)"
    using assms(1) by (auto simp: rebuild_step_def split: option.splits prod.splits if_splits)
  then show ?thesis
  proof cases
    case 1
    with assms show ?thesis by simp
  next
    case 2
    with limited_add_count[OF assms(2) normalize_mac_fits[OF 2(1)] 2(2)] show ?thesis by auto
  qed
qed

lemma rebuild_loop_count:
  "rebuild_loop p (n, s) = (n', s') \<Longrightarrow> limited_ok s \<Longrightarrow>
   limited_ok s' \<and> same_but_limited s s' \<and> limited_count s' + n = limited_count s + n'"
proof (induction p "(n, s)" arbitrary: n s rule: rebuild_loop.induct)
  case (1 p n s)
  show ?case
  proof (cases "rebuild_step p (n, s)")
    case None
    with 1(2,3) show ?thesis by (simp add: rebuild_loop.simps)
  next
    case (Some t)
    obtain p1 n1 s1 where t: "t = (p1, n1, s1)" by (rule prod_cases3)
    note st = rebuild_step_count[OF Some[unfolded t] 1(3)]
    have "rebuild_loop p1 (n1, s1) = (n', s')" using 1(2) Some t by (simp add: rebuild_loop.simps[of p])
    from 1(1)[OF Some t[symmetric] this] st show ?thesis by (auto intro: same_but_limited_trans)
  qed
qed

lemma rebuild_from_rules_count:
  assumes "rebuild_from_rules file s = (n, s')" and "limited_ok s"
  shows "limited_ok s' \<and> same_but_limited s s' \<and> limited_count s' = limited_count s + n"
  using assms rebuild_loop_count[of _ 0 s n s']
  by (fastforce simp: rebuild_from_rules_def Let_def split: option.splits if_splits prod.splits)

section \<open>The scheduler over an adapter\<close>

definition call_ok :: "offload_err_t option \<Rightarrow> bool" where
  "call_ok r \<longleftrightarrow> r = None \<or> r = Some OFFLOAD_OK"

text \<open>A successful detection names an interface, and interface numbers are positive.\<close>

definition detect_ok :: "(int \<times> string) option \<Rightarrow> bool" where
  "detect_ok d \<longleftrightarrow> (case d of None \<Rightarrow> True | Some (i, _) \<Rightarrow> 0 < i)"

text \<open>
  The operations of the control socket and the worker, each without a failed adapter call.
\<close>

inductive sched_step :: "'w sched_sys \<Rightarrow> 'w sched_sys \<Rightarrow> bool" where
  notify: "hnc_scheduler_notify_device_limit_changed detect mac b y = (r, y') \<Longrightarrow> detect_ok detect \<Longrightarrow> call_ok r \<Longrightarrow> sched_step y y'"
| worker: "worker_iteration detect lsm_ok now y = Some (r, y') \<Longrightarrow> detect_ok detect \<Longrightarrow> call_ok r \<Longrightarrow> sched_step y y'"
| refresh: "sched_step y (y\<lparr>sy_sched := hnc_scheduler_request_refresh (sy_sched y)\<rparr>)"
| force_disable: "hnc_scheduler_force_disable_global y = (e, y') \<Longrightarrow> sched_step y y'"
| force_restore: "hnc_scheduler_force_restore_global y = (e, y') \<Longrightarrow> sched_step y y'"

text \<open>
  A freshly loaded daemon that has started and taken some steps, among writes of other processes: the framework
  rewrites the limit of a shut upstream within seconds.  \<open>foreign w i w'\<close> says that another process may write the entry of upstream \<open>i\<close>.
  The set is an auxiliary variable that no step of the daemon reads: the upstreams that a foreign write has opened and
  that nothing has shut again since.
\<close>

inductive sched_reach :: "'w offload_adapter_t list \<Rightarrow> ('w \<Rightarrow> int \<Rightarrow> bool) \<Rightarrow> ('w \<Rightarrow> int \<Rightarrow> 'w \<Rightarrow> bool) \<Rightarrow> 'w \<Rightarrow> int set \<Rightarrow> 'w sched_sys \<Rightarrow> bool"
  for adapters blocked foreign w0 where
  start: "sy_sched y0 = sched0 \<Longrightarrow> sy_world y0 = w0 \<Longrightarrow> hnc_scheduler_init adapters env y0 = (0, r, y) \<Longrightarrow>
     detect_ok (se_detect1 env) \<Longrightarrow> detect_ok (se_detect2 env) \<Longrightarrow> call_ok r \<Longrightarrow> sched_reach adapters blocked foreign w0 {} y"
| step: "sched_reach adapters blocked foreign w0 ov y \<Longrightarrow> sched_step y y' \<Longrightarrow>
     sched_reach adapters blocked foreign w0 {i \<in> ov. \<not> blocked (sy_world y') i} y'"
| overwrite: "sched_reach adapters blocked foreign w0 ov y \<Longrightarrow> foreign (sy_world y) i w' \<Longrightarrow>
     sched_reach adapters blocked foreign w0 (if blocked w' i then ov - {i} else insert i ov) (y\<lparr>sy_world := w'\<rparr>)"

definition sched_safe :: "'w offload_adapter_t \<Rightarrow> ('w \<Rightarrow> bool) \<Rightarrow> ('w \<Rightarrow> int \<Rightarrow> bool) \<Rightarrow> 'w sched_sys \<Rightarrow> bool" where
  "sched_safe A ok blocked y \<longleftrightarrow>
     (let s = sy_sched y in
      sc_adapter s \<in> {Some A, Some adapter_null} \<and> ok (sy_world y) \<and> limited_ok s \<and> 0 \<le> primary_upstream_ifindex s \<and>
      (sc_adapter s = Some A \<and> ad_granularity A = OFFLOAD_GRAN_PER_UPSTREAM \<and> 0 < limited_count s \<and> 0 < primary_upstream_ifindex s \<longrightarrow>
         blocked (sy_world y) (primary_upstream_ifindex s)))"

lemma limited_ok_cong: "limited_macs s' = limited_macs s \<Longrightarrow> limited_count s' = limited_count s \<Longrightarrow> limited_ok s' = limited_ok s"
  by (simp add: limited_ok_def limited_items_def)

lemma refresh_primary_fields [simp]:
  "sc_adapter (refresh_primary_upstream_locked d s) = sc_adapter s" "limited_macs (refresh_primary_upstream_locked d s) = limited_macs s"
  "limited_count (refresh_primary_upstream_locked d s) = limited_count s"
  by (simp_all add: refresh_primary_upstream_locked_def split: option.splits)

lemma refresh_primary_index:
  "detect_ok d \<Longrightarrow> 0 \<le> primary_upstream_ifindex s \<Longrightarrow> 0 \<le> primary_upstream_ifindex (refresh_primary_upstream_locked d s)"
  by (auto simp: refresh_primary_upstream_locked_def detect_ok_def split: option.splits)

lemma request_refresh_fields [simp]:
  "sc_adapter (hnc_scheduler_request_refresh s) = sc_adapter s" "limited_macs (hnc_scheduler_request_refresh s) = limited_macs s"
  "limited_count (hnc_scheduler_request_refresh s) = limited_count s"
  "primary_upstream_ifindex (hnc_scheduler_request_refresh s) = primary_upstream_ifindex s"
  by (simp_all add: hnc_scheduler_request_refresh_def)

lemma trigger_null [simp]:
  "sc_adapter s = Some adapter_null \<Longrightarrow> trigger_adapter_disable_locked s w = (None, w)"
  "sc_adapter s = Some adapter_null \<Longrightarrow> trigger_adapter_restore_locked s w = (None, w)"
  by (simp_all add: trigger_adapter_disable_locked_def trigger_adapter_restore_locked_def adapter_null_def)

lemma null_refresh [simp]: "snd (call_op (ad_refresh_active adapter_null) w) = w"
  by (simp add: call_op_def adapter_null_def null_refresh_active_def)

text \<open>The first limitation, spelled out.\<close>

lemma notify_first:
  assumes "sc_initialized (sy_sched y)" and "normalize_mac mac = Some norm" and "limited_count (sy_sched y) = 0"
    and "s2 = refresh_primary_upstream_locked detect (snd (limited_set_add norm (sy_sched y)))"
    and "trigger_adapter_disable_locked s2 (sy_world y) = (r, w)"
  shows "hnc_scheduler_notify_device_limit_changed detect mac True y = (r, y\<lparr>sy_sched := hnc_scheduler_request_refresh s2, sy_world := w\<rparr>) \<and>
    limited_count s2 = 1"
proof -
  have c: "limited_count (snd (limited_set_add norm (sy_sched y))) = 1"
    using assms(3) by (simp add: limited_set_add_def limited_set_find_def limited_items_def HNC_SCHED_MAX_LIMITED_DEVICES_def)
  with assms(1-3,5) show ?thesis by (simp add: hnc_scheduler_notify_device_limit_changed_def Let_def assms(4))
qed

lemma call_op_cases:
  assumes "call_op f w = (r, w')"
  obtains "f = None" "r = None" "w' = w" | g where "f = Some g" "r = Some (fst (g w))" "w' = snd (g w)"
  using assms by (cases f) (auto simp: call_op_def split: prod.splits)

text \<open>What the scheduler needs of an adapter at start-up, beside the contract of its operations.\<close>

locale offload_startup = offload_contract A ok blocked
  for A :: "'w offload_adapter_t" and ok :: "'w \<Rightarrow> bool" and blocked :: "'w \<Rightarrow> int \<Rightarrow> bool" +
  assumes init_ok: "ok w \<Longrightarrow> ok (snd (ad_init A w))"
    and self_check_ok: "ok w \<Longrightarrow> ad_self_check A = Some f \<Longrightarrow> ok (snd (f w))"
    and shutdown_ok: "ok w \<Longrightarrow> ad_shutdown A = Some g \<Longrightarrow> ok (g w)"

text \<open>An adapter whose kernel state other processes write too, one upstream at a time.\<close>

locale offload_shared = offload_startup A ok blocked
  for A :: "'w offload_adapter_t" and ok :: "'w \<Rightarrow> bool" and blocked :: "'w \<Rightarrow> int \<Rightarrow> bool" +
  fixes foreign :: "'w \<Rightarrow> int \<Rightarrow> 'w \<Rightarrow> bool"
  assumes foreign_ok: "ok w \<Longrightarrow> foreign w i w' \<Longrightarrow> ok w'"
    and foreign_frame: "foreign w i w' \<Longrightarrow> j \<noteq> i \<Longrightarrow> blocked w' j = blocked w j"

context offload_contract
begin

lemma trigger_disable_safe:
  assumes "ok w" and "trigger_adapter_disable_locked s w = (r, w')" and "sc_adapter s = Some A"
  shows "ok w' \<and> (\<forall>j. blocked w j \<longrightarrow> blocked w' j) \<and>
    (ad_granularity A = OFFLOAD_GRAN_PER_UPSTREAM \<and> 0 < primary_upstream_ifindex s \<and> call_ok r \<longrightarrow> blocked w' (primary_upstream_ifindex s))"
proof (cases "ad_granularity A")
  case OFFLOAD_GRAN_PER_UPSTREAM
  note g = this
  show ?thesis
  proof (cases "0 < primary_upstream_ifindex s")
    case False
    with assms g have "call_op (ad_disable_global A) w = (r, w')" by (simp add: trigger_adapter_disable_locked_def)
    with False show ?thesis using disable_global_ok[OF assms(1)] assms(1) by (auto elim!: call_op_cases)
  next
    case True
    obtain h where h: "ad_disable_upstream A = Some h" using per_upstream_ops[OF g] by auto
    with assms g True have "call_op (Some (h (primary_upstream_ifindex s))) w = (r, w')" by (simp add: trigger_adapter_disable_locked_def)
    then show ?thesis using disable_upstream_ok[OF assms(1) h, of "primary_upstream_ifindex s"] by (auto simp: call_ok_def elim!: call_op_cases)
  qed
next
  case OFFLOAD_GRAN_GLOBAL
  with assms have "call_op (ad_disable_global A) w = (r, w')" by (simp add: trigger_adapter_disable_locked_def)
  with OFFLOAD_GRAN_GLOBAL show ?thesis using disable_global_ok[OF assms(1)] assms(1) by (auto elim!: call_op_cases)
qed (use assms in \<open>auto simp: trigger_adapter_disable_locked_def\<close>)

lemma trigger_restore_ok:
  assumes "ok w" and "trigger_adapter_restore_locked s w = (r, w')" and "sc_adapter s = Some A"
  shows "ok w'"
proof (cases "ad_granularity A")
  case OFFLOAD_GRAN_PER_UPSTREAM
  with assms per_upstream_ops have "call_op (ad_restore_global A) w = (r, w')" by (auto simp: trigger_adapter_restore_locked_def)
  then show ?thesis using restore_global_ok[OF assms(1)] assms(1) by (auto elim!: call_op_cases)
next
  case OFFLOAD_GRAN_GLOBAL
  with assms have "call_op (ad_restore_global A) w = (r, w')" by (simp add: trigger_adapter_restore_locked_def)
  then show ?thesis using restore_global_ok[OF assms(1)] assms(1) by (auto elim!: call_op_cases)
qed (use assms in \<open>auto simp: trigger_adapter_restore_locked_def\<close>)

lemma refresh_keeps:
  assumes "ok w"
  shows "ok (snd (call_op (ad_refresh_active A) w)) \<and> (\<forall>i. blocked (snd (call_op (ad_refresh_active A) w)) i = blocked w i)"
proof -
  obtain r w' where c: "call_op (ad_refresh_active A) w = (r, w')" by (rule prod.exhaust)
  then show ?thesis using refresh_ok[OF assms] assms by (auto elim!: call_op_cases)
qed

text \<open>Both triggers, for the contract's adapter and for the null adapter.\<close>

lemma trigger_disable_keeps:
  assumes "ok w" and "trigger_adapter_disable_locked s w = (r, w')" and "sc_adapter s \<in> {Some A, Some adapter_null}"
  shows "ok w' \<and> (\<forall>j. blocked w j \<longrightarrow> blocked w' j) \<and>
    (sc_adapter s = Some A \<and> ad_granularity A = OFFLOAD_GRAN_PER_UPSTREAM \<and> 0 < primary_upstream_ifindex s \<and> call_ok r \<longrightarrow>
       blocked w' (primary_upstream_ifindex s))"
proof (cases "sc_adapter s = Some A")
  case True
  with trigger_disable_safe[OF assms(1,2)] show ?thesis by simp
next
  case False
  with assms show ?thesis by auto
qed

lemma trigger_restore_keeps:
  "ok w \<Longrightarrow> trigger_adapter_restore_locked s w = (r, w') \<Longrightarrow> sc_adapter s \<in> {Some A, Some adapter_null} \<Longrightarrow> ok w'"
  using trigger_restore_ok[of w s r w'] by (cases "sc_adapter s = Some A") auto

lemma notify_safe:
  assumes y: "sched_safe A ok blocked y" and c: "hnc_scheduler_notify_device_limit_changed detect mac b y = (r, y')"
    and d: "detect_ok detect" and r: "call_ok r"
  shows "sched_safe A ok blocked y'"
proof (cases "sc_initialized (sy_sched y)")
  case False
  with y c show ?thesis by (simp add: hnc_scheduler_notify_device_limit_changed_def)
next
  case ini: True
  show ?thesis
  proof (cases "normalize_mac mac")
    case None
    with y c ini show ?thesis by (simp add: hnc_scheduler_notify_device_limit_changed_def)
  next
    case (Some norm)
    let ?s = "sy_sched y"
    define s1 where "s1 = (if b then snd (limited_set_add norm ?s) else limited_set_remove norm ?s)"
    define s2 where "s2 = (if limited_count ?s = 0 \<and> 0 < limited_count s1 then refresh_primary_upstream_locked detect s1 else s1)"
    define t where "t = (if limited_count ?s = 0 \<and> 0 < limited_count s1 then trigger_adapter_disable_locked s2 (sy_world y)
       else if 0 < limited_count ?s \<and> limited_count s1 = 0 then trigger_adapter_restore_locked s2 (sy_world y) else (None, sy_world y))"
    from y have S: "sc_adapter ?s \<in> {Some A, Some adapter_null}" "ok (sy_world y)" "limited_ok ?s" "0 \<le> primary_upstream_ifindex ?s"
      "sc_adapter ?s = Some A \<and> ad_granularity A = OFFLOAD_GRAN_PER_UPSTREAM \<and> 0 < limited_count ?s \<and> 0 < primary_upstream_ifindex ?s \<longrightarrow>
         blocked (sy_world y) (primary_upstream_ifindex ?s)" by (simp_all add: sched_safe_def Let_def)
    have l1: "limited_ok s1" using limited.add_law[OF S(3) normalize_mac_fits[OF Some]] limited.remove_law[OF S(3)] by (simp add: s1_def)
    have f1: "sc_adapter s1 = sc_adapter ?s" "primary_upstream_ifindex s1 = primary_upstream_ifindex ?s"
      by (auto simp: s1_def limited_set_add_def limited_set_remove_def Let_def split: option.split)
    obtain w where t: "t = (r, w)" and y': "sc_adapter (sy_sched y') = sc_adapter s2" "limited_macs (sy_sched y') = limited_macs s1"
        "limited_count (sy_sched y') = limited_count s1" "primary_upstream_ifindex (sy_sched y') = primary_upstream_ifindex s2" "sy_world y' = w"
      using c ini Some
      by (cases t) (auto simp: hnc_scheduler_notify_device_limit_changed_def s1_def[symmetric] s2_def t_def Let_def split: if_splits prod.splits)
    have f2: "sc_adapter s2 = sc_adapter ?s" by (simp add: s2_def f1)
    have p2: "0 \<le> primary_upstream_ifindex s2" using S(4) f1 by (simp add: s2_def refresh_primary_index d)
    have lo: "limited_ok (sy_sched y')" using l1 y' limited_ok_cong[of "sy_sched y'" s1] by simp
    consider (dis) "limited_count ?s = 0" "0 < limited_count s1" | (zero) "limited_count s1 = 0" "t = trigger_adapter_restore_locked s2 (sy_world y) \<or> t = (None, sy_world y)"
      | (same) "0 < limited_count ?s" "t = (None, sy_world y)" "s2 = s1" by (cases "limited_count ?s"; cases "limited_count s1") (auto simp: t_def s2_def)
    then show ?thesis
    proof cases
      case dis
      then have "trigger_adapter_disable_locked s2 (sy_world y) = (r, w)" using t by (simp add: t_def)
      from trigger_disable_keeps[OF S(2) this] S(1) f2 lo p2 y' r show ?thesis by (simp add: sched_safe_def Let_def)
    next
      case zero
      then have "ok w" using trigger_restore_keeps[OF S(2), of s2 r w] t S(1,2) f2 by (metis prod.inject)
      with zero S(1) f2 lo p2 y' show ?thesis by (simp add: sched_safe_def Let_def)
    next
      case same
      with S f1 f2 lo p2 y' t show ?thesis by (simp add: sched_safe_def Let_def)
    qed
  qed
qed

lemma worker_probe_safe:
  assumes a: "sc_adapter s \<in> {Some A, Some adapter_null}" and w: "ok w" and d: "detect_ok detect" and p: "0 \<le> primary_upstream_ifindex s"
    and b: "sc_adapter s = Some A \<and> ad_granularity A = OFFLOAD_GRAN_PER_UPSTREAM \<and> 0 < limited_count s \<and> 0 < primary_upstream_ifindex s \<longrightarrow>
      blocked w (primary_upstream_ifindex s)"
    and c: "worker_probe detect s w = (s', r, w')" and r: "call_ok r"
  shows "ok w' \<and> 0 \<le> primary_upstream_ifindex s' \<and>
    (sc_adapter s = Some A \<and> ad_granularity A = OFFLOAD_GRAN_PER_UPSTREAM \<and> 0 < limited_count s \<and> 0 < primary_upstream_ifindex s' \<longrightarrow>
      blocked w' (primary_upstream_ifindex s'))"
proof -
  have s': "s' = refresh_primary_upstream_locked detect s" using c by (simp add: worker_probe_def Let_def)
  have q: "0 \<le> primary_upstream_ifindex s'" using p by (simp add: s' refresh_primary_index d)
  show ?thesis
  proof (cases "need_retrigger (primary_upstream_ifindex s) (primary_upstream_ifindex s') (limited_count s')")
    case True
    then have "trigger_adapter_disable_locked s' w = (r, w')" using c by (simp add: worker_probe_def Let_def s')
    from trigger_disable_keeps[OF w this] a q r show ?thesis by (simp add: s')
  next
    case False
    then have e: "w' = w" using c by (simp add: worker_probe_def Let_def s')
    have "primary_upstream_ifindex s' = primary_upstream_ifindex s" if "0 < limited_count s" "0 < primary_upstream_ifindex s'"
      using False that p by (auto simp: need_retrigger_def s')
    with e w q b show ?thesis by auto
  qed
qed

lemma worker_safe:
  assumes y: "sched_safe A ok blocked y" and c: "worker_iteration detect lsm_ok now y = Some (r, y')"
    and d: "detect_ok detect" and r: "call_ok r"
  shows "sched_safe A ok blocked y'"
proof -
  define s where "s = (sy_sched y)\<lparr>worker_refresh_requested := False\<rparr>"
  have f: "sc_adapter s = sc_adapter (sy_sched y)" "limited_macs s = limited_macs (sy_sched y)" "limited_count s = limited_count (sy_sched y)"
    "primary_upstream_ifindex s = primary_upstream_ifindex (sy_sched y)" by (simp_all add: s_def)
  from y have S: "sc_adapter s \<in> {Some A, Some adapter_null}" "ok (sy_world y)" "limited_ok (sy_sched y)" "0 \<le> primary_upstream_ifindex s"
    "sc_adapter s = Some A \<and> ad_granularity A = OFFLOAD_GRAN_PER_UPSTREAM \<and> 0 < limited_count s \<and> 0 < primary_upstream_ifindex s \<longrightarrow>
      blocked (sy_world y) (primary_upstream_ifindex s)" by (simp_all add: sched_safe_def Let_def f)
  obtain s1 r1 w where p: "worker_probe detect s (sy_world y) = (s1, r1, w)" by (rule prod_cases3)
  have y': "r1 = r \<and> sc_adapter (sy_sched y') = sc_adapter s1 \<and> limited_macs (sy_sched y') = limited_macs s1 \<and> limited_count (sy_sched y') = limited_count s1 \<and>
      primary_upstream_ifindex (sy_sched y') = primary_upstream_ifindex s1 \<and>
      sy_world y' = (case sc_adapter s1 of None \<Rightarrow> w | Some a \<Rightarrow> snd (call_op (ad_refresh_active a) w))"
    using c p by (simp add: worker_iteration_def s_def[symmetric] Let_def split: if_splits) auto
  have s1: "sc_adapter s1 = sc_adapter s" "limited_macs s1 = limited_macs s" "limited_count s1 = limited_count s"
    using p by (auto simp: worker_probe_def Let_def)
  have lo: "limited_ok (sy_sched y')" using S(3) y' s1 f limited_ok_cong[of "sy_sched y'" "sy_sched y"] by simp
  note w = worker_probe_safe[OF S(1,2) d S(4,5)] p y' r
  show ?thesis
  proof (cases "sc_adapter s = Some A")
    case True
    with w s1 refresh_keeps[of w] lo show ?thesis by (simp add: sched_safe_def Let_def)
  next
    case False
    with S(1) w s1 lo show ?thesis by (simp add: sched_safe_def Let_def)
  qed
qed

lemma force_safe:
  assumes y: "sched_safe A ok blocked y"
  shows "hnc_scheduler_force_disable_global y = (e, y') \<Longrightarrow> sched_safe A ok blocked y'"
    and "hnc_scheduler_force_restore_global y = (e, y') \<Longrightarrow> sched_safe A ok blocked y'"
proof -
  from y have w: "ok (sy_world y)" and a: "sc_adapter (sy_sched y) = Some A \<or> sc_adapter (sy_sched y) = Some adapter_null"
    by (simp_all add: sched_safe_def Let_def)
  have n: "ad_disable_global (adapter_null :: 'w offload_adapter_t) = Some null_disable_global"
      "ad_restore_global (adapter_null :: 'w offload_adapter_t) = Some null_restore_global"
    by (simp_all add: adapter_null_def)
  have l: "limited_ok (s\<lparr>limited_count := 0\<rparr>)" if "limited_ok s" for s :: "'w sched_state" using that by (simp add: limited_ok_def limited_items_def)
  show "sched_safe A ok blocked y'" if c: "hnc_scheduler_force_disable_global y = (e, y')"
  proof -
    have "y' = y \<or> (sc_adapter (sy_sched y) = Some A \<and> (\<exists>f. ad_disable_global A = Some f \<and> y' = y\<lparr>sy_world := snd (f (sy_world y))\<rparr>))"
      using c a n by (auto simp: hnc_scheduler_force_disable_global_def null_disable_global_def split: if_splits option.splits prod.splits)
    then show ?thesis using y disable_global_ok[OF w] by (auto simp: sched_safe_def Let_def)
  qed
  show "sched_safe A ok blocked y'" if c: "hnc_scheduler_force_restore_global y = (e, y')"
  proof -
    have "y' = y \<or> (\<exists>w'. y' = y\<lparr>sy_sched := (sy_sched y)\<lparr>limited_count := 0\<rparr>, sy_world := w'\<rparr> \<and>
       (w' = sy_world y \<or> (\<exists>f. ad_restore_global A = Some f \<and> w' = snd (f (sy_world y)))))"
      using c a n by (auto simp: hnc_scheduler_force_restore_global_def null_restore_global_def split: if_splits option.splits prod.splits)
    then show ?thesis using y restore_global_ok[OF w] by (auto simp: sched_safe_def Let_def l)
  qed
qed

lemma step_safe: "sched_step y y' \<Longrightarrow> sched_safe A ok blocked y \<Longrightarrow> sched_safe A ok blocked y'"
proof (induction rule: sched_step.induct)
  case (refresh y)
  then show ?case using limited_ok_cong[of "hnc_scheduler_request_refresh (sy_sched y)" "sy_sched y"] by (simp add: sched_safe_def Let_def)
qed (auto intro: notify_safe worker_safe force_safe)

end

lemma select_bpf_or_null:
  "offload_select_adapter (g_adapters [A]) w act = (a, act') \<Longrightarrow> a = Some A \<or> a = Some adapter_null"
  by (auto simp: offload_select_adapter_def g_adapters_def adapter_null_def null_probe_def split: option.splits if_splits)

lemma same_but_limited_fields:
  "same_but_limited s s' \<Longrightarrow> sc_adapter s' = sc_adapter s \<and> primary_upstream_ifindex s' = primary_upstream_ifindex s"
  unfolding same_but_limited_def by (cases s; cases s') auto

context offload_startup
begin

lemma init_adapter_ok:
  assumes "a0 = A \<or> a0 = adapter_null" and "ok w" and "init_adapter a0 w = (a, w')"
  shows "(a = A \<or> a = adapter_null) \<and> ok w'"
proof (cases "a0 = adapter_null")
  case True
  with assms show ?thesis
    by (auto simp: init_adapter_def adapter_null_def null_init_def null_self_check_def null_shutdown_def run_shutdown_def split: if_splits)
next
  case False
  then have a0: "a0 = A" using assms(1) by simp
  obtain e w1 where i: "ad_init A w = (e, w1)" by (rule prod.exhaust)
  have w1: "ok w1" using init_ok[OF assms(2)] i by simp
  have nul: "snd (ad_init adapter_null v) = v" for v :: 'w by (simp add: adapter_null_def null_init_def)
  show ?thesis
  proof (cases "ad_self_check A")
    case None
    with assms(3) a0 i w1 show ?thesis by (auto simp: init_adapter_def nul split: if_splits)
  next
    case (Some f)
    obtain sc w2 where f: "f w1 = (sc, w2)" by (rule prod.exhaust)
    have w2: "ok w2" using self_check_ok[OF w1 Some] f by simp
    then have "ok (run_shutdown A w2)" using shutdown_ok by (auto simp: run_shutdown_def split: option.split)
    with assms(3) a0 i w1 w2 f Some show ?thesis by (auto simp: init_adapter_def nul split: if_splits)
  qed
qed

lemma init_rebuild_safe:
  assumes a: "sc_adapter s \<in> {Some A, Some adapter_null}" and w: "ok w" and d: "detect_ok detect" and p: "0 \<le> primary_upstream_ifindex s"
    and l: "limited_ok s" "limited_count s = 0" and c: "init_rebuild rules detect s w = (s', r, w')" and r: "call_ok r"
  shows "sc_adapter s' = sc_adapter s \<and> ok w' \<and> limited_ok s' \<and> 0 \<le> primary_upstream_ifindex s' \<and>
    (sc_adapter s' = Some A \<and> ad_granularity A = OFFLOAD_GRAN_PER_UPSTREAM \<and> 0 < limited_count s' \<and> 0 < primary_upstream_ifindex s' \<longrightarrow>
       blocked w' (primary_upstream_ifindex s'))"
proof -
  obtain n s4 where rb: "rebuild_from_rules rules s = (n, s4)" by (rule prod.exhaust)
  from rebuild_from_rules_count[OF rb l(1)] l(2) have s4: "limited_ok s4" "sc_adapter s4 = sc_adapter s"
    "primary_upstream_ifindex s4 = primary_upstream_ifindex s" "limited_count s4 = n" using same_but_limited_fields by auto
  show ?thesis
  proof (cases "0 < n")
    case False
    with c rb s4 p w show ?thesis by (simp add: init_rebuild_def)
  next
    case True
    let ?s5 = "refresh_primary_upstream_locked detect s4"
    have s5: "s' = ?s5" "trigger_adapter_disable_locked ?s5 w = (r, w')" using c rb True by (auto simp: init_rebuild_def Let_def)
    have "limited_ok ?s5" using s4(1) limited_ok_cong[of ?s5 s4] by simp
    with trigger_disable_keeps[OF w s5(2)] a s4 r p show ?thesis by (simp add: s5(1) refresh_primary_index d)
  qed
qed

lemma init_safe:
  assumes y0: "sy_sched y0 = sched0" and w0: "ok (sy_world y0)" and c: "hnc_scheduler_init (g_adapters [A]) env y0 = (0, r, y)"
    and d: "detect_ok (se_detect1 env)" "detect_ok (se_detect2 env)" and r: "call_ok r"
  shows "sched_safe A ok blocked y"
proof -
  obtain a0 act where sel: "offload_select_adapter (g_adapters [A]) (sy_world y0) (sy_active y0) = (a0, act)" by (rule prod.exhaust)
  from select_bpf_or_null[OF sel] obtain b where b: "a0 = Some b" "b = A \<or> b = adapter_null" by auto
  obtain a w1 where i: "init_adapter b (sy_world y0) = (a, w1)" by (rule prod.exhaust)
  note ai = init_adapter_ok[OF b(2) w0 i]
  define s3 where "s3 = (refresh_primary_upstream_locked (se_detect1 env) (sched0\<lparr>sc_adapter := Some a\<rparr>))\<lparr>worker_should_stop := False,
     worker_refresh_requested := False, worker_started := True, sc_initialized := True\<rparr>"
  obtain s4 r4 w2 where rb: "init_rebuild (se_rules env) (se_detect2 env) s3 w1 = (s4, r4, w2)" by (rule prod_cases3)
  have y: "r4 = r \<and> sy_sched y = s4 \<and> sy_world y = w2"
  proof -
    have "\<not> sc_initialized (sched0 :: 'w sched_state)" by (simp add: sched0_def)
    with c sel b(1) i y0 rb show ?thesis by (simp add: hnc_scheduler_init_def s3_def Let_def split: if_splits) auto
  qed
  have s3: "sc_adapter s3 = Some a" "limited_count s3 = 0" "limited_macs s3 = replicate HNC_SCHED_MAX_LIMITED_DEVICES []"
    by (simp_all add: s3_def sched0_def)
  have p: "0 \<le> primary_upstream_ifindex s3" by (simp add: s3_def refresh_primary_index d sched0_def)
  have "limited_ok s3" using s3 by (simp add: limited_ok_def limited_items_def)
  from init_rebuild_safe[OF _ _ d(2) p this s3(2) rb] ai s3 y r show ?thesis by (simp add: sched_safe_def Let_def)
qed

text \<open>The contract for ``shut or opened by a foreign write'', with a set that stands still.\<close>

lemma relaxed: "offload_startup A ok (\<lambda>w i. blocked w i \<or> i \<in> ov)"
proof
  fix w g i assume "ok w" "ad_disable_upstream A = Some g"
  then show "ok (snd (g i w)) \<and> (\<forall>j. blocked w j \<or> j \<in> ov \<longrightarrow> blocked (snd (g i w)) j \<or> j \<in> ov) \<and>
      (fst (g i w) = OFFLOAD_OK \<longrightarrow> blocked (snd (g i w)) i \<or> i \<in> ov)" using disable_upstream_ok[of w g i] by blast
qed (use per_upstream_ops global_ops refresh_ok disable_global_ok restore_global_ok init_ok self_check_ok shutdown_ok in \<open>blast+\<close>)

lemma relaxed_step_safe:
  assumes "sched_safe A ok (\<lambda>w i. blocked w i \<or> i \<in> ov) y" and "sched_step y y'"
  shows "sched_safe A ok (\<lambda>w i. blocked w i \<or> i \<in> {j \<in> ov. \<not> blocked (sy_world y') j}) y'"
proof -
  have "offload_contract A ok (\<lambda>w i. blocked w i \<or> i \<in> ov)" using relaxed[of ov] unfolding offload_startup_def by blast
  from offload_contract.step_safe[OF this assms(2,1)] show ?thesis by (auto simp: sched_safe_def Let_def)
qed

end

context offload_shared
begin

lemma overwrite_safe:
  assumes "sched_safe A ok (\<lambda>w i. blocked w i \<or> i \<in> ov) y" and "foreign (sy_world y) i w'"
  shows "sched_safe A ok (\<lambda>w j. blocked w j \<or> j \<in> (if blocked w' i then ov - {i} else insert i ov)) (y\<lparr>sy_world := w'\<rparr>)"
proof -
  have "ok w'" using foreign_ok[OF _ assms(2)] assms(1) by (simp add: sched_safe_def Let_def)
  moreover have "blocked w' j \<or> j \<in> (if blocked w' i then ov - {i} else insert i ov)" if "blocked (sy_world y) j \<or> j \<in> ov" for j
    using that foreign_frame[OF assms(2), of j] by (cases "j = i") auto
  ultimately show ?thesis using assms(1) by (simp add: sched_safe_def Let_def)
qed

lemma reach_safe: "sched_reach (g_adapters [A]) blocked foreign w0 ov y \<Longrightarrow> ok w0 \<Longrightarrow> sched_safe A ok (\<lambda>w i. blocked w i \<or> i \<in> ov) y"
proof (induction rule: sched_reach.induct)
  case (start y0 env r y)
  then show ?case using init_safe[of y0 env r y] by simp
next
  case (step ov y y')
  then show ?case by (intro relaxed_step_safe) simp_all
next
  case (overwrite ov y i w')
  then show ?case by (intro overwrite_safe) simp_all
qed

text \<open>The members of the set are open.\<close>

lemma reach_open: "sched_reach adapters blocked foreign w0 ov y \<Longrightarrow> i \<in> ov \<Longrightarrow> \<not> blocked (sy_world y) i"
proof (induction rule: sched_reach.induct)
  case (overwrite ov y j w')
  then show ?case using foreign_frame[of "sy_world y" j w' i] by (cases "i = j") (auto split: if_splits)
qed auto

end

lemma bpf_init_ok:
  assumes "bpf_ok K V w"
  shows "bpf_ok K V (snd (bpf_init K w))"
proof -
  have K: "kernel_maps K V" and D: "disabled_ok (fst w)" and F: "fds_ok V w" using assms by (simp_all add: bpf_ok_def)
  obtain r1 w1 where e1: "ensure_limit_fd K w = (r1, w1)" by (rule prod.exhaust)
  obtain r2 s2 k2 where e2: "ensure_stats_fd K w1 = (r2, s2, k2)" by (rule prod_cases3)
  obtain r3 k3 where e3: "k_obj_get K BPF_ERROR_MAP k2 = (r3, k3)" by (rule prod.exhaust)
  have w1: "disabled_ok (fst w1)" "fds_ok V w1" using ensure_limit_same[OF K e1] same_sets_items D F by (auto simp: same_maps_def keeps_fds_def)
  have w2: "disabled_ok s2" "fds_ok V (s2, k2)" using ensure_stats_same[OF K e2] same_sets_items[of "fst w1" s2] w1 by (auto simp: same_maps_def)
  then have "disabled_ok (s2\<lparr>fd_error := x, initialized := True\<rparr>)" for x by (simp add: disabled_ok_def disabled_items_def)
  with w1 w2 obj_get_error_fds[OF K w2(2) e3] assms K show ?thesis by (simp add: bpf_init_def e1 e2 e3 bpf_ok_def split: option.split)
qed

lemma bpf_self_check_ok:
  assumes "bpf_ok K V w"
  shows "bpf_ok K V (snd (bpf_self_check K w))"
proof -
  obtain r1 w1 where e1: "ensure_limit_fd K w = (r1, w1)" by (rule prod.exhaust)
  have "bpf_ok K V w1" using ensure_limit_same[OF _ e1] same_sets_items assms by (auto simp: bpf_ok_def same_maps_def keeps_fds_def)
  then show ?thesis by (simp add: bpf_self_check_def e1 split: option.split)
qed

lemma bpf_shutdown_ok:
  assumes "bpf_ok K V w"
  shows "bpf_ok K V (bpf_shutdown K w)"
proof (cases "initialized (fst w)")
  case False
  then show ?thesis using assms by (cases w) (simp add: bpf_shutdown_def)
next
  case True
  have K: "kernel_maps K V" using assms by (simp add: bpf_ok_def)
  obtain s k where w: "w = (s, k)" by (rule prod.exhaust)
  obtain l k1 where c1: "close_fd K (fd_limit s) k = (l, k1)" by (rule prod.exhaust)
  obtain t k2 where c2: "close_fd K (fd_stats s) k1 = (t, k2)" by (rule prod.exhaust)
  obtain e k3 where c3: "close_fd K (fd_error s) k2 = (e, k3)" by (rule prod.exhaust)
  have "bpf_shutdown K w = (s\<lparr>fd_limit := l, fd_stats := t, fd_error := e, initialized := False\<rparr>, k3)"
    using True by (simp add: bpf_shutdown_def w c1 c2 c3)
  then show ?thesis using close_fd_table[OF K c1] close_fd_table[OF K c2] close_fd_table[OF K c3] assms
    by (simp add: bpf_ok_def fds_ok_def w disabled_ok_def disabled_items_def)
qed

text \<open>A write of another process: one entry of the limit map gets another value or goes; the other maps are free to change.\<close>

definition foreign_write :: "'k bpf_view \<Rightarrow> 'k bpf_world \<Rightarrow> int \<Rightarrow> 'k bpf_world \<Rightarrow> bool" where
  "foreign_write V w i w' \<longleftrightarrow> 0 \<le> i \<and> fst w' = fst w \<and> v_fd V (snd w') = v_fd V (snd w) \<and>
     (\<exists>x. limit_map V (snd w') = (limit_map V (snd w))(nat i := x))"

interpretation bpf_start: offload_shared "adapter_bpf K" "bpf_ok K V" "bpf_blocked V" "foreign_write V"
proof
  fix w assume ok: "bpf_ok K V w"
  show "bpf_ok K V (snd (ad_init (adapter_bpf K) w))" using bpf_init_ok[OF ok] by (simp add: adapter_bpf_def)
  show "ad_self_check (adapter_bpf K) = Some f \<Longrightarrow> bpf_ok K V (snd (f w))" for f
    using bpf_self_check_ok[OF ok] by (auto simp: adapter_bpf_def)
  show "ad_shutdown (adapter_bpf K) = Some g \<Longrightarrow> bpf_ok K V (g w)" for g
    using bpf_shutdown_ok[OF ok] by (auto simp: adapter_bpf_def)
  show "foreign_write V w i w' \<Longrightarrow> bpf_ok K V w'" for i w'
    using ok by (auto simp: foreign_write_def bpf_ok_def fds_ok_def)
next
  fix w i w' j assume "foreign_write V w i w'" and "j \<noteq> i"
  then show "bpf_blocked V w' j = bpf_blocked V w j" by (auto simp: foreign_write_def bpf_blocked_def nat_eq_iff)
qed

text \<open>The counter-write of the guard is such a write, with the value 0: it takes the upstream out of the set.\<close>

lemma counter_write_foreign:
  assumes "kernel_maps K V" and "ev_verdict ev \<noteq> 0" and "0 \<le> lg_target_limit_map_fd g" and "v_fd V k (lg_target_limit_map_fd g) = Some BPF_LIMIT_MAP"
    and "fst (k_update K (lg_target_limit_map_fd g) (ev_ifindex ev) 0 False k) = 0" and "ringbuf_handle_event K now ev (g, k) = (g', k')" and "0 < ev_ifindex ev"
  shows "foreign_write V (s, k) (int (ev_ifindex ev)) (s, k') \<and> bpf_blocked V (s, k') (int (ev_ifindex ev))"
  using counter_write_effect[OF assms(1-6)] assms(7) by (auto simp: foreign_write_def bpf_blocked_def intro: exI[of _ "Some 0"])

section \<open>Properties\<close>

text \<open>
  C2: While some device is limited and the upstream is known, the daemon keeps the fast path through the
  current upstream shut, up to the writes of others: take any state that a daemon reaches from its start by any
  sequence of notifications, worker rounds (upstream changes included), refresh requests and
  forced operations, in which no adapter call failed and the BPF adapter is in use, with writes of other processes to any entry of the limit map in
  between, as the framework makes them.  The entry of the primary upstream in the map pinned as the tethering limit map is 0, except exactly when
  another process has given it another value and neither the daemon nor the guard's counter-write has set it to 0 since.  The limited set has
  no duplicates and at most 256 addresses.
\<close>

theorem limited_upstream_blocked:
  assumes "bpf_ok K V w0" and "sched_reach (g_adapters [adapter_bpf K]) (bpf_blocked V) (foreign_write V) w0 ov y"
  shows "distinct (limited_items (sy_sched y)) \<and> limited_count (sy_sched y) \<le> 256 \<and>
    (sc_adapter (sy_sched y) = Some (adapter_bpf K) \<and> 0 < limited_count (sy_sched y) \<and> 0 < primary_upstream_ifindex (sy_sched y) \<longrightarrow>
       (limit_map V (snd (sy_world y)) (nat (primary_upstream_ifindex (sy_sched y))) = Some 0 \<longleftrightarrow> primary_upstream_ifindex (sy_sched y) \<notin> ov))"
proof -
  have "sched_safe (adapter_bpf K) (bpf_ok K V) (\<lambda>w i. bpf_blocked V w i \<or> i \<in> ov) y" by (rule bpf_start.reach_safe[OF assms(2,1)])
  moreover have "primary_upstream_ifindex (sy_sched y) \<in> ov \<Longrightarrow> \<not> bpf_blocked V (sy_world y) (primary_upstream_ifindex (sy_sched y))"
    by (rule bpf_start.reach_open[OF assms(2)])
  moreover have "ad_granularity (adapter_bpf K) = OFFLOAD_GRAN_PER_UPSTREAM" by (simp add: adapter_bpf_def)
  ultimately show ?thesis
    by (auto simp: sched_safe_def Let_def limited_ok_def bpf_blocked_def HNC_SCHED_MAX_LIMITED_DEVICES_def)
qed

text \<open>A start with an upstream and no rules file, then the limitation of one device.\<close>

definition demo_env :: sched_env where
  "demo_env = \<lparr>se_detect1 = Some (7, ''rmnet0''), se_thread_rc = 0, se_lsm_env = demo_lsm_env, se_rules = None, se_detect2 = None\<rparr>"

definition demo_sys0 :: "pinned_maps bpf_world sched_sys" where
  "demo_sys0 = \<lparr>sy_sched = sched0, sy_lsm = lsm_state0, sy_world = (bpf_state0, demo_maps [7 \<mapsto> BPF_LIMIT_NONE]), sy_active = None\<rparr>"

definition demo_sys1 :: "pinned_maps bpf_world sched_sys" where
  "demo_sys1 = snd (snd (hnc_scheduler_init (g_adapters [adapter_bpf demo_kernel]) demo_env demo_sys0))"

lemma demo_init_adapter:
  "init_adapter (adapter_bpf demo_kernel) (bpf_state0, demo_maps m) =
     (adapter_bpf demo_kernel, (bpf_state0\<lparr>initialized := True, fd_limit := 3, fd_stats := 4, fd_error := 5\<rparr>, demo_open m))"
  by (simp add: init_adapter_def adapter_bpf_def demo_kernel_def bpf_init_def bpf_self_check_def bpf_state0_def ensure_limit_fd_def
      ensure_stats_fd_def reopen_limit_def reopen_fd_def demo_maps_def demo_open_def)

lemma demo_select:
  "offload_select_adapter (g_adapters [adapter_bpf demo_kernel]) w act = (Some (adapter_bpf demo_kernel), Some (adapter_bpf demo_kernel))"
  by (simp add: offload_select_adapter_def g_adapters_def adapter_bpf_def bpf_probe_def demo_kernel_def split: prod.split)

lemma demo_sys1_fields:
  "hnc_scheduler_init (g_adapters [adapter_bpf demo_kernel]) demo_env demo_sys0 = (0, None, demo_sys1)"
  "sy_sched demo_sys1 = sched0\<lparr>sc_adapter := Some (adapter_bpf demo_kernel), primary_upstream_ifindex := 7, primary_upstream_ifname := ''rmnet0'',
     worker_started := True, sc_initialized := True\<rparr>"
  "sy_world demo_sys1 = (bpf_state0\<lparr>initialized := True, fd_limit := 3, fd_stats := 4, fd_error := 5\<rparr>, demo_open [7 \<mapsto> BPF_LIMIT_NONE])"
proof -
  have i: "\<not> sc_initialized (sched0 :: pinned_maps bpf_world sched_state)" by (simp add: sched0_def)
  note d = hnc_scheduler_init_def demo_select demo_init_adapter demo_sys0_def demo_env_def refresh_primary_upstream_locked_def
    init_rebuild_def rebuild_from_rules_def HNC_SCHED_IFNAME_LEN_def i Let_def
  show a: "hnc_scheduler_init (g_adapters [adapter_bpf demo_kernel]) demo_env demo_sys0 = (0, None, demo_sys1)"
    by (simp add: demo_sys1_def d)
  show "sy_sched demo_sys1 = sched0\<lparr>sc_adapter := Some (adapter_bpf demo_kernel), primary_upstream_ifindex := 7, primary_upstream_ifname := ''rmnet0'',
     worker_started := True, sc_initialized := True\<rparr>"
    by (simp add: demo_sys1_def d) (simp add: sched0_def)
  show "sy_world demo_sys1 = (bpf_state0\<lparr>initialized := True, fd_limit := 3, fd_stats := 4, fd_error := 5\<rparr>, demo_open [7 \<mapsto> BPF_LIMIT_NONE])"
    by (simp add: demo_sys1_def d)
qed

definition demo_sys2 :: "pinned_maps bpf_world sched_sys" where
  "demo_sys2 = snd (hnc_scheduler_notify_device_limit_changed (Some (7, ''rmnet0'')) ''AA:BB:CC:00:11:22'' True demo_sys1)"

lemma demo_sys2_fields:
  "hnc_scheduler_notify_device_limit_changed (Some (7, ''rmnet0'')) ''AA:BB:CC:00:11:22'' True demo_sys1 = (Some OFFLOAD_OK, demo_sys2) \<and>
   limited_count (sy_sched demo_sys2) = 1 \<and> primary_upstream_ifindex (sy_sched demo_sys2) = 7 \<and> sc_adapter (sy_sched demo_sys2) = Some (adapter_bpf demo_kernel)"
proof -
  have n: "normalize_mac ''AA:BB:CC:00:11:22'' = Some ''aa:bb:cc:00:11:22''" by code_simp
  define s2 where "s2 = refresh_primary_upstream_locked (Some (7, ''rmnet0'')) (snd (limited_set_add ''aa:bb:cc:00:11:22'' (sy_sched demo_sys1)))"
  have i: "sc_initialized (sy_sched demo_sys1)" "limited_count (sy_sched demo_sys1) = 0" by (simp_all add: demo_sys1_fields) (simp add: sched0_def)
  have a: "sc_adapter s2 = Some (adapter_bpf demo_kernel)" by (simp add: s2_def limited_set_add_def demo_sys1_fields)
  have p: "primary_upstream_ifindex s2 = 7" by (simp add: s2_def refresh_primary_upstream_locked_def)
  have t: "trigger_adapter_disable_locked s2 (sy_world demo_sys1) = (Some OFFLOAD_OK, snd (bpf_disable_upstream demo_kernel 7 (sy_world demo_sys1)))"
    using a p by (simp add: trigger_adapter_disable_locked_def adapter_bpf_def call_op_def demo_sys1_fields demo_calls demo_open_def)
  from notify_first[OF i(1) n i(2) s2_def t] a p show ?thesis by (simp add: demo_sys2_def)
qed

text \<open>The limitation shuts the upstream; then the framework opens it again, and the set records it.\<close>

definition overwritten :: "pinned_maps \<Rightarrow> pinned_maps" where
  "overwritten k = k\<lparr>pm_maps := (pm_maps k)(BPF_LIMIT_MAP := (pm_maps k BPF_LIMIT_MAP)(7 \<mapsto> BPF_LIMIT_NONE))\<rparr>"

lemma demo_sys2_reach: "sched_reach (g_adapters [adapter_bpf demo_kernel]) (bpf_blocked demo_view) (foreign_write demo_view) (sy_world demo_sys0) {} demo_sys2"
proof -
  have "sched_reach (g_adapters [adapter_bpf demo_kernel]) (bpf_blocked demo_view) (foreign_write demo_view) (sy_world demo_sys0) {} demo_sys1"
    by (rule sched_reach.start[OF _ refl demo_sys1_fields(1)]) (simp_all add: demo_sys0_def demo_env_def detect_ok_def call_ok_def)
  from sched_reach.step[OF this sched_step.notify[OF conjunct1[OF demo_sys2_fields]]] show ?thesis by (simp add: detect_ok_def call_ok_def)
qed

theorem limited_upstream_blocked_witness:
  "pm_maps (snd (sy_world demo_sys2)) BPF_LIMIT_MAP 7 = Some 0 \<and>
   sched_reach (g_adapters [adapter_bpf demo_kernel]) (bpf_blocked demo_view) (foreign_write demo_view) (sy_world demo_sys0) {7}
     (demo_sys2\<lparr>sy_world := (fst (sy_world demo_sys2), overwritten (snd (sy_world demo_sys2)))\<rparr>)"
proof -
  let ?w = "(fst (sy_world demo_sys2), overwritten (snd (sy_world demo_sys2)))"
  have "foreign_write demo_view (sy_world demo_sys2) 7 ?w"
    by (auto simp: foreign_write_def overwritten_def pm_open_def fun_eq_iff intro: exI[of _ "Some BPF_LIMIT_NONE"])
  moreover have "\<not> bpf_blocked demo_view ?w 7" by (simp add: bpf_blocked_def overwritten_def BPF_LIMIT_NONE_def)
  ultimately have o: "sched_reach (g_adapters [adapter_bpf demo_kernel]) (bpf_blocked demo_view) (foreign_write demo_view) (sy_world demo_sys0) {7} (demo_sys2\<lparr>sy_world := ?w\<rparr>)"
    using sched_reach.overwrite[OF demo_sys2_reach, of 7 ?w] by simp
  have "bpf_ok demo_kernel demo_view (sy_world demo_sys0)" using demo_bpf_ok by (simp add: demo_sys0_def)
  from limited_upstream_blocked[OF this demo_sys2_reach] demo_sys2_fields o show ?thesis by simp
qed

end
