(* ===== verification/SchedulerFacts.thy ===== *)
theory SchedulerFacts
  imports Scheduler
begin

text \<open>
  Further properties of the scheduler of \<^verbatim>\<open>daemon/hotspotd/scheduler.c\<close>: what a notification does to
  the limited set, what the periodic worker does not repair, and the summary.
\<close>

section \<open>Worker rounds\<close>

text \<open>Several iterations of the worker with the same detection result.\<close>

fun worker_rounds :: "(int \<times> string) option \<Rightarrow> nat \<Rightarrow> 'w sched_sys \<Rightarrow> 'w sched_sys option" where
  "worker_rounds detect 0 y = Some y"
| "worker_rounds detect (Suc n) y =
     (case worker_iteration detect (True, True) 0 y of None \<Rightarrow> None | Some (_, y') \<Rightarrow> worker_rounds detect n y')"

lemma need_retrigger_same [simp]: "\<not> need_retrigger i i n"
  by (simp add: need_retrigger_def)

text \<open>
  A round that detects the known upstream only refreshes the adapter.
\<close>

lemma worker_iteration_same:
  assumes "\<not> worker_should_stop (sy_sched y)" and "primary_upstream_ifindex (sy_sched y) = i"
  shows "\<exists>y'. worker_iteration (Some (i, nm)) lsm_ok now y = Some (None, y') \<and> sy_lsm y' = sy_lsm y \<and>
    \<not> worker_should_stop (sy_sched y') \<and> primary_upstream_ifindex (sy_sched y') = i \<and> limited_count (sy_sched y') = limited_count (sy_sched y) \<and>
    sc_adapter (sy_sched y') = sc_adapter (sy_sched y) \<and>
    sy_world y' = (case sc_adapter (sy_sched y) of None \<Rightarrow> sy_world y | Some a \<Rightarrow> snd (call_op (ad_refresh_active a) (sy_world y)))"
  using assms by (simp add: worker_iteration_def worker_probe_def refresh_primary_upstream_locked_def Let_def)

lemma worker_rounds_same:
  assumes "\<not> worker_should_stop (sy_sched y)" and "primary_upstream_ifindex (sy_sched y) = i"
  shows "\<exists>y'. worker_rounds (Some (i, nm)) n y = Some y' \<and> sy_lsm y' = sy_lsm y \<and> primary_upstream_ifindex (sy_sched y') = i \<and>
    limited_count (sy_sched y') = limited_count (sy_sched y) \<and> sc_adapter (sy_sched y') = sc_adapter (sy_sched y)"
  using assms
proof (induction n arbitrary: y)
  case (Suc n)
  from worker_iteration_same[OF Suc.prems, of nm "(True, True)" 0] obtain y' where y':
    "worker_iteration (Some (i, nm)) (True, True) 0 y = Some (None, y')" "sy_lsm y' = sy_lsm y" "\<not> worker_should_stop (sy_sched y')"
    "primary_upstream_ifindex (sy_sched y') = i" "limited_count (sy_sched y') = limited_count (sy_sched y)"
    "sc_adapter (sy_sched y') = sc_adapter (sy_sched y)" by blast
  from Suc.IH[OF y'(3,4)] y' show ?case by simp
qed simp

context offload_contract
begin

lemma rounds_keep_blocked:
  assumes "\<not> worker_should_stop (sy_sched y)" and "primary_upstream_ifindex (sy_sched y) = i" and "sc_adapter (sy_sched y) = Some A"
    and "ok (sy_world y)" and "worker_rounds (Some (i, nm)) n y = Some y'"
  shows "ok (sy_world y') \<and> (\<forall>j. blocked (sy_world y') j = blocked (sy_world y) j)"
  using assms
proof (induction n arbitrary: y)
  case (Suc n)
  from worker_iteration_same[OF Suc.prems(1,2), of nm "(True, True)" 0] Suc.prems(3) obtain y1 where y1:
    "worker_iteration (Some (i, nm)) (True, True) 0 y = Some (None, y1)" "\<not> worker_should_stop (sy_sched y1)"
    "primary_upstream_ifindex (sy_sched y1) = i" "sc_adapter (sy_sched y1) = Some A"
    "sy_world y1 = snd (call_op (ad_refresh_active A) (sy_world y))" by auto
  from refresh_keeps[OF Suc.prems(4)] y1(5) have w1: "ok (sy_world y1)" "\<forall>j. blocked (sy_world y1) j = blocked (sy_world y) j" by simp_all
  from Suc.IH[OF y1(2,3,4) w1(1)] Suc.prems(5) y1(1) w1(2) show ?case by simp
qed simp

end

section \<open>Properties\<close>

lemma notify_items:
  assumes "sc_initialized (sy_sched y)" and "limited_ok (sy_sched y)"
    and "hnc_scheduler_notify_device_limit_changed detect mac b y = (r, y')" and norm: "normalize_mac mac = Some norm"
  shows "limited_ok (sy_sched y') \<and>
    (let S = set (limited_items (sy_sched y)) in
     set (limited_items (sy_sched y')) = (if \<not> b then S - {norm} else if norm \<in> S \<or> card S < 256 then insert norm S else S)) \<and>
    ((limited_count (sy_sched y) = 0) = (limited_count (sy_sched y') = 0) \<longrightarrow> r = None \<and> sy_world y' = sy_world y)"
proof -
  let ?s = "sy_sched y"
  define s1 where "s1 = (if b then snd (limited_set_add norm ?s) else limited_set_remove norm ?s)"
  note fits = normalize_mac_fits[OF norm]
  have y': "limited_macs (sy_sched y') = limited_macs s1 \<and> limited_count (sy_sched y') = limited_count s1 \<and>
     ((limited_count ?s = 0) = (limited_count s1 = 0) \<longrightarrow> r = None \<and> sy_world y' = sy_world y)"
    using assms(1,3) norm
    by (auto simp: hnc_scheduler_notify_device_limit_changed_def s1_def[symmetric] Let_def split: if_splits prod.splits)
  have l1: "limited_ok s1" using limited.add_law[OF assms(2) fits] limited.remove_law[OF assms(2)] by (simp add: s1_def)
  have "card (set (limited_items ?s)) = length (limited_items ?s)" using limited.length_card[OF assms(2)] by simp
  then have "set (limited_items s1) = (let S = set (limited_items ?s) in if \<not> b then S - {norm} else if norm \<in> S \<or> card S < 256 then insert norm S else S)"
    using limited.add_law[OF assms(2) fits] limited.remove_law[OF assms(2), of norm]
    by (simp add: s1_def HNC_SCHED_MAX_LIMITED_DEVICES_def)
  moreover have "limited_items (sy_sched y') = limited_items s1" "limited_ok (sy_sched y') = limited_ok s1"
    using y' limited_ok_cong[of "sy_sched y'" s1] by (simp_all add: limited_items_def)
  ultimately show ?thesis using y' l1 by (simp add: Let_def)
qed

text \<open>
  C14: A notification makes the limited set the right set: an invalid address changes nothing;
  otherwise the lower-case address is added (unless 256 others are there) or removed; the set
  keeps its bound and has no duplicates, and the adapter is called only when the set becomes
  non-empty or empty.
\<close>

theorem notify_updates_set:
  assumes "sc_initialized (sy_sched y)" and "limited_ok (sy_sched y)"
    and "hnc_scheduler_notify_device_limit_changed detect mac b y = (r, y')"
  shows "limited_ok (sy_sched y') \<and>
    (case normalize_mac mac of
       None \<Rightarrow> y' = y
     | Some norm \<Rightarrow>
         let S = set (limited_items (sy_sched y)) in
         norm = map c_tolower (take 17 mac) \<and>
         set (limited_items (sy_sched y')) = (if \<not> b then S - {norm} else if norm \<in> S \<or> card S < 256 then insert norm S else S)) \<and>
    ((limited_count (sy_sched y) = 0) = (limited_count (sy_sched y') = 0) \<longrightarrow> r = None \<and> sy_world y' = sy_world y)"
proof (cases "normalize_mac mac")
  case None
  with assms show ?thesis by (simp add: hnc_scheduler_notify_device_limit_changed_def)
next
  case (Some norm)
  then show ?thesis using notify_items[OF assms Some] normalize_mac_shape[OF Some] by (simp add: Let_def)
qed

theorem notify_updates_set_witness:
  "set (limited_items (sy_sched demo_sys2)) = {''aa:bb:cc:00:11:22''}"
proof -
  have l: "limited_ok (sy_sched demo_sys1)" "limited_items (sy_sched demo_sys1) = []" "sc_initialized (sy_sched demo_sys1)"
    by (simp_all add: demo_sys1_fields limited_ok_def limited_items_def) (simp_all add: sched0_def)
  have n: "normalize_mac ''AA:BB:CC:00:11:22'' = Some ''aa:bb:cc:00:11:22''" by code_simp
  from notify_updates_set[OF l(3,1) conjunct1[OF demo_sys2_fields]] n l(2) show ?thesis by (simp add: Let_def)
qed

text \<open>
  A failed disable is not retried: when the first limitation meets an adapter call that
  fails while the upstream's fast path is open, the device counts as limited, and however
  many periodic rounds follow with the same upstream, no further disable is attempted and
  the fast path stays open.
\<close>

lemma failed_disable_not_retried:
  assumes "bpf_ok K V (sy_world y)" and "sc_adapter (sy_sched y) = Some (adapter_bpf K)"
    and "sc_initialized (sy_sched y)" and "\<not> worker_should_stop (sy_sched y)" and "limited_count (sy_sched y) = 0"
    and "normalize_mac mac = Some norm" and "0 < i" and "\<not> bpf_blocked V (sy_world y) i"
    and "fst (bpf_disable_upstream K i (sy_world y)) \<noteq> OFFLOAD_OK"
  shows "\<exists>y'. worker_rounds (Some (i, nm)) n (snd (hnc_scheduler_notify_device_limit_changed (Some (i, nm)) mac True y)) = Some y' \<and>
     limited_count (sy_sched y') = 1 \<and> primary_upstream_ifindex (sy_sched y') = i \<and> \<not> bpf_blocked V (sy_world y') i"
proof -
  define s2 where "s2 = refresh_primary_upstream_locked (Some (i, nm)) (snd (limited_set_add norm (sy_sched y)))"
  have f: "sc_adapter s2 = Some (adapter_bpf K)" "primary_upstream_ifindex s2 = i" "\<not> worker_should_stop s2"
    using assms(2,4) by (auto simp: s2_def refresh_primary_upstream_locked_def limited_set_add_def)
  obtain e w where d: "bpf_disable_upstream K i (sy_world y) = (e, w)" by (rule prod.exhaust)
  have t: "trigger_adapter_disable_locked s2 (sy_world y) = (Some e, w)"
    using f assms(7) d by (simp add: trigger_adapter_disable_locked_def adapter_bpf_def call_op_def)
  from notify_first[OF assms(3,6,5) s2_def t]
  have y1: "snd (hnc_scheduler_notify_device_limit_changed (Some (i, nm)) mac True y) = y\<lparr>sy_sched := hnc_scheduler_request_refresh s2, sy_world := w\<rparr>"
    and c: "limited_count s2 = 1" by simp_all
  let ?y1 = "y\<lparr>sy_sched := hnc_scheduler_request_refresh s2, sy_world := w\<rparr>"
  have w: "bpf_ok K V w" "\<not> bpf_blocked V w i"
    using disable_upstream_effect[of K V "sy_world y" i e w] fds_limit_ok[of V "sy_world y"] d assms(1,8,9) same_sets_items[of "fst (sy_world y)" "fst w"]
    by (auto simp: bpf_ok_def bpf_blocked_def same_maps_def keeps_fds_def)
  have ns: "\<not> worker_should_stop (sy_sched ?y1)" "primary_upstream_ifindex (sy_sched ?y1) = i" "sc_adapter (sy_sched ?y1) = Some (adapter_bpf K)"
    using f by (simp_all add: hnc_scheduler_request_refresh_def)
  from worker_rounds_same[OF ns(1,2), of nm n] obtain y' where y': "worker_rounds (Some (i, nm)) n ?y1 = Some y'"
    "primary_upstream_ifindex (sy_sched y') = i" "limited_count (sy_sched y') = 1" using c by auto
  from bpf.rounds_keep_blocked[OF ns _ y'(1), of V] w y' y1 show ?thesis by simp
qed

definition busy_kernel :: "pinned_maps bpf_kernel" where
  "busy_kernel = demo_kernel\<lparr>k_update := (\<lambda>_ _ _ _ k. (EAGAIN, k))\<rparr>"

lemma failed_disable_not_retried_witness:
  "\<exists>y'. worker_rounds (Some (7, ''rmnet0'')) 1000
       (snd (hnc_scheduler_notify_device_limit_changed (Some (7, ''rmnet0'')) ''AA:BB:CC:00:11:22'' True
         (demo_sys1\<lparr>sy_sched := (sy_sched demo_sys1)\<lparr>sc_adapter := Some (adapter_bpf busy_kernel)\<rparr>\<rparr>))) = Some y' \<and>
     limited_count (sy_sched y') = 1 \<and> primary_upstream_ifindex (sy_sched y') = 7 \<and> pm_maps (snd (sy_world y')) BPF_LIMIT_MAP 7 \<noteq> Some 0"
proof -
  let ?y = "demo_sys1\<lparr>sy_sched := (sy_sched demo_sys1)\<lparr>sc_adapter := Some (adapter_bpf busy_kernel)\<rparr>\<rparr>"
  have n: "normalize_mac ''AA:BB:CC:00:11:22'' = Some ''aa:bb:cc:00:11:22''" by code_simp
  have k: "kernel_maps busy_kernel demo_view" using demo_kernel_maps by (simp add: kernel_maps_def busy_kernel_def errno_defs)
  have ok: "bpf_ok busy_kernel demo_view (sy_world ?y)"
    using k by (simp add: bpf_ok_def demo_sys1_fields disabled_ok_def disabled_items_def bpf_state0_def fds_ok_def pm_open_def demo_open_def)
  have nb: "\<not> bpf_blocked demo_view (sy_world ?y) 7"
    by (simp add: bpf_blocked_def demo_sys1_fields BPF_LIMIT_NONE_def demo_open_def demo_maps_def)
  have e: "fst (bpf_disable_upstream busy_kernel 7 (sy_world ?y)) \<noteq> OFFLOAD_OK"
    by (simp add: bpf_disable_upstream_def ensure_limit_fd_def demo_sys1_fields update_retry_def limit_update_def busy_kernel_def errno_defs errno_to_offload_def)
  have f: "sc_initialized (sy_sched ?y)" "\<not> worker_should_stop (sy_sched ?y)" "limited_count (sy_sched ?y) = 0" "sc_adapter (sy_sched ?y) = Some (adapter_bpf busy_kernel)"
    by (simp_all add: demo_sys1_fields) (simp_all add: sched0_def)
  from failed_disable_not_retried[OF ok f(4,1,2,3) n _ nb e, of "''rmnet0''" 1000] show ?thesis by (simp add: bpf_blocked_def)
qed

text \<open>
  The guard can be left behind: when the first limitation finds a new upstream \<open>j\<close>, the
  scheduler adopts it without telling the guard, and no later periodic round that sees the
  same upstream tells it either, so the guard goes on protecting the old interface while the
  fast path is shut on \<open>j\<close> only.
\<close>

lemma guard_left_behind:
  assumes "sc_initialized (sy_sched y)" and "\<not> worker_should_stop (sy_sched y)" and "limited_count (sy_sched y) = 0"
    and "normalize_mac mac = Some norm" and "lg_ctrl (sy_lsm y) = Some ct" and "protected_ifindex ct \<noteq> nat j"
  shows "\<exists>y'. worker_rounds (Some (j, nm)) n (snd (hnc_scheduler_notify_device_limit_changed (Some (j, nm)) mac True y)) = Some y' \<and>
     primary_upstream_ifindex (sy_sched y') = j \<and> lg_ctrl (sy_lsm y') = Some ct"
proof -
  define s2 where "s2 = refresh_primary_upstream_locked (Some (j, nm)) (snd (limited_set_add norm (sy_sched y)))"
  obtain r w where t: "trigger_adapter_disable_locked s2 (sy_world y) = (r, w)" by (rule prod.exhaust)
  let ?y1 = "y\<lparr>sy_sched := hnc_scheduler_request_refresh s2, sy_world := w\<rparr>"
  from notify_first[OF assms(1,4,3) s2_def t]
  have y1: "snd (hnc_scheduler_notify_device_limit_changed (Some (j, nm)) mac True y) = ?y1" by simp
  have "\<not> worker_should_stop (sy_sched ?y1)" "primary_upstream_ifindex (sy_sched ?y1) = j"
    using assms(2) by (auto simp: hnc_scheduler_request_refresh_def s2_def refresh_primary_upstream_locked_def limited_set_add_def)
  from worker_rounds_same[OF this, of nm n] y1 assms(5) show ?thesis by auto
qed

lemma guard_left_behind_witness:
  "\<exists>y'. worker_rounds (Some (9, ''wlan1'')) 1000
       (snd (hnc_scheduler_notify_device_limit_changed (Some (9, ''wlan1'')) ''AA:BB:CC:00:11:22'' True
         (demo_sys1\<lparr>sy_lsm := lsm_state0\<lparr>lg_ctrl := Some \<lparr>protected_map_id = 5, protected_ifindex = 7, hotspotd_pid = 42, enabled = 1\<rparr>\<rparr>\<rparr>))) = Some y' \<and>
     primary_upstream_ifindex (sy_sched y') = 9 \<and> map_option protected_ifindex (lg_ctrl (sy_lsm y')) = Some 7"
proof -
  let ?ct = "\<lparr>protected_map_id = 5, protected_ifindex = 7, hotspotd_pid = 42, enabled = 1\<rparr>"
  let ?y = "demo_sys1\<lparr>sy_lsm := lsm_state0\<lparr>lg_ctrl := Some ?ct\<rparr>\<rparr>"
  have n: "normalize_mac ''AA:BB:CC:00:11:22'' = Some ''aa:bb:cc:00:11:22''" by code_simp
  have f: "sc_initialized (sy_sched ?y)" "\<not> worker_should_stop (sy_sched ?y)" "limited_count (sy_sched ?y) = 0" "lg_ctrl (sy_lsm ?y) = Some ?ct"
    by (simp_all add: demo_sys1_fields) (simp_all add: sched0_def)
  from guard_left_behind[OF f(1,2,3) n f(4), of 9 "''wlan1''" 1000] show ?thesis by auto
qed

section \<open>The summary\<close>

fun commas :: "string list \<Rightarrow> string" where
  "commas [] = []"
| "commas [x] = x"
| "commas (x # xs) = x @ '','' @ commas xs"

lemma length_commas: "\<forall>x \<in> set xs. length x \<le> 11 \<Longrightarrow> length (commas xs) \<le> 12 * length xs"
  by (induction xs rule: commas.induct) auto

lemma dis_arr_loop_fits:
  assumes "length acc + 12 * length is < 128" and "\<forall>i \<in> set is. length (dec_int i) \<le> 11"
  shows "dis_arr_loop first is acc = Some (acc @ (if first \<or> is = [] then [] else '','') @ commas (map dec_int is))"
  using assms
proof (induction first "is" acc rule: dis_arr_loop.induct)
  case (2 first i "is" acc)
  have "dis_arr_loop False is (acc @ (if first then [] else '','') @ dec_int i) =
      Some ((acc @ (if first then [] else '','') @ dec_int i) @ (if is = [] then [] else '','') @ commas (map dec_int is))"
    using 2 by (auto simp: Let_def)
  moreover have "length ((if first then [] else '','') @ dec_int i) < 128 - length acc" using 2(2,3) by auto
  ultimately show ?case using 2(2) by (cases "is") (auto simp: Let_def)
qed simp

text \<open>
  The status summary lists every disabled upstream: the array in its 128-byte buffer is
  never cut (the fall-back to an empty array is never taken) and it is the comma-separated
  list of the disabled interfaces, at most eight.
\<close>

lemma summary_lists_disabled:
  assumes "sc_initialized (sy_sched y)" and "sc_adapter (sy_sched y) = Some (adapter_bpf K)" and "disabled_ok (fst (sy_world y))"
    and "\<forall>i \<in> set (disabled_items (fst (sy_world y))). - (2 ^ 31) \<le> i \<and> i < 2 ^ 31"
  shows "dis_arr (hnc_scheduler_get_summary y) = ''['' @ commas (map dec_int (disabled_items (fst (sy_world y)))) @ '']'' \<and>
     sm_disabled_upstream_count (hnc_scheduler_get_summary y) = length (disabled_items (fst (sy_world y))) \<and>
     length (disabled_items (fst (sy_world y))) \<le> 8"
proof -
  let ?s = "fst (sy_world y)" and ?i = "disabled_items (fst (sy_world y))" and ?m = "hnc_scheduler_get_summary y"
  have n: "length ?i = disabled_upstream_count ?s" "disabled_upstream_count ?s \<le> 8"
    using assms(3) by (simp_all add: length_disabled_items disabled_ok_def MAX_DISABLED_UPSTREAMS_def)
  have c: "sm_disabled_upstream_count ?m = disabled_upstream_count ?s"
    "take (sm_disabled_upstream_count ?m) (sm_disabled_upstream_ifindex ?m) = ?i"
    using assms(1,2) n(2) by (simp_all add: hnc_scheduler_get_summary_def adapter_bpf_def bpf_status_def Let_def)
      (use assms(3) in \<open>simp add: disabled_items_def min_def disabled_ok_def\<close>)
  have l: "\<forall>i \<in> set ?i. length (dec_int i) \<le> 11" using assms(4) length_dec_int by blast
  have lp: "dis_arr_loop True ?i ''['' = Some (''['' @ commas (map dec_int ?i))"
    using dis_arr_loop_fits[OF _ l, of "''[''" True] n by simp
  have sz: "length (commas (map dec_int ?i)) \<le> 12 * length ?i" using length_commas[of "map dec_int ?i"] l by simp
  have "dis_arr ?m = ''['' @ commas (map dec_int ?i) @ '']''"
  proof (cases "disabled_upstream_count ?s = 0")
    case True
    then show ?thesis using n c by (simp add: dis_arr_def)
  next
    case False
    then show ?thesis using sz n c lp by (simp add: dis_arr_def)
  qed
  then show ?thesis using n c by simp
qed

lemma summary_lists_disabled_witness:
  "dis_arr (hnc_scheduler_get_summary
     (demo_sys1\<lparr>sy_world := (bpf_state0\<lparr>disabled_upstream_ifindex := [7, 12, 0, 0, 0, 0, 0, 0], disabled_upstream_count := 2\<rparr>, demo_maps Map.empty)\<rparr>)) = ''[7,12]''"
proof -
  let ?y = "demo_sys1\<lparr>sy_world := (bpf_state0\<lparr>disabled_upstream_ifindex := [7, 12, 0, 0, 0, 0, 0, 0], disabled_upstream_count := 2\<rparr>, demo_maps Map.empty)\<rparr>"
  have i: "disabled_items (fst (sy_world ?y)) = [7, 12]" by (simp add: disabled_items_def numeral_2_eq_2)
  have c: "''['' @ commas (map dec_int [7, 12]) @ '']'' = ''[7,12]''" by code_simp
  have "disabled_ok (fst (sy_world ?y))" using i by (simp add: disabled_ok_def MAX_DISABLED_UPSTREAMS_def)
  with summary_lists_disabled[of ?y demo_kernel] i c show ?thesis by (simp add: demo_sys1_fields)
qed

end
