(* ===== verification/SchedRules.thy ===== *)
theory SchedRules
  imports Scheduler
begin

text \<open>
  The start-up rebuild of \<^verbatim>\<open>daemon/hotspotd/scheduler.c\<close> (\<^verbatim>\<open>rebuild_from_rules\<close>) against the files it
  is meant to read.  A rules file is given by its devices, each with an address and a list of
  fields; the text is rendered with some white space, and the scanner must find exactly the
  addresses whose block has \<^verbatim>\<open>"limit_enabled": true\<close>.
\<close>

section \<open>Rules files\<close>

datatype jval = JRaw string | JStr string

type_synonym jfield = "string \<times> jval"
type_synonym jdevice = "string \<times> jfield list"

fun val_text :: "jval \<Rightarrow> string" where
  "val_text (JRaw v) = v"
| "val_text (JStr v) = DQ # v @ [DQ]"

definition field_text :: "string \<Rightarrow> jfield \<Rightarrow> string" where
  "field_text sp f = DQ # fst f @ DQ # CHR '':'' # sp @ val_text (snd f)"

fun fields_text :: "string \<Rightarrow> jfield list \<Rightarrow> string" where
  "fields_text sp [] = []"
| "fields_text sp [f] = field_text sp f"
| "fields_text sp (f # fs) = field_text sp f @ CHR '','' # sp @ fields_text sp fs"

definition device_text :: "string \<Rightarrow> jdevice \<Rightarrow> string" where
  "device_text sp d = DQ # fst d @ DQ # CHR '':'' # sp @ CHR ''{'' # sp @ fields_text sp (snd d) @ ''}''"

fun devices_text :: "string \<Rightarrow> jdevice list \<Rightarrow> string" where
  "devices_text sp [] = []"
| "devices_text sp [d] = device_text sp d"
| "devices_text sp (d # ds) = device_text sp d @ CHR '','' # sp @ devices_text sp ds"

definition devices_key :: string where
  "devices_key = DQ # ''devices'' @ [DQ]"

definition rules_text :: "string \<Rightarrow> string \<Rightarrow> jdevice list \<Rightarrow> string \<Rightarrow> string" where
  "rules_text sp pre ds post = pre @ devices_key @ CHR '':'' # sp @ CHR ''{'' # sp @ devices_text sp ds @ CHR ''}'' # post"

text \<open>Quoted text has no quote and no escape in it; a bare value is one word without separators.\<close>

definition str_ok :: "string \<Rightarrow> bool" where
  "str_ok s \<longleftrightarrow> DQ \<notin> set s \<and> BSL \<notin> set s"

definition raw_ok :: "string \<Rightarrow> bool" where
  "raw_ok s \<longleftrightarrow> list_all (\<lambda>c. c \<noteq> DQ \<and> c \<noteq> BSL \<and> c \<noteq> CHR ''{'' \<and> c \<noteq> CHR ''}'' \<and> c \<noteq> CHR '','' \<and> c \<noteq> NUL \<and> \<not> c_isspace c) s"

fun val_ok :: "jval \<Rightarrow> bool" where
  "val_ok (JRaw v) = raw_ok v"
| "val_ok (JStr v) = str_ok v"

definition field_ok :: "jfield \<Rightarrow> bool" where
  "field_ok f \<longleftrightarrow> str_ok (fst f) \<and> val_ok (snd f)"

definition device_ok :: "jdevice \<Rightarrow> bool" where
  "device_ok d \<longleftrightarrow> length (fst d) = 17 \<and> normalize_mac (fst d) \<noteq> None \<and> list_all field_ok (snd d)"

definition space_ok :: "string \<Rightarrow> bool" where
  "space_ok sp \<longleftrightarrow> list_all c_isspace sp"

text \<open>What the rebuild should collect.\<close>

definition limited_field :: "jfield list \<Rightarrow> bool" where
  "limited_field fs \<longleftrightarrow> (''limit_enabled'', JRaw ''true'') \<in> set fs"

definition rules_limited :: "jdevice list \<Rightarrow> string list" where
  "rules_limited ds = map (\<lambda>d. the (normalize_mac (fst d))) (filter (\<lambda>d. limited_field (snd d)) ds)"

section \<open>Searching a quoted key\<close>

lemma strstr_skip: "c \<notin> set u \<Longrightarrow> strstr (c # k) (u @ s) = strstr (c # k) s"
  by (induction u) auto

lemma prefix_quoted:
  "DQ \<notin> set k \<Longrightarrow> DQ \<notin> set t \<Longrightarrow> prefix (k @ [DQ]) (t @ DQ # r) \<longleftrightarrow> k = t"
proof
  assume d: "DQ \<notin> set k" "DQ \<notin> set t" and "prefix (k @ [DQ]) (t @ DQ # r)"
  then obtain z where "t @ DQ # r = k @ DQ # z" by (auto simp: prefix_def)
  with append_sep_eq[OF d(2,1), of r z] show "k = t" by simp
qed (simp add: prefix_def)

lemma strstr_hit: "strstr (DQ # k @ [DQ]) (DQ # k @ DQ # r) = Some (DQ # k @ DQ # r)"
  by (simp add: prefix_def)

lemma strstr_other:
  assumes "DQ \<notin> set k" and "DQ \<notin> set t" and "k \<noteq> t"
  shows "strstr (DQ # k @ [DQ]) (DQ # t @ DQ # r) = strstr (DQ # k @ [DQ]) (DQ # r)"
proof -
  have "\<not> prefix (DQ # k @ [DQ]) (DQ # t @ DQ # r)" using prefix_quoted[OF assms(1,2)] assms(3) by simp
  then show ?thesis using strstr_skip[OF assms(2), of "k @ [DQ]" "DQ # r"] by simp
qed

lemma strstr_close:
  "k = a # k' \<Longrightarrow> c \<noteq> a \<Longrightarrow> strstr (DQ # k @ [DQ]) (DQ # c # r) = strstr (DQ # k @ [DQ]) (c # r)"
  by simp

lemma json_bool_loop_cong:
  "strstr needle p = strstr needle p' \<Longrightarrow> json_bool_loop needle p = json_bool_loop needle p'"
  by (simp add: json_bool_loop.simps[of needle p] json_bool_loop.simps[of needle p'] json_bool_step_def)

abbreviation limit_key :: string where "limit_key \<equiv> ''limit_enabled''"
abbreviation limit_needle :: string where "limit_needle \<equiv> DQ # limit_key @ [DQ]"

text \<open>After a value comes a comma or a closing brace.\<close>

definition ends :: "string \<Rightarrow> bool" where
  "ends s \<longleftrightarrow> (\<exists>c r. s = c # r \<and> (c = CHR '','' \<or> c = CHR ''}''))"

lemma not_space_sep [simp]: "\<not> c_isspace CHR '',''" "\<not> c_isspace CHR ''}''" "\<not> c_isspace CHR '':''" "\<not> c_isspace DQ" "\<not> c_isspace BSL" "\<not> c_isspace CHR ''{''"
  by (simp_all add: c_isspace_def)

lemma dropWhile_space: "space_ok sp \<Longrightarrow> dropWhile c_isspace (sp @ s) = dropWhile c_isspace s"
  by (simp add: space_ok_def list_all_iff dropWhile_append)

lemma dropWhile_ends: "ends s \<Longrightarrow> dropWhile c_isspace s = s"
  by (auto simp: ends_def)

lemma limit_key_DQ: "DQ \<notin> set limit_key"
  by simp

lemma J_skip: "DQ \<notin> set u \<Longrightarrow> json_bool_loop limit_needle (u @ s) = json_bool_loop limit_needle s"
  by (rule json_bool_loop_cong, rule strstr_skip)

lemma J_close: "c \<noteq> CHR ''l'' \<Longrightarrow> json_bool_loop limit_needle (DQ # c # r) = json_bool_loop limit_needle (c # r)"
  by (rule json_bool_loop_cong) simp

lemma J_other: "DQ \<notin> set t \<Longrightarrow> t \<noteq> limit_key \<Longrightarrow> json_bool_loop limit_needle (DQ # t @ DQ # r) = json_bool_loop limit_needle (DQ # r)"
  by (rule json_bool_loop_cong, rule strstr_other[OF limit_key_DQ]) auto

lemma space_DQ: "space_ok sp \<Longrightarrow> DQ \<notin> set sp"
  by (auto simp: space_ok_def list_all_iff)

lemma J_hit:
  "json_bool_loop limit_needle (DQ # limit_key @ DQ # r) =
     (let q = dropWhile c_isspace r in
      if cget q 0 \<noteq> CHR '':'' then json_bool_loop limit_needle q
      else let q2 = dropWhile c_isspace (tl q)
           in if prefix ''true'' q2 \<and> (cget q2 4 = NUL \<or> cget q2 4 = CHR '','' \<or> cget q2 4 = CHR ''}'' \<or> c_isspace (cget q2 4))
              then True else json_bool_loop limit_needle q2)"
  using strstr_hit[of limit_key r]
  by (subst json_bool_loop.simps) (simp add: json_bool_step_def Let_def, blast)

lemma J_val:
  assumes "val_ok v" and "ends tail"
  shows "json_bool_loop limit_needle (val_text v @ tail) = json_bool_loop limit_needle tail"
proof (cases v)
  case (JRaw u)
  then have "DQ \<notin> set u" using assms(1) by (auto simp: raw_ok_def list_all_iff)
  then show ?thesis using JRaw J_skip by simp
next
  case (JStr u)
  then have d: "DQ \<notin> set u" using assms(1) by (simp add: str_ok_def)
  obtain c r where t: "tail = c # r" "c = CHR '','' \<or> c = CHR ''}''" using assms(2) by (auto simp: ends_def)
  show ?thesis
  proof (cases "u = limit_key")
    case True
    have "cget tail 0 \<noteq> CHR '':''" using t by (auto simp: cget_def)
    with True JStr show ?thesis using J_hit[of tail] dropWhile_ends[OF assms(2)] by (simp add: Let_def)
  next
    case False
    have "c \<noteq> CHR ''l''" using t(2) by auto
    then have "json_bool_loop limit_needle (DQ # tail) = json_bool_loop limit_needle tail" using J_close t(1) by simp
    then show ?thesis using JStr J_other[OF d False, of tail] by simp
  qed
qed

lemma true_value:
  assumes "val_ok v" and "ends tail"
  defines "q \<equiv> val_text v @ tail"
  shows "dropWhile c_isspace q = q \<and>
    ((prefix ''true'' q \<and> (cget q 4 = NUL \<or> cget q 4 = CHR '','' \<or> cget q 4 = CHR ''}'' \<or> c_isspace (cget q 4))) = (v = JRaw ''true''))"
proof -
  obtain c r where t: "tail = c # r" "c = CHR '','' \<or> c = CHR ''}''" using assms(2) by (auto simp: ends_def)
  show ?thesis
  proof (cases v)
    case (JStr u)
    then show ?thesis by (simp add: q_def)
  next
    case (JRaw u)
    have n: "\<forall>x \<in> set u. x \<noteq> CHR '','' \<and> x \<noteq> CHR ''}'' \<and> x \<noteq> NUL \<and> \<not> c_isspace x"
      using assms(1) JRaw by (auto simp: raw_ok_def list_all_iff)
    have "dropWhile c_isspace q = q" using n t by (cases u) (auto simp: q_def JRaw)
    moreover have "prefix ''true'' q \<and> (cget q 4 = NUL \<or> cget q 4 = CHR '','' \<or> cget q 4 = CHR ''}'' \<or> c_isspace (cget q 4)) \<longleftrightarrow> u = ''true''"
    proof
      assume p: "prefix ''true'' q \<and> (cget q 4 = NUL \<or> cget q 4 = CHR '','' \<or> cget q 4 = CHR ''}'' \<or> c_isspace (cget q 4))"
      show "u = ''true''"
      proof (cases "4 < length u")
        case True
        then have "cget q 4 \<in> set u" by (simp add: q_def JRaw cget_def nth_append)
        with n p show ?thesis by blast
      next
        case False
        from p have q: "take 4 q = ''true''" by (auto simp: prefix_def)
        have "length u = 4"
        proof (rule ccontr)
          assume "length u \<noteq> 4"
          with False have "length u < 4" by simp
          then have "c = take 4 q ! length u" using t by (simp add: q_def JRaw nth_append)
          moreover have "length u < length (take 4 q)" using q \<open>length u < 4\<close> by simp
          ultimately have "c \<in> set (take 4 q)" by (metis nth_mem)
          then have "c \<in> set ''true''" using q by simp
          with t(2) show False by auto
        qed
        with q show ?thesis by (simp add: q_def JRaw)
      qed
    next
      assume "u = ''true''"
      with t show "prefix ''true'' q \<and> (cget q 4 = NUL \<or> cget q 4 = CHR '','' \<or> cget q 4 = CHR ''}'' \<or> c_isspace (cget q 4))"
        by (auto simp: q_def JRaw cget_def)
    qed
    ultimately show ?thesis by (simp add: JRaw)
  qed
qed

lemma J_field:
  assumes "field_ok f" and "space_ok sp" and "ends tail"
  shows "json_bool_loop limit_needle (field_text sp f @ tail) = (f = (limit_key, JRaw ''true'') \<or> json_bool_loop limit_needle tail)"
proof -
  obtain k v where f: "f = (k, v)" "DQ \<notin> set k" "val_ok v" using assms(1) by (cases f) (auto simp: field_ok_def str_ok_def)
  note tv = true_value[OF f(3) assms(3)] and jv = J_val[OF f(3) assms(3)]
  have e: "field_text sp f @ tail = DQ # k @ DQ # CHR '':'' # sp @ val_text v @ tail" by (simp add: field_text_def f(1))
  show ?thesis
  proof (cases "k = limit_key")
    case True
    then have "json_bool_loop limit_needle (field_text sp f @ tail) =
      (if v = JRaw ''true'' then True else json_bool_loop limit_needle (val_text v @ tail))"
      using J_hit[of "CHR '':'' # sp @ val_text v @ tail"] e tv dropWhile_space[OF assms(2), of "val_text v @ tail"]
      by (simp add: Let_def cget_def)
    with True jv f(1) show ?thesis by simp
  next
    case False
    have "json_bool_loop limit_needle (DQ # k @ DQ # CHR '':'' # sp @ val_text v @ tail) = json_bool_loop limit_needle (CHR '':'' # sp @ val_text v @ tail)"
      using J_other[OF f(2) False] J_close by simp
    also have "\<dots> = json_bool_loop limit_needle (val_text v @ tail)"
      using J_skip[of "CHR '':'' # sp" "val_text v @ tail"] space_DQ[OF assms(2)] by simp
    finally show ?thesis using jv e False f(1) by simp
  qed
qed

lemma J_fields:
  "list_all field_ok fs \<Longrightarrow> space_ok sp \<Longrightarrow>
   json_bool_loop limit_needle (fields_text sp fs @ ''}'') = limited_field fs"
proof (induction sp fs rule: fields_text.induct)
  case (1 sp)
  have "strstr limit_needle ''}'' = None" by simp
  then show ?case by (simp add: json_bool_loop.simps json_bool_step_def limited_field_def)
next
  case (2 sp f)
  have "json_bool_loop limit_needle ''}'' = False" by (simp add: json_bool_loop.simps json_bool_step_def)
  with 2 J_field[of f sp "''}''"] show ?case by (auto simp: ends_def limited_field_def)
next
  case (3 sp f g fs)
  let ?t = "CHR '','' # sp @ fields_text sp (g # fs) @ ''}''"
  have "json_bool_loop limit_needle ?t = limited_field (g # fs)"
    using 3 J_skip[of "CHR '','' # sp" "fields_text sp (g # fs) @ ''}''"] space_DQ by simp
  moreover have "json_bool_loop limit_needle (fields_text sp (f # g # fs) @ ''}'') = (f = (limit_key, JRaw ''true'') \<or> json_bool_loop limit_needle ?t)"
    using 3 J_field[of f sp ?t] by (simp add: ends_def)
  ultimately show ?case by (auto simp: limited_field_def)
qed

lemma block_limited:
  assumes "list_all field_ok fs" and "space_ok sp"
  shows "json_bool_true_in_block (CHR ''{'' # (sp @ fields_text sp fs) @ ''}'') limit_key = limited_field fs"
proof -
  have "cbuf 96 (DQ # limit_key @ [DQ]) = limit_needle" by (rule cbuf_id) simp
  then show ?thesis
    using J_fields[OF assms] J_skip[of "CHR ''{'' # sp" "fields_text sp fs @ ''}''"] space_DQ[OF assms(2)]
    by (simp add: json_bool_true_in_block_def)
qed

section \<open>Brace counting\<close>

text \<open>A text that the brace counter walks over without closing anything.\<close>

definition transparent :: "nat \<Rightarrow> string \<Rightarrow> bool" where
  "transparent d u \<longleftrightarrow> (\<forall>s. brace_span d False False (u @ s) = map_option (\<lambda>(a, b). (u @ a, b)) (brace_span d False False s))"

lemma transparent_append: "transparent d u \<Longrightarrow> transparent d v \<Longrightarrow> transparent d (u @ v)"
  by (auto simp: transparent_def option.map_comp comp_def case_prod_unfold)

lemma transparent_char:
  "c \<noteq> DQ \<Longrightarrow> c \<noteq> BSL \<Longrightarrow> c \<noteq> CHR ''{'' \<Longrightarrow> c \<noteq> CHR ''}'' \<Longrightarrow> transparent d [c]"
  by (auto simp: transparent_def Let_def)

lemma transparent_chars:
  "list_all (\<lambda>c. c \<noteq> DQ \<and> c \<noteq> BSL \<and> c \<noteq> CHR ''{'' \<and> c \<noteq> CHR ''}'') u \<Longrightarrow> transparent d u"
proof (induction u)
  case Nil
  show ?case by (simp add: transparent_def option.map_id flip: id_def)
next
  case (Cons c u)
  with transparent_append[of d "[c]" u] transparent_char[of c d] show ?case by simp
qed

lemma brace_span_in_string:
  "str_ok u \<Longrightarrow> brace_span d True False (u @ s) = map_option (\<lambda>(a, b). (u @ a, b)) (brace_span d True False s)"
  by (induction u) (auto simp: str_ok_def Let_def option.map_ident option.map_comp comp_def case_prod_unfold split: option.split)

lemma transparent_string: "str_ok u \<Longrightarrow> transparent d (DQ # u @ [DQ])"
  by (simp add: transparent_def brace_span_in_string Let_def option.map_comp comp_def case_prod_unfold)

lemma transparent_block: "0 < d \<Longrightarrow> transparent (d + 1) u \<Longrightarrow> transparent d (CHR ''{'' # u @ ''}'')"
  by (simp add: transparent_def Let_def option.map_comp comp_def case_prod_unfold)

lemma transparent_close: "transparent 1 u \<Longrightarrow> brace_span 1 False False (u @ CHR ''}'' # s) = Some (u, s)"
  by (simp add: transparent_def Let_def)

lemma transparent_space: "space_ok sp \<Longrightarrow> transparent d sp"
  by (rule transparent_chars) (auto simp: space_ok_def list_all_iff)

lemma transparent_val: "val_ok v \<Longrightarrow> transparent d (val_text v)"
proof (cases v)
  case (JRaw u)
  moreover assume "val_ok v"
  ultimately have "list_all (\<lambda>c. c \<noteq> DQ \<and> c \<noteq> BSL \<and> c \<noteq> CHR ''{'' \<and> c \<noteq> CHR ''}'') u"
    by (simp add: raw_ok_def list_all_iff)
  with JRaw show ?thesis by (simp add: transparent_chars)
qed (simp add: transparent_string)

lemma transparent_colon: "space_ok sp \<Longrightarrow> transparent d (CHR '':'' # sp)"
  using transparent_append[OF transparent_char transparent_space, of "CHR '':''" sp d] by simp

lemma transparent_comma: "space_ok sp \<Longrightarrow> transparent d (CHR '','' # sp)"
  using transparent_append[OF transparent_char transparent_space, of "CHR '',''" sp d] by simp

lemma transparent_field:
  assumes "field_ok f" and "space_ok sp"
  shows "transparent d (field_text sp f)"
proof -
  have "transparent d ((DQ # fst f @ [DQ]) @ (CHR '':'' # sp) @ val_text (snd f))"
    using assms transparent_string[of "fst f"] transparent_val[of "snd f"] transparent_colon[of sp]
    by (intro transparent_append) (simp_all add: field_ok_def)
  then show ?thesis by (simp add: field_text_def)
qed

lemma transparent_fields: "list_all field_ok fs \<Longrightarrow> space_ok sp \<Longrightarrow> transparent d (fields_text sp fs)"
proof (induction sp fs rule: fields_text.induct)
  case (1 sp)
  show ?case using transparent_chars[of "[]"] by simp
next
  case (3 sp f g fs)
  have "transparent d (field_text sp f @ (CHR '','' # sp) @ fields_text sp (g # fs))"
    using 3 transparent_field[of f sp d] transparent_comma[of sp d] by (intro transparent_append) auto
  then show ?case by simp
qed (simp add: transparent_field)

lemma mac_str_ok: "normalize_mac m = Some r \<Longrightarrow> length m = 17 \<Longrightarrow> str_ok m"
proof -
  assume m: "normalize_mac m = Some r" "length m = 17"
  have "c \<noteq> DQ \<and> c \<noteq> BSL" if c: "c \<in> set m" for c
  proof -
    obtain j where j: "j < length m" "c = m ! j" using c unfolding in_set_conv_nth by auto
    have "\<forall>j < 17. if j mod 3 = 2 then m ! j = CHR '':'' else c_isxdigit (m ! j)" using normalize_mac_shape[OF m(1)] by simp
    then have "c = CHR '':'' \<or> c_isxdigit c" using j m(2) by (cases "j mod 3 = 2") auto
    moreover have "\<not> c_isxdigit DQ" "\<not> c_isxdigit BSL" by (simp_all add: c_isxdigit_def c_isdigit_def)
    ultimately show ?thesis by auto
  qed
  then show ?thesis by (auto simp: str_ok_def)
qed

lemma transparent_device:
  assumes "device_ok d" and "space_ok sp" and "0 < n"
  shows "transparent n (device_text sp d)"
proof -
  obtain r where "normalize_mac (fst d) = Some r" "length (fst d) = 17" using assms(1) by (auto simp: device_ok_def)
  note m = mac_str_ok[OF this]
  have "transparent n (CHR ''{'' # (sp @ fields_text sp (snd d)) @ ''}'')"
    using assms transparent_space transparent_fields by (intro transparent_block transparent_append) (auto simp: device_ok_def)
  with transparent_string[OF m] transparent_colon[OF assms(2)]
  have "transparent n ((DQ # fst d @ [DQ]) @ (CHR '':'' # sp) @ CHR ''{'' # (sp @ fields_text sp (snd d)) @ ''}'')"
    by (intro transparent_append) auto
  then show ?thesis by (simp add: device_text_def)
qed

lemma transparent_devices: "list_all device_ok ds \<Longrightarrow> space_ok sp \<Longrightarrow> 0 < n \<Longrightarrow> transparent n (devices_text sp ds)"
proof (induction sp ds rule: devices_text.induct)
  case (1 sp)
  show ?case using transparent_chars[of "[]"] by simp
next
  case (3 sp f g fs)
  have "transparent n (device_text sp f @ (CHR '','' # sp) @ devices_text sp (g # fs))"
    using 3 transparent_device[of f sp n] transparent_comma[of sp n] by (intro transparent_append) auto
  then show ?case by simp
qed (simp add: transparent_device)

section \<open>The scan of the devices\<close>

text \<open>The effect of one limited device on the counter and the set.\<close>

definition add_limited :: "string \<Rightarrow> nat \<times> 'w sched_state \<Rightarrow> nat \<times> 'w sched_state" where
  "add_limited m st = (case limited_set_add m (snd st) of (r, s') \<Rightarrow> (if r \<noteq> None then fst st + 1 else fst st, s'))"

lemma snd_add_limited: "snd (fold add_limited ms st) = fold (\<lambda>m s. snd (limited_set_add m s)) ms (snd st)"
  by (induction ms arbitrary: st) (auto simp: add_limited_def split: prod.split)

lemma is_mac_device:
  assumes "device_ok d"
  shows "is_mac_key (device_text sp d @ rest)"
proof -
  obtain r where m: "normalize_mac (fst d) = Some r" "length (fst d) = 17" using assms by (auto simp: device_ok_def)
  have c: "fst d ! j = CHR '':''" if "j < 17" "j mod 3 = 2" for j using normalize_mac_shape[OF m(1)] that by simp
  have "(device_text sp d @ rest) ! (Suc j) = fst d ! j" if "j < 17" for j
    using m(2) that by (simp add: device_text_def nth_append)
  from this[of 2] this[of 5] this[of 8] this[of 11] this[of 14] c[of 2] c[of 5] c[of 8] c[of 11] c[of 14]
  have "(device_text sp d @ rest) ! 3 = CHR '':''" "(device_text sp d @ rest) ! 6 = CHR '':''" "(device_text sp d @ rest) ! 9 = CHR '':''"
    "(device_text sp d @ rest) ! 12 = CHR '':''" "(device_text sp d @ rest) ! 15 = CHR '':''" by simp_all
  moreover have "(device_text sp d @ rest) ! 18 = DQ" using m(2) by (simp add: device_text_def nth_append)
  moreover have "18 < length (device_text sp d @ rest)" using m(2) by (simp add: device_text_def)
  ultimately show ?thesis by (simp add: is_mac_key_def)
qed

lemma rebuild_step_device:
  assumes "device_ok d" and "space_ok sp" and "DQ \<notin> set u"
  shows "rebuild_step (u @ device_text sp d @ rest) st =
     Some (rest, if limited_field (snd d) then add_limited (the (normalize_mac (fst d))) st else st)"
proof -
  obtain r where m: "normalize_mac (fst d) = Some r" "length (fst d) = 17" and fs: "list_all field_ok (snd d)"
    using assms(1) by (auto simp: device_ok_def)
  let ?t = "device_text sp d @ rest" and ?in = "sp @ fields_text sp (snd d)"
  have q: "strchr DQ (u @ ?t) = Some ?t" using assms(3) by (simp add: strchr_append_notin device_text_def)
  have dr: "drop 19 ?t = (CHR '':'' # sp) @ CHR ''{'' # ?in @ CHR ''}'' # rest" using m(2) by (simp add: device_text_def)
  have "CHR ''{'' \<notin> set (CHR '':'' # sp)" using assms(2) by (auto simp: space_ok_def list_all_iff)
  then have b: "strchr (CHR ''{'') (drop 19 ?t) = Some (CHR ''{'' # ?in @ CHR ''}'' # rest)"
    unfolding dr by (subst strchr_append_notin) auto
  have "transparent 1 ?in" using transparent_append[OF transparent_space[OF assms(2)] transparent_fields[OF fs assms(2)]] .
  from transparent_close[OF this, of rest] have sp: "brace_span 1 False False (?in @ CHR ''}'' # rest) = Some (?in, rest)" .
  have tk: "take 17 (tl ?t) = fst d" using m(2) by (simp add: device_text_def)
  show ?thesis
    using q b sp tk m(1) is_mac_device[OF assms(1)] block_limited[OF fs assms(2)]
    by (simp add: rebuild_step_def add_limited_def)
qed

lemma rebuild_devices:
  "list_all device_ok ds \<Longrightarrow> space_ok sp \<Longrightarrow> DQ \<notin> set u \<Longrightarrow>
   rebuild_loop (u @ devices_text sp ds) st = fold add_limited (rules_limited ds) st"
proof (induction sp ds arbitrary: u st rule: devices_text.induct)
  case (1 sp)
  then have "strchr DQ u = None" using strchr_append_notin[of DQ u "[]"] by simp
  then show ?case by (simp add: rebuild_loop.simps rebuild_step_def rules_limited_def)
next
  case (2 sp d)
  have "rebuild_step [] st = None" for st :: "nat \<times> 'a sched_state" by (simp add: rebuild_step_def)
  then have n: "rebuild_loop [] st = st" for st :: "nat \<times> 'a sched_state" by (simp add: rebuild_loop.simps)
  from 2 rebuild_step_device[of d sp u "[]" st] show ?case
    by (simp add: rebuild_loop.simps[of "u @ device_text sp d"] n rules_limited_def)
next
  case (3 sp d e ds)
  let ?rest = "(CHR '','' # sp) @ devices_text sp (e # ds)"
  have ih: "rebuild_loop ?rest st = fold add_limited (rules_limited (e # ds)) st" for st :: "nat \<times> 'a sched_state"
    using 3 space_DQ by (intro "3.IH") auto
  have st: "rebuild_step (u @ device_text sp d @ ?rest) st =
     Some (?rest, if limited_field (snd d) then add_limited (the (normalize_mac (fst d))) st else st)"
    using 3 by (intro rebuild_step_device) auto
  have "rebuild_loop (u @ device_text sp d @ ?rest) st = rebuild_loop ?rest (if limited_field (snd d) then add_limited (the (normalize_mac (fst d))) st else st)"
    by (subst rebuild_loop.simps) (simp add: st[simplified])
  also have "\<dots> = fold add_limited (rules_limited (d # e # ds)) st" unfolding ih by (simp add: rules_limited_def)
  finally show ?case by simp
qed

section \<open>Properties\<close>

definition key_first :: "string \<Rightarrow> bool" where
  "key_first pre \<longleftrightarrow> strstr devices_key (pre @ devices_key) = Some devices_key"

lemma key_first_strstr:
  "key_first pre \<Longrightarrow> strstr devices_key (pre @ devices_key @ rest) = Some (devices_key @ rest)"
proof -
  have "strstr k (pre @ k) = Some k \<Longrightarrow> strstr k (pre @ k @ rest) = Some (k @ rest)" if k: "k \<noteq> []" for k :: string
  proof (induction pre)
    case Nil
    show ?case using k by (cases k) (auto simp: prefix_def)
  next
    case (Cons c pre)
    have np: "\<not> prefix k (c # pre @ k)"
    proof
      assume "prefix k (c # pre @ k)"
      then have "strstr k ((c # pre) @ k) = Some (c # pre @ k)" by simp
      with Cons.prems show False by simp
    qed
    then have "\<not> prefix k (c # pre @ k @ rest)"
    proof -
      have "length k \<le> length (c # pre @ k)" by simp
      then show ?thesis using np by (metis append.assoc append_Cons prefix_length_prefix prefixI)
    qed
    with np Cons show ?case by simp
  qed
  moreover have "devices_key \<noteq> []" by (simp add: devices_key_def)
  ultimately show "key_first pre \<Longrightarrow> ?thesis" by (simp add: key_first_def)
qed

lemma take_past: "length h \<le> n \<Longrightarrow> take n (h @ s) = h @ take (n - length h) s"
  by simp

lemma brace_span_cut:
  "brace_span d i e s = Some (u, v) \<Longrightarrow> n \<le> length u \<Longrightarrow> brace_span d i e (take n s) = None"
  by (induction d i e s arbitrary: u n rule: brace_span.induct)
     (fastforce simp: Let_def take_Cons' split: if_splits)+

lemma rules_object:
  assumes "list_all device_ok ds" and "space_ok sp"
  shows "brace_span 1 False False ((sp @ devices_text sp ds) @ CHR ''}'' # post) = Some (sp @ devices_text sp ds, post)"
  using transparent_append[OF transparent_space[OF assms(2)] transparent_devices[OF assms, of 1]]
  by (intro transparent_close) simp

lemma strchr_open: "space_ok sp \<Longrightarrow> strchr (CHR ''{'') (devices_key @ CHR '':'' # sp @ CHR ''{'' # s) = Some (CHR ''{'' # s)"
proof -
  assume "space_ok sp"
  then have "CHR ''{'' \<notin> set (devices_key @ CHR '':'' # sp)" by (auto simp: devices_key_def space_ok_def list_all_iff)
  from strchr_append_notin[OF this, of "CHR ''{'' # s"] show ?thesis by simp
qed

text \<open>
  C4: After a restart the limited set is rebuilt exactly: from a rules file of at most 16383
  bytes whose devices object holds any list of devices with any fields, string values with
  braces included, the rebuild adds the lower-case addresses of precisely the devices whose
  block has \<^verbatim>\<open>"limit_enabled"\<close> true (a true \<^verbatim>\<open>"delay_enabled"\<close> or a string of that text does
  not count), and returns how many it added.
\<close>

theorem rebuild_restores_limited:
  assumes "list_all device_ok ds" and "space_ok sp" and "key_first pre" and "nulfree (rules_text sp pre ds post)"
    and "length (rules_text sp pre ds post) \<le> 16383" and "limited_ok s"
    and "card (set (limited_items s) \<union> set (rules_limited ds)) \<le> 256"
  shows "case rebuild_from_rules (Some (rules_text sp pre ds post)) s of (n, s') \<Rightarrow>
     set (limited_items s') = set (limited_items s) \<union> set (rules_limited ds) \<and> limited_ok s' \<and> limited_count s' = limited_count s + n"
proof -
  let ?f = "rules_text sp pre ds post" and ?body = "sp @ devices_text sp ds"
  have t: "take 16383 ?f = ?f" "cstr ?f = ?f" using assms(4,5) by simp_all
  have ne: "?f \<noteq> []" by (simp add: rules_text_def)
  have f: "?f = pre @ devices_key @ CHR '':'' # sp @ CHR ''{'' # ?body @ CHR ''}'' # post" by (simp add: rules_text_def)
  have "strstr devices_key ?f = Some (devices_key @ CHR '':'' # sp @ CHR ''{'' # ?body @ CHR ''}'' # post)"
    unfolding f using key_first_strstr[OF assms(3)] by simp
  then have "rebuild_from_rules (Some ?f) s = rebuild_loop ?body (0, s)"
    using t ne strchr_open[OF assms(2), of "?body @ CHR ''}'' # post"] rules_object[OF assms(1,2), of post]
    by (simp add: rebuild_from_rules_def devices_key_def Let_def)
  also have "\<dots> = fold add_limited (rules_limited ds) (0, s)"
    by (rule rebuild_devices[OF assms(1,2) space_DQ[OF assms(2)]])
  finally have r: "rebuild_from_rules (Some ?f) s = fold add_limited (rules_limited ds) (0, s)" .
  obtain n s' where e: "rebuild_from_rules (Some ?f) s = (n, s')" by (rule prod.exhaust)
  have s': "s' = fold (\<lambda>m s. snd (limited_set_add m s)) (rules_limited ds) s" using r e snd_add_limited[of "rules_limited ds" "(0, s)"] by (metis snd_conv)
  have "list_all mac_fits (rules_limited ds)"
    using assms(1) normalize_mac_fits by (fastforce simp: rules_limited_def list_all_iff device_ok_def)
  from limited.fold_add[OF assms(6) this] assms(7) have "set (limited_items s') = set (limited_items s) \<union> set (rules_limited ds)"
    unfolding s' by (simp add: HNC_SCHED_MAX_LIMITED_DEVICES_def)
  with rebuild_from_rules_count[OF e assms(6)] e show ?thesis by simp
qed

definition demo_devices :: "jdevice list" where
  "demo_devices =
     [(''AA:BB:CC:00:11:22'', [(''name'', JStr ''a{b''), (''delay_enabled'', JRaw ''true''), (''limit_enabled'', JRaw ''true'')]),
      (''aa:bb:cc:00:11:33'', [(''limit_enabled'', JRaw ''false''), (''note'', JStr ''limit_enabled''), (''delay_enabled'', JRaw ''true'')])]"

theorem rebuild_restores_limited_witness:
  "set (limited_items (snd (rebuild_from_rules (Some (rules_text '' '' ''{'' demo_devices ''}'')) (sched0 :: unit sched_state)))) = {''aa:bb:cc:00:11:22''}"
proof -
  have a: "list_all device_ok demo_devices" "space_ok '' ''" "key_first ''{''" "nulfree (rules_text '' '' ''{'' demo_devices ''}'')"
    "length (rules_text '' '' ''{'' demo_devices ''}'') \<le> 16383" "rules_limited demo_devices = [''aa:bb:cc:00:11:22'']"
    by (code_simp)+
  have s: "limited_ok (sched0 :: unit sched_state)" "limited_items (sched0 :: unit sched_state) = []"
    by (simp_all add: limited_ok_def limited_items_def sched0_def)
  have "card (set (limited_items (sched0 :: unit sched_state)) \<union> set (rules_limited demo_devices)) \<le> 256" unfolding s(2) a(6) by simp
  from rebuild_restores_limited[OF a(1-5) s(1) this] s a(6) show ?thesis by (simp split: prod.splits)
qed

text \<open>
  The rebuild is all or nothing beyond 16383 bytes: when the closing brace of the devices
  object lies beyond that point of the file, no device is rebuilt at all, however many of
  them are limited and lie before it.
\<close>

lemma rebuild_truncated_none:
  assumes "list_all device_ok ds" and "space_ok sp" and "key_first pre" and "nulfree (rules_text sp pre ds post)"
    and "length (pre @ devices_key @ CHR '':'' # sp @ ''{'') \<le> 16383"
    and "16383 \<le> length (pre @ devices_key @ CHR '':'' # sp @ CHR ''{'' # sp @ devices_text sp ds)"
  shows "rebuild_from_rules (Some (rules_text sp pre ds post)) s = (0, s)"
proof -
  let ?f = "rules_text sp pre ds post" and ?body = "sp @ devices_text sp ds"
  let ?h = "pre @ devices_key @ CHR '':'' # sp @ ''{''"
  define n where "n = 16383 - length ?h"
  have n: "n \<le> length ?body" using assms(6) by (simp add: n_def)
  have f: "?f = ?h @ ?body @ CHR ''}'' # post" by (simp add: rules_text_def)
  have tk: "take 16383 ?f = ?h @ take n (?body @ CHR ''}'' # post)" unfolding f n_def using assms(5) by (rule take_past)
  have "nulfree (take 16383 ?f)" using assms(4) by (auto simp: nulfree_def dest: in_set_takeD)
  then have c: "cstr (take 16383 ?f) = take 16383 ?f" by simp
  have "strstr devices_key (take 16383 ?f) = Some (devices_key @ CHR '':'' # sp @ CHR ''{'' # take n (?body @ CHR ''}'' # post))"
    unfolding tk using key_first_strstr[OF assms(3)] by simp
  moreover have "brace_span 1 False False (take n (?body @ CHR ''}'' # post)) = None"
    using brace_span_cut[OF rules_object[OF assms(1,2)] n] .
  ultimately show ?thesis
    using c strchr_open[OF assms(2), of "take n (?body @ CHR ''}'' # post)"]
    by (simp add: rebuild_from_rules_def devices_key_def Let_def)
qed

definition big_devices :: "jdevice list" where
  "big_devices = [(''aa:bb:cc:00:11:22'', [(''limit_enabled'', JRaw ''true'')]),
     (''aa:bb:cc:00:11:33'', [(''note'', JStr (replicate 16400 (CHR ''x'')))])]"

lemma rebuild_truncated_none_witness:
  "rules_limited big_devices = [''aa:bb:cc:00:11:22''] \<and>
   rebuild_from_rules (Some (rules_text [] ''{'' big_devices ''}'')) (sched0 :: unit sched_state) = (0, sched0)"
proof -
  have m: "normalize_mac ''aa:bb:cc:00:11:22'' = Some ''aa:bb:cc:00:11:22''" "normalize_mac ''aa:bb:cc:00:11:33'' = Some ''aa:bb:cc:00:11:33''"
    by code_simp+
  have t: "raw_ok ''true''" "str_ok ''limit_enabled''" "str_ok ''note''" by code_simp+
  have d: "list_all device_ok big_devices"
    using m t by (simp add: big_devices_def device_ok_def field_ok_def) (simp add: str_ok_def)
  have k: "key_first ''{''" by code_simp
  have x: "space_ok []" by (simp add: space_ok_def)
  have n: "nulfree (rules_text [] ''{'' big_devices ''}'')"
    by (simp add: nulfree_def rules_text_def big_devices_def device_text_def field_text_def devices_key_def)
  have l: "length (''{'' @ devices_key @ CHR '':'' # [] @ ''{'') \<le> 16383"
    "16383 \<le> length (''{'' @ devices_key @ CHR '':'' # [] @ CHR ''{'' # [] @ devices_text [] big_devices)"
    by (simp_all add: devices_key_def big_devices_def device_text_def field_text_def)
  have "rules_limited big_devices = [''aa:bb:cc:00:11:22'']" using m by (simp add: rules_limited_def big_devices_def limited_field_def)
  with rebuild_truncated_none[OF d x k n l] show ?thesis by simp
qed

end
