(* ===== verification/CText.thy ===== *)
theory CText
  imports Helpers
begin

text \<open>
  The line and field scanners of the C library that the daemon's main program uses:
  \<^verbatim>\<open>fgets\<close>, the \<^verbatim>\<open>%Ns\<close> and \<^verbatim>\<open>%ld\<close> conversions of \<^verbatim>\<open>sscanf\<close>, \<^verbatim>\<open>strtok_r\<close> at line feeds,
  \<^verbatim>\<open>strcasestr\<close>, and the printing of IPv4 and MAC addresses.
\<close>

section \<open>Lines\<close>

text \<open>One \<^verbatim>\<open>fgets\<close> with room for \<open>n\<close> characters: the line, its line feed included, and the rest.\<close>

fun fgets :: "nat \<Rightarrow> string \<Rightarrow> string \<times> string" where
  "fgets 0 s = ([], s)"
| "fgets (Suc n) [] = ([], [])"
| "fgets (Suc n) (c # cs) = (if c = LF then ([c], cs) else (case fgets n cs of (l, r) \<Rightarrow> (c # l, r)))"

lemma fgets_append: "fgets n s = (l, r) \<Longrightarrow> s = l @ r"
  by (induction n s arbitrary: l rule: fgets.induct) (auto split: if_splits prod.splits)

lemma fgets_length: "fgets n s = (l, r) \<Longrightarrow> length l \<le> n"
  by (induction n s arbitrary: l rule: fgets.induct) (auto split: if_splits prod.splits)

lemma fgets_nonempty: "fgets (Suc n) (c # cs) = (l, r) \<Longrightarrow> l \<noteq> []"
  by (auto split: if_splits prod.splits)

lemma fgets_shorter: "(l, r) = fgets (Suc n) (c # cs) \<Longrightarrow> length r < Suc (length cs)"
proof -
  assume a: "(l, r) = fgets (Suc n) (c # cs)"
  then have f: "fgets (Suc n) (c # cs) = (l, r)" by simp
  have "length l + length r = Suc (length cs)" using arg_cong[OF fgets_append[OF f], of length] by simp
  then show ?thesis using fgets_nonempty[OF f] by (cases l) auto
qed

text \<open>The lines that a loop of \<^verbatim>\<open>fgets(line, n + 2, f)\<close> sees.\<close>

function fgets_lines :: "nat \<Rightarrow> string \<Rightarrow> string list" where
  "fgets_lines n [] = []"
| "fgets_lines n (c # cs) = (case fgets (Suc n) (c # cs) of (l, r) \<Rightarrow> cstr l # fgets_lines n r)"
  by pat_completeness auto
termination
  by (relation "measure (\<lambda>(n, s). length s)") (auto simp del: fgets.simps dest!: fgets_shorter)

declare fgets_lines.simps(2) [simp del]

lemma fgets_line:
  assumes "LF \<notin> set l" and "length l \<le> n"
  shows "fgets (Suc n) (l @ LF # r) = (l @ [LF], r)"
  using assms
proof (induction l arbitrary: n)
  case (Cons c l)
  then obtain m where "n = Suc m" by (cases n) auto
  with Cons show ?case by auto
qed simp

lemma fgets_lines_line:
  assumes "LF \<notin> set l" and "length l \<le> n"
  shows "fgets_lines n (l @ LF # r) = cstr (l @ [LF]) # fgets_lines n r"
proof (cases l)
  case Nil
  then show ?thesis using fgets_line[OF assms, of r] by (simp add: fgets_lines.simps(2))
next
  case (Cons c cs)
  then show ?thesis using fgets_line[OF assms, of r] by (simp only: append_Cons fgets_lines.simps(2)) simp
qed

text \<open>\<^verbatim>\<open>strtok_r(buf, "\n", ...)\<close> until it returns \<^verbatim>\<open>NULL\<close>: the non-empty lines.\<close>

fun split_lf :: "string \<Rightarrow> string list" where
  "split_lf [] = [[]]"
| "split_lf (c # cs) = (if c = LF then [] # split_lf cs else (case split_lf cs of l # ls \<Rightarrow> (c # l) # ls | [] \<Rightarrow> [[c]]))"

definition strtok_lines :: "string \<Rightarrow> string list" where
  "strtok_lines s = filter (\<lambda>l. l \<noteq> []) (split_lf s)"

lemma split_lf_line: "LF \<notin> set l \<Longrightarrow> split_lf (l @ LF # r) = l # split_lf r"
  by (induction l) auto

lemma strtok_lines_line: "LF \<notin> set l \<Longrightarrow> l \<noteq> [] \<Longrightarrow> strtok_lines (l @ LF # r) = l # strtok_lines r"
  by (simp add: strtok_lines_def split_lf_line)

section \<open>Fields\<close>

definition scan_s :: "nat \<Rightarrow> string \<Rightarrow> (string \<times> string) option" where
  "scan_s n s = (let t = dropWhile c_isspace s; w = takeWhile (\<lambda>c. \<not> c_isspace c) (take n t)
                 in if w = [] then None else Some (w, drop (length w) t))"

text \<open>A run of \<^verbatim>\<open>%Ns\<close> conversions.\<close>

fun scan_fields :: "nat list \<Rightarrow> string \<Rightarrow> string list option" where
  "scan_fields [] s = Some []"
| "scan_fields (n # ns) s =
     (case scan_s n s of None \<Rightarrow> None | Some (w, r) \<Rightarrow> map_option (\<lambda>ws. w # ws) (scan_fields ns r))"

text \<open>
  \<^verbatim>\<open>%ld\<close> keeps an out-of-range number at the end of the 64-bit range; \<^verbatim>\<open>%d\<close> then keeps the
  low 32 bits.  \<open>c_int\<close> is the conversion to the 32-bit \<^verbatim>\<open>int\<close>.
\<close>

definition clamp_long :: "int \<Rightarrow> int" where
  "clamp_long v = max (- (2 ^ 63)) (min (2 ^ 63 - 1) v)"

definition c_int :: "int \<Rightarrow> int" where
  "c_int v = (v + 2 ^ 31) mod 2 ^ 32 - 2 ^ 31"

definition scan_ld :: "string \<Rightarrow> (int \<times> string) option" where
  "scan_ld s =
     (let t = dropWhile c_isspace s;
          u = (if t \<noteq> [] \<and> (hd t = CHR ''-'' \<or> hd t = CHR ''+'') then tl t else t)
      in if u = [] \<or> \<not> c_isdigit (hd u) then None
         else case scan_dec 0 u of (v, r) \<Rightarrow> Some (clamp_long (if hd t = CHR ''-'' then - int v else int v), r))"

definition scan_d :: "string \<Rightarrow> (int \<times> string) option" where
  "scan_d s = map_option (\<lambda>(v, r). (c_int v, r)) (scan_ld s)"

lemma c_int_id: "- (2 ^ 31) \<le> v \<Longrightarrow> v < 2 ^ 31 \<Longrightarrow> c_int v = v"
  by (simp add: c_int_def)

lemma c_int_range: "- (2 ^ 31) \<le> c_int v" "c_int v < 2 ^ 31"
  by (simp_all add: c_int_def)

lemma clamp_long_id: "- (2 ^ 63) \<le> v \<Longrightarrow> v < 2 ^ 63 \<Longrightarrow> clamp_long v = v"
  by (simp add: clamp_long_def)

fun strcasestr :: "string \<Rightarrow> string \<Rightarrow> bool" where
  "strcasestr needle [] = (needle = [])"
| "strcasestr needle (c # cs) = (ci_prefix needle (c # cs) \<or> strcasestr needle cs)"

lemma scan_s_word:
  assumes "w \<noteq> []" and "list_all (\<lambda>c. \<not> c_isspace c) w" and "length w \<le> n" and "r = [] \<or> c_isspace (hd r)" and "list_all c_isspace sp"
  shows "scan_s n (sp @ w @ r) = Some (w, r)"
proof -
  have "dropWhile c_isspace (sp @ w @ r) = w @ r"
    using assms(1,2,5) by (cases w) (auto simp: list_all_iff dropWhile_append)
  moreover have "takeWhile (\<lambda>c. \<not> c_isspace c) (take n (w @ r)) = w"
  proof -
    have "takeWhile (\<lambda>c. \<not> c_isspace c) (w @ take (n - length w) r) = w @ takeWhile (\<lambda>c. \<not> c_isspace c) (take (n - length w) r)"
      using assms(2) by (intro takeWhile_append2) (auto simp: list_all_iff)
    moreover have "takeWhile (\<lambda>c. \<not> c_isspace c) (take (n - length w) r) = []"
      using assms(4) by (cases r; cases "n - length w") auto
    ultimately show ?thesis using assms(3) by simp
  qed
  ultimately show ?thesis using assms(1) by (simp add: scan_s_def)
qed

lemma scan_s_length: "scan_s n s = Some (w, r) \<Longrightarrow> w \<noteq> [] \<and> length w \<le> n \<and> set w \<subseteq> set s"
  unfolding scan_s_def Let_def
  by (auto split: if_splits dest!: set_takeWhileD in_set_takeD set_dropWhileD intro: order.trans[OF length_takeWhile_le])

section \<open>Addresses\<close>

text \<open>\<^verbatim>\<open>inet_ntop(AF_INET, ...)\<close> and the \<^verbatim>\<open>%02x:...\<close> format of the daemon.\<close>

definition ntop4 :: "nat list \<Rightarrow> string" where
  "ntop4 b = dec_nat (b ! 0) @ ''.'' @ dec_nat (b ! 1) @ ''.'' @ dec_nat (b ! 2) @ ''.'' @ dec_nat (b ! 3)"

fun mac_text :: "nat list \<Rightarrow> string" where
  "mac_text [] = []"
| "mac_text [b] = hex2 b"
| "mac_text (b # bs) = hex2 b @ CHR '':'' # mac_text bs"

lemma length_mac_text: "bs \<noteq> [] \<Longrightarrow> length (mac_text bs) = 3 * length bs - 1"
  by (induction bs rule: mac_text.induct) (auto simp: hex2_def)

end
