(* ===== verification/DeviceTable.thy ===== *)
theory DeviceTable
  imports CText OuiLookup HostnameCache MdnsWorker
begin

text \<open>
  The device table of \<^verbatim>\<open>daemon/hotspotd/hotspotd.c\<close>: the table itself, the two chains that find a
  host name, the common treatment of a neighbour that was seen, the ARP scan and the netlink
  messages.  The contents of the files and the output of the child processes are in the
  record \<open>io_env\<close>, with the time; the clock stands still within one operation.
\<close>

definition MAX_DEVICES :: nat where "MAX_DEVICES = 128"
definition MAC_STR_LEN :: nat where "MAC_STR_LEN = 18"
definition IP_STR_LEN :: nat where "IP_STR_LEN = 16"
definition HN_LEN :: nat where "HN_LEN = 64"
definition IF_LEN :: nat where "IF_LEN = 16"
definition HN_SRC_LEN :: nat where "HN_SRC_LEN = 12"

lemmas device_lens = MAC_STR_LEN_def IP_STR_LEN_def HN_LEN_def IF_LEN_def HN_SRC_LEN_def

text \<open>The kernel's neighbour states, \<^verbatim>\<open>linux/neighbour.h\<close>.\<close>

definition NUD_INCOMPLETE :: nat where "NUD_INCOMPLETE = 0x01"
definition NUD_STALE :: nat where "NUD_STALE = 0x04"
definition NUD_FAILED :: nat where "NUD_FAILED = 0x20"
definition NUD_VALID :: nat where "NUD_VALID = 0x02 OR 0x04 OR 0x08 OR 0x10 OR 0x80 OR 0x40"

record Device =
  dv_mac :: string
  dv_ip :: string
  dv_hostname :: string
  dv_hostname_src :: string
  dv_iface :: string
  dv_rx_bytes :: int
  dv_tx_bytes :: int
  dv_last_seen :: time_t
  dv_last_resolve :: time_t
  dv_pending_since :: time_t
  dv_active :: bool
  dv_state :: nat

definition dev_zero :: Device where
  "dev_zero = \<lparr>dv_mac = [], dv_ip = [], dv_hostname = [], dv_hostname_src = [], dv_iface = [], dv_rx_bytes = 0, dv_tx_bytes = 0,
     dv_last_seen = 0, dv_last_resolve = 0, dv_pending_since = 0, dv_active = False, dv_state = 0\<rparr>"

text \<open>The table with the modules that its operations change.\<close>

record dtab =
  g_devs :: "Device list"
  dt_cache :: cache_state
  dt_ov :: override_state
  dt_worker :: worker_state

record io_env =
  io_now :: time_t
  io_names :: "string option"
  io_dumpsys :: "string option"

section \<open>Table operations\<close>

definition dev_hit :: "string \<Rightarrow> Device \<Rightarrow> bool" where
  "dev_hit mac d \<longleftrightarrow> dv_active d \<and> strcasecmp_eq (dv_mac d) mac"

definition find_device :: "string \<Rightarrow> Device list \<Rightarrow> nat option" where
  "find_device mac devs = find_index (dev_hit mac) devs"

definition oldest_dev :: "Device list \<Rightarrow> nat" where
  "oldest_dev devs =
     fold (\<lambda>i old. if dv_active (devs ! i) \<and> dv_last_seen (devs ! i) < dv_last_seen (devs ! old) then i else old) [1..<MAX_DEVICES] 0"

text \<open>The slot and the table; only an evicted slot is cleared.\<close>

definition alloc_device :: "Device list \<Rightarrow> nat \<times> Device list" where
  "alloc_device devs =
     (case find_index (\<lambda>d. \<not> dv_active d) devs of
        Some i \<Rightarrow> (i, devs)
      | None \<Rightarrow> (let old = oldest_dev devs in (old, devs[old := dev_zero])))"

definition is_hotspot_iface :: "string \<Rightarrow> bool" where
  "is_hotspot_iface iface \<longleftrightarrow> iface \<noteq> [] \<and>
     \<not> list_ex (\<lambda>p. prefix p iface) [''lo'', ''rmnet'', ''dummy'', ''v4-'', ''tun'', ''p2p'', ''r_rmnet'']"

definition count_active :: "Device list \<Rightarrow> nat" where
  "count_active devs = length (filter dv_active devs)"

section \<open>Host names\<close>

definition dhcp_mac_ok :: "string \<Rightarrow> bool" where
  "dhcp_mac_ok mac \<longleftrightarrow> length mac = 17 \<and> list_all (\<lambda>c. c_isxdigit c \<or> c = CHR '':'') mac"

definition rstrip :: "(char \<Rightarrow> bool) \<Rightarrow> string \<Rightarrow> string" where
  "rstrip P s = rev (dropWhile P (rev s))"

text \<open>The host name of one line of the dump, if the line has the address and a name.\<close>

definition dhcp_line :: "string \<Rightarrow> string \<Rightarrow> string option" where
  "dhcp_line mac line =
     (if \<not> strcasestr mac line then None
      else case strstr ''hostname: '' line of
        None \<Rightarrow> None
      | Some p \<Rightarrow>
          (let hn = rstrip (\<lambda>c. c = CHR '' '' \<or> c = TAB) (take (HN_LEN - 1) (takeWhile (\<lambda>c. c \<noteq> CR \<and> c \<noteq> CHR '','') (drop 10 p)))
           in if hn = [] then None else Some hn))"

definition dhcp_latest :: "string \<Rightarrow> string list \<Rightarrow> string" where
  "dhcp_latest mac lines = fold (\<lambda>line latest. case dhcp_line mac line of None \<Rightarrow> latest | Some hn \<Rightarrow> hn) lines []"

text \<open>\<open>dump\<close> is what the child wrote before the time limit, \<^const>\<open>None\<close> when it could not be started.\<close>

definition try_ns_dhcp_resolve :: "string option \<Rightarrow> string \<Rightarrow> nat \<Rightarrow> string option" where
  "try_ns_dhcp_resolve dump mac outlen =
     (if mac = [] \<or> outlen = 0 then None
      else if \<not> dhcp_mac_ok mac then None
      else case dump of
        None \<Rightarrow> None
      | Some text \<Rightarrow>
          (let latest = dhcp_latest mac (strtok_lines (cstr (take (32 * 1024 - 1) text)))
           in if latest \<noteq> [] then Some (cbuf outlen latest) else None))"

text \<open>
  The mDNS helper: whether it may be executed, whether the address is valid, and what the
  child wrote with its exit code (\<^const>\<open>None\<close> when it could not be started).
\<close>

definition try_mdns_resolve :: "bool \<Rightarrow> (string \<Rightarrow> bool) \<Rightarrow> (string \<Rightarrow> (string \<times> int) option) \<Rightarrow> string \<Rightarrow> nat \<Rightarrow> string option" where
  "try_mdns_resolve exec_ok ip_ok child ip outlen =
     (if \<not> exec_ok \<or> outlen = 0 \<or> \<not> ip_ok ip then None
      else case child ip of
        None \<Rightarrow> None
      | Some (output, rc) \<Rightarrow>
          (let out = rstrip (\<lambda>c. c = LF \<or> c = CR) (cstr (take (outlen - 1) output))
           in if rc \<noteq> 0 then None else if out \<noteq> [] then Some out else None))"

definition mac_name :: "string \<Rightarrow> nat \<Rightarrow> string" where
  "mac_name mac hn_len = (case hnc_mac_fallback mac hn_len of Some hn \<Rightarrow> hn | None \<Rightarrow> [])"

text \<open>The end of both chains: cache, vendor table, address.\<close>

definition resolve_tail :: "override_state \<Rightarrow> cache_state \<Rightarrow> string \<Rightarrow> nat \<Rightarrow> nat \<Rightarrow> string \<times> string" where
  "resolve_tail ov cache mac hn_len src_len =
     (case hnc_cache_lookup cache mac HN_LEN 16 of
        Some (cached_hn, cached_src) \<Rightarrow> (cbuf hn_len cached_hn, cbuf src_len (''cache-'' @ cached_src))
      | None \<Rightarrow>
          (case hnc_lookup_oui ov mac hn_len of
             Some hn \<Rightarrow> (hn, cbuf src_len ''oui'')
           | None \<Rightarrow> (mac_name mac hn_len, cbuf src_len ''mac'')))"

definition resolve_hostname ::
  "io_env \<Rightarrow> (string \<Rightarrow> string option) \<Rightarrow> override_state \<Rightarrow> cache_state \<Rightarrow> string \<Rightarrow> string \<Rightarrow> nat \<Rightarrow> nat \<Rightarrow> string \<times> string \<times> cache_state" where
  "resolve_hostname io mdns ov cache mac ip hn_len src_len =
     (case hnc_lookup_manual_name mac (io_names io) hn_len of
        (True, Some name) \<Rightarrow> (name, cbuf src_len ''manual'', cache)
      | _ \<Rightarrow>
          (case try_ns_dhcp_resolve (io_dumpsys io) mac hn_len of
             Some hn \<Rightarrow> (hn, cbuf src_len ''dhcp'', fst (hnc_cache_update cache (io_now io) mac hn ''dhcp''))
           | None \<Rightarrow>
               (case (if ip \<noteq> [] then mdns ip else None) of
                  Some hn \<Rightarrow> (hn, cbuf src_len ''mdns'', fst (hnc_cache_update cache (io_now io) mac hn ''mdns''))
                | None \<Rightarrow> (case resolve_tail ov cache mac hn_len src_len of (hn, src) \<Rightarrow> (hn, src, cache)))))"

definition resolve_hostname_dhcp_only ::
  "io_env \<Rightarrow> override_state \<Rightarrow> cache_state \<Rightarrow> string \<Rightarrow> nat \<Rightarrow> nat \<Rightarrow> string \<times> string \<times> cache_state" where
  "resolve_hostname_dhcp_only io ov cache mac hn_len src_len =
     (case hnc_lookup_manual_name mac (io_names io) hn_len of
        (True, Some name) \<Rightarrow> (name, cbuf src_len ''manual'', cache)
      | _ \<Rightarrow>
          (case try_ns_dhcp_resolve (io_dumpsys io) mac hn_len of
             Some hn \<Rightarrow> (hn, cbuf src_len ''dhcp'', fst (hnc_cache_update cache (io_now io) mac hn ''dhcp''))
           | None \<Rightarrow> (case resolve_tail ov cache mac hn_len src_len of (hn, src) \<Rightarrow> (hn, src, cache))))"

section \<open>A neighbour was seen\<close>

definition mark_pending :: "time_t \<Rightarrow> Device \<Rightarrow> Device" where
  "mark_pending now d = d\<lparr>dv_hostname_src := cbuf HN_SRC_LEN ''pending'', dv_pending_since := now\<rparr>"

definition new_device :: "io_env \<Rightarrow> string \<Rightarrow> Device \<Rightarrow> Device" where
  "new_device io mac d =
     (case hnc_resolve_hostname_fast mac (io_names io) HN_LEN HN_SRC_LEN of (hn, src) \<Rightarrow>
        (let d1 = d\<lparr>dv_mac := cbuf MAC_STR_LEN mac, dv_hostname := hn, dv_hostname_src := src, dv_last_resolve := io_now io\<rparr>
         in if src = ''mac'' then mark_pending (io_now io) d1 else d1))"

definition re_resolve :: "io_env \<Rightarrow> string \<Rightarrow> string \<Rightarrow> override_state \<Rightarrow> Device \<times> cache_state \<times> worker_state \<Rightarrow> Device \<times> cache_state \<times> worker_state" where
  "re_resolve io mac ip ov = (\<lambda>(d, cache, wk).
     (case resolve_hostname_dhcp_only io ov cache mac HN_LEN HN_SRC_LEN of (hn, src, cache') \<Rightarrow>
        (let d1 = d\<lparr>dv_hostname := hn, dv_hostname_src := src, dv_last_resolve := io_now io\<rparr>
         in if src = ''mac'' \<and> ip \<noteq> []
            then (case hnc_mdns_worker_enqueue mac ip wk of (ok, wk') \<Rightarrow> (if ok then mark_pending (io_now io) d1 else d1, cache', wk'))
            else (d1, cache', wk))))"

text \<open>The entry after its name has been dealt with, and the slot it has.\<close>

definition seen_entry :: "io_env \<Rightarrow> string \<Rightarrow> string \<Rightarrow> dtab \<Rightarrow> nat \<times> Device \<times> dtab" where
  "seen_entry io mac ip t =
     (case find_device mac (g_devs t) of
        None \<Rightarrow> (case alloc_device (g_devs t) of (i, devs) \<Rightarrow> (i, new_device io mac (devs ! i), t\<lparr>g_devs := devs\<rparr>))
      | Some i \<Rightarrow>
          (let d = g_devs t ! i in
           if hnc_should_re_resolve (dv_hostname_src d) (dv_last_resolve d) (io_now io)
           then (case re_resolve io mac ip (dt_ov t) (d, dt_cache t, dt_worker t) of (d', cache', wk') \<Rightarrow>
                   (i, d', t\<lparr>dt_cache := cache', dt_worker := wk'\<rparr>))
           else (i, d, t)))"

definition device_seen :: "io_env \<Rightarrow> string \<Rightarrow> string \<Rightarrow> string \<Rightarrow> nat \<Rightarrow> dtab \<Rightarrow> dtab" where
  "device_seen io mac ip iface nud t =
     (case seen_entry io mac ip t of (i, d, t1) \<Rightarrow>
        t1\<lparr>g_devs := (g_devs t1)[i := d\<lparr>dv_ip := cbuf IP_STR_LEN ip, dv_iface := cbuf IF_LEN iface,
                                      dv_last_seen := io_now io, dv_active := True, dv_state := nud\<rparr>]\<rparr>)"

section \<open>ARP scan\<close>

text \<open>What the scan takes from one line of \<^verbatim>\<open>/proc/net/arp\<close>: address, hardware address, interface.\<close>

definition arp_line :: "string \<Rightarrow> (string \<times> string \<times> string) option" where
  "arp_line line =
     (case scan_fields [15, 7, 7, 17, 7, 15] line of
        Some [ip, hw, flags, mac, msk, iface] \<Rightarrow>
          if flags = ''0x0'' \<or> mac = ''00:00:00:00:00:00'' \<or> \<not> is_hotspot_iface iface then None
          else Some (ip, map c_tolower mac, iface)
      | _ \<Rightarrow> None)"

definition scan_line :: "io_env \<Rightarrow> string \<Rightarrow> dtab \<times> nat \<Rightarrow> dtab \<times> nat" where
  "scan_line io line = (\<lambda>(t, updated).
     case arp_line line of None \<Rightarrow> (t, updated) | Some (ip, mac, iface) \<Rightarrow> (device_seen io mac ip iface NUD_STALE t, updated + 1))"

text \<open>The loop of the scan: the table and the number of updated entries.\<close>

definition scan_arp_lines :: "io_env \<Rightarrow> string option \<Rightarrow> dtab \<Rightarrow> dtab \<times> nat" where
  "scan_arp_lines io arp t =
     (case arp of
        None \<Rightarrow> (t, 0)
      | Some text \<Rightarrow> (case fgets_lines 254 text of [] \<Rightarrow> (t, 0) | header # lines \<Rightarrow> fold (scan_line io) lines (t, 0)))"

section \<open>Netlink messages\<close>

datatype nl_type = RTM_NEWNEIGH | RTM_DELNEIGH | RTM_other

text \<open>A message after the kernel's framing macros: the fixed part and the attributes with their payloads.\<close>

record nl_msg =
  nl_kind :: nl_type
  ndm_inet :: bool
  ndm_ifindex :: int
  ndm_state :: nat
  nl_attrs :: "(nat \<times> nat list) list"

definition NDA_DST :: nat where "NDA_DST = 1"
definition NDA_LLADDR :: nat where "NDA_LLADDR = 2"

definition nl_attr :: "nat \<times> nat list \<Rightarrow> string \<times> string \<Rightarrow> string \<times> string" where
  "nl_attr a = (\<lambda>(ip, mac).
     if fst a = NDA_DST \<and> length (snd a) = 4 then (cbuf IP_STR_LEN (ntop4 (snd a)), mac)
     else if fst a = NDA_LLADDR \<and> length (snd a) = 6 then (ip, cbuf MAC_STR_LEN (mac_text (snd a)))
     else (ip, mac))"

text \<open>The effect of one message: the table and whether it counts as an event.\<close>

definition nl_message :: "io_env \<Rightarrow> (int \<Rightarrow> string) \<Rightarrow> nl_msg \<Rightarrow> dtab \<Rightarrow> bool \<times> dtab" where
  "nl_message io ifname m t =
     (if nl_kind m = RTM_other \<or> \<not> ndm_inet m then (False, t)
      else let iface = cbuf IF_LEN (ifname (ndm_ifindex m)) in
        if \<not> is_hotspot_iface iface then (False, t)
        else case fold nl_attr (nl_attrs m) ([], []) of (ip, mac) \<Rightarrow>
          if ip = [] \<or> mac = [] then (False, t)
          else if nl_kind m = RTM_DELNEIGH \<or> ndm_state m AND NUD_VALID = 0 then
            (case find_device mac (g_devs t) of
               None \<Rightarrow> (False, t)
             | Some i \<Rightarrow>
                 if ndm_state m AND (NUD_FAILED OR NUD_INCOMPLETE) \<noteq> 0
                 then (True, t\<lparr>g_devs := (g_devs t)[i := (g_devs t ! i)\<lparr>dv_active := False\<rparr>]\<rparr>)
                 else (False, t))
          else (True, device_seen io mac ip iface (ndm_state m) t))"

section \<open>Names fit their fields\<close>

lemma length_copy_name: "length (copy_name n q) \<le> n"
  by (induction n q rule: copy_name.induct) auto

lemma manual_name_fits: "hnc_lookup_manual_name mac f n = (b, Some name) \<Longrightarrow> 0 < n \<Longrightarrow> length name < n"
proof -
  have "manual_scan pat n left s = Some name \<Longrightarrow> 0 < n \<Longrightarrow> length name < n" for pat left s
    by (induction pat n left s rule: manual_scan.induct)
       (auto simp: size_dec_def less_Suc_eq_le intro: le_less_trans[OF length_copy_name] split: if_splits)
  then show "hnc_lookup_manual_name mac f n = (b, Some name) \<Longrightarrow> 0 < n \<Longrightarrow> length name < n"
    by (auto simp: hnc_lookup_manual_name_def Let_def split: option.splits if_splits)
qed

lemma mac_fallback_fits: "hnc_mac_fallback mac n = Some hn \<Longrightarrow> length hn < n"
  by (auto simp: hnc_mac_fallback_def Let_def split: if_splits)

lemma mac_name_fits: "0 < n \<Longrightarrow> length (mac_name mac n) < n"
  by (auto simp: mac_name_def dest: mac_fallback_fits split: option.splits)

lemma lookup_oui_fits: "hnc_lookup_oui ov mac n = Some hn \<Longrightarrow> length hn < n"
  by (auto simp: hnc_lookup_oui_def hnc_override_lookup_def Let_def split: if_splits option.splits)

lemma resolve_fast_fits:
  "hnc_resolve_hostname_fast mac f n m = (hn, src) \<Longrightarrow> 0 < n \<Longrightarrow> 0 < m \<Longrightarrow> length hn < n \<and> length src < m"
  by (auto simp: hnc_resolve_hostname_fast_def min_less_iff_disj dest: manual_name_fits mac_fallback_fits split: prod.splits bool.splits option.splits)

lemma resolve_tail_fits:
  "resolve_tail ov cache mac n m = (hn, src) \<Longrightarrow> 0 < n \<Longrightarrow> 0 < m \<Longrightarrow> length hn < n \<and> length src < m"
  by (auto simp: resolve_tail_def min_less_iff_disj mac_name_fits dest: lookup_oui_fits split: option.splits prod.splits)

lemma dhcp_fits: "try_ns_dhcp_resolve dump mac n = Some hn \<Longrightarrow> length hn < n"
  by (auto simp: try_ns_dhcp_resolve_def Let_def min_less_iff_disj split: if_splits option.splits)

lemma dhcp_only_fits:
  assumes "resolve_hostname_dhcp_only io ov cache mac n m = (hn, src, cache')" and "0 < n" and "0 < m"
  shows "length hn < n \<and> length src < m"
  using assms resolve_tail_fits[of ov cache mac n m]
  by (auto simp: resolve_hostname_dhcp_only_def min_less_iff_disj dest: manual_name_fits dhcp_fits split: prod.splits bool.splits option.splits)

section \<open>The table invariant\<close>

definition dev_ok :: "Device \<Rightarrow> bool" where
  "dev_ok d \<longleftrightarrow> length (dv_mac d) < MAC_STR_LEN \<and> length (dv_ip d) < IP_STR_LEN \<and> length (dv_hostname d) < HN_LEN \<and>
     length (dv_hostname_src d) < HN_SRC_LEN \<and> length (dv_iface d) < IF_LEN"

definition devs_inv :: "Device list \<Rightarrow> bool" where
  "devs_inv g \<longleftrightarrow> length g = MAX_DEVICES \<and> list_all dev_ok g \<and>
     (\<forall>i < length g. \<forall>j < length g. dv_active (g ! i) \<and> dv_active (g ! j) \<and> strcasecmp_eq (dv_mac (g ! i)) (dv_mac (g ! j)) \<longrightarrow> i = j)"

lemma devs_inv_nth: "devs_inv g \<Longrightarrow> i < length g \<Longrightarrow> dev_ok (g ! i)"
  by (simp add: devs_inv_def list_all_length)

lemma dev_ok_zero: "dev_ok dev_zero"
  by (simp add: dev_ok_def dev_zero_def device_lens)

lemma devs_inv_same:
  assumes "devs_inv g" and "dev_ok e" and "dv_mac e = dv_mac (g ! i)" and "dv_active e \<longrightarrow> dv_active (g ! i)"
  shows "devs_inv (g[i := e])"
proof (cases "i < length g")
  case True
  have u: "a = b" if "a < length g" "b < length g" "dv_active (g ! a)" "dv_active (g ! b)" "strcasecmp_eq (dv_mac (g ! a)) (dv_mac (g ! b))" for a b
    using assms(1) that by (simp add: devs_inv_def)
  with True assms show ?thesis by (auto simp: devs_inv_def nth_list_update intro!: list_all_update u)
qed (use assms in \<open>simp add: list_update_beyond\<close>)

lemma devs_inv_new:
  assumes "devs_inv g" and "dev_ok e" and "find_device (dv_mac e) g = None"
  shows "devs_inv (g[i := e])"
proof -
  have ne: "\<not> strcasecmp_eq (dv_mac (g ! j)) (dv_mac e)" if "j < length g" "dv_active (g ! j)" for j
    using assms(3) that by (auto simp: find_device_def find_index_None dev_hit_def)
  then have "\<not> strcasecmp_eq (dv_mac e) (dv_mac (g ! j))" if "j < length g" "dv_active (g ! j)" for j
    using that strcasecmp_eq_equiv(2) by blast
  with ne assms show ?thesis
    by (cases "i < length g") (auto simp: devs_inv_def nth_list_update intro!: list_all_update split: if_splits)
qed

lemma oldest_dev_min:
  assumes "length g = MAX_DEVICES" and "list_all dv_active g"
  shows "oldest_dev g < length g \<and> (\<forall>j < length g. dv_last_seen (g ! oldest_dev g) \<le> dv_last_seen (g ! j))"
proof -
  let ?f = "\<lambda>i old. if dv_active (g ! i) \<and> dv_last_seen (g ! i) < dv_last_seen (g ! old) then i else old"
  have a: "dv_active (g ! i)" if "i < length g" for i using assms(2) that by (simp add: list_all_length)
  have "n < length g \<Longrightarrow> fold ?f [1..<Suc n] 0 \<le> n \<and> (\<forall>j \<le> n. dv_last_seen (g ! fold ?f [1..<Suc n] 0) \<le> dv_last_seen (g ! j))" for n
  proof (induction n)
    case (Suc n)
    then have ih: "fold ?f [1..<Suc n] 0 \<le> n" "\<forall>j \<le> n. dv_last_seen (g ! fold ?f [1..<Suc n] 0) \<le> dv_last_seen (g ! j)" by auto
    have "fold ?f [1..<Suc (Suc n)] 0 = ?f (Suc n) (fold ?f [1..<Suc n] 0)" by simp
    with ih a[OF Suc.prems] show ?case by (auto simp: le_Suc_eq split: if_splits)
  qed simp
  from this[of "MAX_DEVICES - 1"] show ?thesis
    using assms(1) by (auto simp: oldest_dev_def MAX_DEVICES_def less_eq_Suc_le)
qed

section \<open>What seeing a neighbour does\<close>

lemma new_device_ok:
  assumes "dev_ok d" and "length mac < MAC_STR_LEN"
  shows "dev_ok (new_device io mac d) \<and> dv_mac (new_device io mac d) = mac"
proof -
  obtain hn src where r: "hnc_resolve_hostname_fast mac (io_names io) HN_LEN HN_SRC_LEN = (hn, src)" by (rule prod.exhaust)
  with resolve_fast_fits[OF r] assms show ?thesis by (simp add: new_device_def mark_pending_def dev_ok_def device_lens Let_def)
qed

lemma re_resolve_ok:
  assumes "dev_ok d" and "re_resolve io mac ip ov (d, cache, wk) = (d', cache', wk')"
  shows "dev_ok d' \<and> dv_mac d' = dv_mac d"
proof -
  obtain hn src c1 where r: "resolve_hostname_dhcp_only io ov cache mac HN_LEN HN_SRC_LEN = (hn, src, c1)" by (rule prod_cases3)
  note f = dhcp_only_fits[OF r]
  have l: "length hn < 64 \<and> length src < 12" using f by (simp add: device_lens)
  show ?thesis using assms r l
    by (auto simp: re_resolve_def mark_pending_def dev_ok_def device_lens Let_def split: prod.splits if_splits)
qed

text \<open>The slot that is written, and why it is that one.\<close>

definition slot_for :: "string \<Rightarrow> Device list \<Rightarrow> nat \<Rightarrow> bool" where
  "slot_for mac g i \<longleftrightarrow> i < length g \<and>
     (case find_device mac g of
        Some j \<Rightarrow> i = j
      | None \<Rightarrow> \<not> dv_active (g ! i) \<or> (list_all dv_active g \<and> i = oldest_dev g))"

lemma alloc_device_slot:
  assumes "length g = MAX_DEVICES" and "alloc_device g = (i, g')"
  shows "i < length g \<and> g' = (if list_all dv_active g then g[i := dev_zero] else g) \<and> (\<not> dv_active (g ! i) \<or> (list_all dv_active g \<and> i = oldest_dev g))"
proof (cases "find_index (\<lambda>d. \<not> dv_active d) g")
  case None
  then have "list_all dv_active g" by (simp add: find_index_None list_all_iff)
  with None assms oldest_dev_min[OF assms(1)] show ?thesis by (simp add: alloc_device_def Let_def) auto
next
  case (Some j)
  from find_index_Some[OF Some] have "j < length g" "\<not> dv_active (g ! j)" by auto
  then have "\<not> list_all dv_active g" by (auto simp: list_all_length)
  with Some assms(2) \<open>j < length g\<close> \<open>\<not> dv_active (g ! j)\<close> show ?thesis by (simp add: alloc_device_def)
qed

lemma device_seen_slot:
  assumes "devs_inv (g_devs t)" and "length mac < MAC_STR_LEN"
  shows "\<exists>i d. g_devs (device_seen io mac ip iface nud t) = (g_devs t)[i := d] \<and> slot_for mac (g_devs t) i \<and> dev_ok d \<and> dv_active d \<and>
     dv_mac d = (if find_device mac (g_devs t) = None then mac else dv_mac (g_devs t ! i)) \<and>
     dv_ip d = cbuf IP_STR_LEN ip \<and> dv_iface d = cbuf IF_LEN iface \<and> dv_last_seen d = io_now io \<and> dv_state d = nud"
proof -
  have len: "length (g_devs t) = MAX_DEVICES" using assms(1) by (simp add: devs_inv_def)
  obtain i e t1 where s: "seen_entry io mac ip t = (i, e, t1)" by (rule prod_cases3)
  define d where "d = e\<lparr>dv_ip := cbuf IP_STR_LEN ip, dv_iface := cbuf IF_LEN iface, dv_last_seen := io_now io, dv_active := True, dv_state := nud\<rparr>"
  have "slot_for mac (g_devs t) i \<and> (g_devs t1)[i := d] = (g_devs t)[i := d] \<and> dev_ok e \<and>
     dv_mac e = (if find_device mac (g_devs t) = None then mac else dv_mac (g_devs t ! i))"
  proof (cases "find_device mac (g_devs t)")
    case None
    obtain j g' where a: "alloc_device (g_devs t) = (j, g')" by (rule prod.exhaust)
    note al = alloc_device_slot[OF len a]
    have "dev_ok (g' ! j)" using al devs_inv_nth[OF assms(1)] dev_ok_zero by auto
    from new_device_ok[OF this assms(2), of io] None al a s show ?thesis by (auto simp: seen_entry_def slot_for_def)
  next
    case (Some j)
    from find_index_Some[OF Some[unfolded find_device_def]] have j: "j < length (g_devs t)" by simp
    note ok = devs_inv_nth[OF assms(1) j]
    obtain d' c' w' where r: "re_resolve io mac ip (dt_ov t) (g_devs t ! j, dt_cache t, dt_worker t) = (d', c', w')" by (rule prod_cases3)
    from re_resolve_ok[OF ok r] ok r j Some s show ?thesis by (auto simp: seen_entry_def slot_for_def Let_def split: if_splits)
  qed
  moreover have "g_devs (device_seen io mac ip iface nud t) = (g_devs t1)[i := d]" by (simp add: device_seen_def s d_def)
  moreover have "dev_ok e \<Longrightarrow> dev_ok d" by (simp add: d_def dev_ok_def device_lens min_less_iff_disj)
  ultimately show ?thesis by (intro exI[of _ i] exI[of _ d]) (simp add: d_def)
qed

lemma device_seen_inv [inv_intros]:
  assumes "devs_inv (g_devs t)" and "length mac < MAC_STR_LEN"
  shows "devs_inv (g_devs (device_seen io mac ip iface nud t))"
proof -
  from device_seen_slot[OF assms, of io ip iface nud] obtain i d where i: "g_devs (device_seen io mac ip iface nud t) = (g_devs t)[i := d]"
    "slot_for mac (g_devs t) i" "dev_ok d" "dv_mac d = (if find_device mac (g_devs t) = None then mac else dv_mac (g_devs t ! i))" by blast
  show ?thesis
  proof (cases "find_device mac (g_devs t)")
    case None
    with i devs_inv_new[OF assms(1) i(3)] show ?thesis by simp
  next
    case (Some j)
    then have "i = j" "dv_active (g_devs t ! j)"
      using i(2) find_index_Some[OF Some[unfolded find_device_def]] by (auto simp: slot_for_def dev_hit_def)
    with i Some devs_inv_same[OF assms(1) i(3)] show ?thesis by simp
  qed
qed

lemma scan_fields_sizes:
  "scan_fields ns s = Some ws \<Longrightarrow> length ws = length ns \<and> (\<forall>j < length ns. length (ws ! j) \<le> ns ! j)"
proof (induction ns s arbitrary: ws rule: scan_fields.induct)
  case (2 n ns s)
  then obtain w r vs where w: "scan_s n s = Some (w, r)" "scan_fields ns r = Some vs" "ws = w # vs" by (auto split: option.splits)
  from "2.IH"[OF w(1) refl w(2)] scan_s_length[OF w(1)] w(3) show ?case by (auto simp: nth_Cons split: nat.split)
qed simp

lemma arp_line_sizes: "arp_line line = Some (ip, mac, iface) \<Longrightarrow> length mac < MAC_STR_LEN"
proof -
  assume a: "arp_line line = Some (ip, mac, iface)"
  then obtain hw flags m msk where f: "scan_fields [15, 7, 7, 17, 7, 15] line = Some [ip, hw, flags, m, msk, iface]" "mac = map c_tolower m"
    by (auto simp: arp_line_def split: option.splits list.splits if_splits)
  from scan_fields_sizes[OF f(1)] have "\<forall>j < length [15, 7, 7, 17, 7, 15 :: nat]. length ([ip, hw, flags, m, msk, iface] ! j) \<le> [15, 7, 7, 17, 7, 15] ! j"
    by blast
  from this[rule_format, of 3] show ?thesis using f(2) by (simp add: MAC_STR_LEN_def)
qed

lemma scan_line_inv: "devs_inv (g_devs (fst st)) \<Longrightarrow> devs_inv (g_devs (fst (scan_line io line st)))"
  by (cases st) (auto simp: scan_line_def dest: arp_line_sizes intro: device_seen_inv split: option.splits)

lemma scan_arp_inv [inv_intros]: "devs_inv (g_devs t) \<Longrightarrow> devs_inv (g_devs (fst (scan_arp_lines io arp t)))"
proof -
  have "devs_inv (g_devs (fst st)) \<Longrightarrow> devs_inv (g_devs (fst (fold (scan_line io) ls st)))" for ls st
    by (induction ls arbitrary: st) (simp_all add: scan_line_inv del: split_paired_All)
  from this[of "(t, 0)"] show "devs_inv (g_devs t) \<Longrightarrow> ?thesis"
    by (auto simp: scan_arp_lines_def split: option.splits list.splits)
qed

lemma nl_attrs_sizes: "length (snd p) < MAC_STR_LEN \<Longrightarrow> length (snd (fold nl_attr as p)) < MAC_STR_LEN"
  by (induction "as" arbitrary: p) (auto simp: nl_attr_def MAC_STR_LEN_def min_less_iff_disj split: prod.splits)

lemma nl_message_inv [inv_intros]:
  assumes "devs_inv (g_devs t)"
  shows "devs_inv (g_devs (snd (nl_message io ifname m t)))"
proof -
  obtain ip mac where f: "fold nl_attr (nl_attrs m) ([], []) = (ip, mac)" by (rule prod.exhaust)
  have l: "length mac < MAC_STR_LEN" using nl_attrs_sizes[of "([], [])" "nl_attrs m"] f by (simp add: MAC_STR_LEN_def)
  have d: "devs_inv ((g_devs t)[i := (g_devs t ! i)\<lparr>dv_active := False\<rparr>])" if "find_device mac (g_devs t) = Some i" for i
  proof -
    have "i < length (g_devs t)" using find_index_Some that by (fastforce simp: find_device_def)
    then have "dev_ok ((g_devs t ! i)\<lparr>dv_active := False\<rparr>)" using devs_inv_nth[OF assms] by (simp add: dev_ok_def)
    then show ?thesis using devs_inv_same[OF assms] by simp
  qed
  show ?thesis using assms d device_seen_inv[OF assms l] by (simp add: nl_message_def f Let_def split: option.split)
qed

section \<open>Properties\<close>

text \<open>The table as a finite map from addresses to entries.\<close>

definition dev_map :: "Device list \<Rightarrow> string \<Rightarrow> Device option" where
  "dev_map g mac = find (dev_hit mac) g"

lemma dev_hit_sym: "strcasecmp_eq a b \<Longrightarrow> dev_hit a d = dev_hit b d"
  unfolding dev_hit_def strcasecmp_eq_def by simp

lemma dev_map_overwritten:
  assumes "devs_inv g" and "i < length g" and "dev_hit mac (g ! i)" and "\<not> dev_hit mac d"
  shows "dev_map (g[i := d]) mac = None"
proof -
  have u: "a = b" if "a < length g" "b < length g" "dv_active (g ! a)" "dv_active (g ! b)" "strcasecmp_eq (dv_mac (g ! a)) (dv_mac (g ! b))" for a b
    using assms(1) that by (simp add: devs_inv_def)
  have "\<not> dev_hit mac (g[i := d] ! j)" if j: "j < length g" for j
    using assms(2-4) u[OF j assms(2)] by (cases "j = i") (auto simp: dev_hit_def strcasecmp_eq_def)
  then show ?thesis by (auto simp: dev_map_def find_None_iff in_set_conv_nth)
qed

lemma dev_map_find: "dev_map g x = map_option (\<lambda>i. g ! i) (find_device x g)"
  by (simp add: dev_map_def find_device_def find_index_find)

text \<open>An entry stored in the slot chosen for its address, seen as an update of the map.\<close>

lemma slot_update_hit:
  assumes "slot_for mac g i" and "dev_hit mac d"
  shows "dev_map (g[i := d]) mac = Some d"
proof (cases "find_device mac g")
  case None
  have "i < length g" using assms(1) by (simp add: slot_for_def)
  then show ?thesis using find_update_fresh[of "dev_hit mac" g i d] None assms(2) dev_map_find[of g mac] by (simp add: dev_map_def)
next
  case (Some j)
  then have "i = j" using assms(1) by (simp add: slot_for_def)
  then show ?thesis using find_update_hit[of "dev_hit mac" g i d] Some assms(2) by (simp add: dev_map_def find_device_def)
qed

lemma slot_update_other:
  assumes "devs_inv g" and sl: "slot_for mac g i" and "strcasecmp_eq (dv_mac d) mac" and ne: "\<not> strcasecmp_eq mac mac'"
  shows "dev_map (g[i := d]) mac' =
    (if dev_map g mac = None \<and> list_all dv_active g \<and> dev_hit mac' (g ! oldest_dev g) then None else dev_map g mac')"
proof -
  have i: "i < length g" using sl by (simp add: slot_for_def)
  have nd: "\<not> dev_hit mac' d" using assms(3,4) by (auto simp: dev_hit_def strcasecmp_eq_def)
  show ?thesis
  proof (cases "dev_hit mac' (g ! i)")
    case False
    have "\<not> (dev_map g mac = None \<and> list_all dv_active g \<and> dev_hit mac' (g ! oldest_dev g))"
      using sl dev_map_find[of g mac] i False by (auto simp: slot_for_def list_all_length split: option.splits)
    then show ?thesis using find_update_other[OF i False nd] by (auto simp: dev_map_def)
  next
    case True
    then have act: "dv_active (g ! i)" by (simp add: dev_hit_def)
    have none: "find_device mac g = None"
    proof (rule ccontr)
      assume "find_device mac g \<noteq> None"
      then have "dev_hit mac (g ! i)" using sl find_index_Some by (fastforce simp: slot_for_def find_device_def)
      with True ne show False by (auto simp: dev_hit_def strcasecmp_eq_def)
    qed
    then have old: "list_all dv_active g" "i = oldest_dev g" using sl act by (auto simp: slot_for_def)
    have "dev_map (g[i := d]) mac' = None" using dev_map_overwritten[OF assms(1) i True nd] .
    then show ?thesis using none dev_map_find[of g mac] old True by simp
  qed
qed

text \<open>
  C5: Seeing a neighbour refines an insertion into a finite map keyed by the address up to
  case: afterwards the address maps to an active entry with the new IP, interface, time and
  state, under its old spelling if it was known; every other address maps to what it did
  before, except that a new address in a full table evicts the least recently seen device;
  and the table keeps its 128 slots, its field bounds and one slot per address.
\<close>

theorem device_seen_refines_map:
  assumes "devs_inv (g_devs t)" and "length mac < 18"
  shows "devs_inv (g_devs (device_seen io mac ip iface nud t)) \<and>
    (\<exists>d. dev_map (g_devs (device_seen io mac ip iface nud t)) mac = Some d \<and> dv_ip d = take 15 ip \<and> dv_iface d = take 15 iface \<and>
       dv_last_seen d = io_now io \<and> dv_state d = nud \<and> dv_mac d = (case dev_map (g_devs t) mac of None \<Rightarrow> mac | Some d0 \<Rightarrow> dv_mac d0)) \<and>
    (\<forall>mac'. \<not> strcasecmp_eq mac mac' \<longrightarrow>
       dev_map (g_devs (device_seen io mac ip iface nud t)) mac' =
         (if dev_map (g_devs t) mac = None \<and> list_all dv_active (g_devs t) \<and> dev_hit mac' (g_devs t ! oldest_dev (g_devs t)) then None
          else dev_map (g_devs t) mac')) \<and>
    (list_all dv_active (g_devs t) \<longrightarrow> (\<forall>j < 128. dv_last_seen (g_devs t ! oldest_dev (g_devs t)) \<le> dv_last_seen (g_devs t ! j)))"
proof -
  let ?g = "g_devs t"
  have l: "length mac < MAC_STR_LEN" using assms(2) by (simp add: MAC_STR_LEN_def)
  have len: "length ?g = MAX_DEVICES" using assms(1) by (simp add: devs_inv_def)
  from device_seen_slot[OF assms(1) l, of io ip iface nud] obtain i d where
    g': "g_devs (device_seen io mac ip iface nud t) = ?g[i := d]" and sl: "slot_for mac ?g i" and a: "dv_active d"
    and m: "dv_mac d = (if find_device mac ?g = None then mac else dv_mac (?g ! i))"
    and f: "dv_ip d = cbuf IP_STR_LEN ip" "dv_iface d = cbuf IF_LEN iface" "dv_last_seen d = io_now io" "dv_state d = nud" by blast
  have mm: "strcasecmp_eq (dv_mac d) mac"
  proof (cases "find_device mac ?g")
    case None
    then show ?thesis using m strcasecmp_eq_equiv(1) by simp
  next
    case (Some j)
    then show ?thesis using m sl find_index_Some[OF Some[unfolded find_device_def]] by (auto simp: slot_for_def dev_hit_def)
  qed
  have same: "dev_map (?g[i := d]) mac = Some d" using slot_update_hit[OF sl] a mm by (simp add: dev_hit_def)
  have macd: "dv_mac d = (case dev_map ?g mac of None \<Rightarrow> mac | Some d0 \<Rightarrow> dv_mac d0)"
    using m sl dev_map_find[of ?g mac] by (auto simp: slot_for_def split: option.splits)
  have "list_all dv_active ?g \<longrightarrow> (\<forall>j < 128. dv_last_seen (?g ! oldest_dev ?g) \<le> dv_last_seen (?g ! j))"
    using oldest_dev_min[OF len] len by (simp add: MAX_DEVICES_def)
  with same macd slot_update_other[OF assms(1) sl mm] f g' device_seen_inv[OF assms(1) l, of io ip iface nud] show ?thesis
    by (simp add: cbuf_def IP_STR_LEN_def IF_LEN_def)
qed

definition dtab0 :: dtab where
  "dtab0 = \<lparr>g_devs = replicate MAX_DEVICES dev_zero, dt_cache = hnc_cache_init None, dt_ov = hnc_override_init None, dt_worker = worker_init\<rparr>"

definition quiet_io :: io_env where
  "quiet_io = \<lparr>io_now = 1000, io_names = None, io_dumpsys = None\<rparr>"

lemma dtab0_inv: "devs_inv (g_devs dtab0)"
  by (auto simp: dtab0_def devs_inv_def list_all_iff dev_ok_zero) (simp add: dev_zero_def)

theorem device_seen_refines_map_witness:
  "\<exists>d. dev_map (g_devs (device_seen quiet_io ''aa:bb:cc:00:11:22'' ''10.0.0.2'' ''wlan2'' 4 dtab0)) ''aa:bb:cc:00:11:22'' = Some d \<and>
     dv_ip d = ''10.0.0.2'' \<and> dv_last_seen d = 1000"
  using device_seen_refines_map[OF dtab0_inv, of "''aa:bb:cc:00:11:22''" quiet_io "''10.0.0.2''" "''wlan2''" 4]
  by (auto simp: quiet_io_def)

lemma resolve_tail_src:
  "resolve_tail ov cache mac n m = (hn, src) \<Longrightarrow> 11 < m \<Longrightarrow> src \<noteq> ''manual'' \<and> src \<noteq> ''dhcp''"
proof -
  assume r: "resolve_tail ov cache mac n m = (hn, src)" and m: "11 < m"
  then obtain k where k: "m = Suc (Suc k)" "9 < k" by (cases m; cases "m - 1") auto
  have "cbuf m ''oui'' = ''oui''" "cbuf m ''mac'' = ''mac''" using m by simp_all
  moreover have "cbuf m (''cache-'' @ c) = CHR ''c'' # take k (''ache-'' @ c)" for c by (simp add: cbuf_def k)
  ultimately show ?thesis using r by (auto simp: resolve_tail_def split: option.splits prod.splits)
qed

text \<open>
  The two name chains agree: the complete chain gives what the chain without mDNS gives
  when that is a manual or DHCP name (mDNS is not asked then), and otherwise the mDNS name if
  there is an address and an answer, and else again what the chain without mDNS gives; so the
  order is manual, DHCP, mDNS, cache, vendor, address, and only DHCP and mDNS names enter the
  cache.
\<close>

lemma resolve_chains_agree:
  assumes "11 < src_len"
  shows "resolve_hostname io mdns ov cache mac ip hn_len src_len =
    (case resolve_hostname_dhcp_only io ov cache mac hn_len src_len of (hn, src, cache') \<Rightarrow>
       if src = ''manual'' \<or> src = ''dhcp'' then (hn, src, cache')
       else case (if ip = [] then None else mdns ip) of
         Some name \<Rightarrow> (name, ''mdns'', fst (hnc_cache_update cache (io_now io) mac name ''mdns''))
       | None \<Rightarrow> (hn, src, cache))"
proof -
  have c: "cbuf src_len ''manual'' = ''manual''" "cbuf src_len ''dhcp'' = ''dhcp''" "cbuf src_len ''mdns'' = ''mdns''" using assms by simp_all
  obtain hn src where t: "resolve_tail ov cache mac hn_len src_len = (hn, src)" by (rule prod.exhaust)
  obtain b w where l: "hnc_lookup_manual_name mac (io_names io) hn_len = (b, w)" by (rule prod.exhaust)
  note src = resolve_tail_src[OF t assms]
  show ?thesis
    by (cases b; cases w; cases "try_ns_dhcp_resolve (io_dumpsys io) mac hn_len")
       (use c t l src in \<open>simp_all add: resolve_hostname_def resolve_hostname_dhcp_only_def split: option.splits\<close>)
qed

lemma resolve_chains_agree_witness:
  "resolve_hostname quiet_io (\<lambda>_. Some ''printer'') (dt_ov dtab0) (dt_cache dtab0) ''02:bb:cc:00:11:22'' ''10.0.0.2'' 64 12 =
   (''printer'', ''mdns'', fst (hnc_cache_update (dt_cache dtab0) 1000 ''02:bb:cc:00:11:22'' ''printer'' ''mdns''))"
proof -
  obtain hn src where t: "resolve_tail (dt_ov dtab0) (dt_cache dtab0) ''02:bb:cc:00:11:22'' 64 12 = (hn, src)" by (rule prod.exhaust)
  have "resolve_hostname_dhcp_only quiet_io (dt_ov dtab0) (dt_cache dtab0) ''02:bb:cc:00:11:22'' 64 12 = (hn, src, dt_cache dtab0)"
    using t by (simp add: resolve_hostname_dhcp_only_def quiet_io_def hnc_lookup_manual_name_def try_ns_dhcp_resolve_def)
  with resolve_chains_agree[of 12 quiet_io "\<lambda>_. Some ''printer''" "dt_ov dtab0" "dt_cache dtab0" "''02:bb:cc:00:11:22''" "''10.0.0.2''" 64]
    resolve_tail_src[OF t] show ?thesis by (simp add: quiet_io_def)
qed

text \<open>
  A host name that spells another device's address is taken for that device's name, whatever
  the hardware address of the line is: the scan only asks that the address occurs somewhere in
  the line.
\<close>

lemma strcasestr_append: "strcasestr m (u @ m @ v)"
proof (induction u)
  case Nil
  show ?case by (cases m; cases v) (auto simp: ci_prefix_def prefix_def)
qed simp

lemma dhcp_name_spoofed:
  assumes "dhcp_mac_ok mac" and "0 < outlen" and "length line < 32 * 1024" and "nulfree line" and "LF \<notin> set line"
    and "line = u @ ''hostname: '' @ mac" and "strstr ''hostname: '' line = Some (''hostname: '' @ mac)"
  shows "try_ns_dhcp_resolve (Some line) mac outlen = Some (cbuf outlen mac)"
proof -
  have m: "length mac = 17" "\<forall>c \<in> set mac. c_isxdigit c \<or> c = CHR '':''" using assms(1) by (auto simp: dhcp_mac_ok_def list_all_iff)
  have nx: "\<not> c_isxdigit CR" "\<not> c_isxdigit (CHR '','')" "\<not> c_isxdigit (CHR '' '')" "\<not> c_isxdigit TAB"
    by (simp_all add: c_isxdigit_def c_isdigit_def)
  have tw: "takeWhile (\<lambda>c. c \<noteq> CR \<and> c \<noteq> CHR '','') mac = mac" using m nx by (auto simp: takeWhile_eq_all_conv)
  have rs: "rstrip (\<lambda>c. c = CHR '' '' \<or> c = TAB) mac = mac"
  proof -
    have "hd (rev mac) \<in> set mac" using m(1) by (metis hd_in_set length_0_conv list.size(3) rev_is_Nil_conv set_rev zero_neq_numeral)
    then have "\<not> (hd (rev mac) = CHR '' '' \<or> hd (rev mac) = TAB)" using m nx by auto
    then show ?thesis using m(1) by (cases "rev mac") (auto simp: rstrip_def)
  qed
  have "strcasestr mac line" using strcasestr_append[of mac "u @ ''hostname: ''" "[]"] assms(6) by simp
  moreover have "drop 10 (''hostname: '' @ mac) = mac" "take 63 mac = mac" "mac \<noteq> []" using m(1) by auto
  ultimately have dl: "dhcp_line mac line = Some mac" unfolding dhcp_line_def assms(7) HN_LEN_def by (simp add: Let_def tw rs)
  have "split_lf l = [l]" if "LF \<notin> set l" for l using that by (induction l) auto
  then have "strtok_lines line = [line]" using assms(5,6) by (auto simp: strtok_lines_def)
  then have "dhcp_latest mac (strtok_lines line) = mac" using dl by (simp add: dhcp_latest_def)
  moreover have "cstr (take (32 * 1024 - 1) line) = line" using assms(3,4) by simp
  moreover have "mac \<noteq> []" using m(1) by auto
  ultimately show ?thesis using assms(1,2) by (simp add: try_ns_dhcp_resolve_def Let_def del: mult_numeral_1_right)
qed

end
