(* ===== verification/Hotspotd.thy ===== *)
theory Hotspotd
  imports DeviceTable Scheduler
begin

text \<open>
  The main program of the daemon, \<^verbatim>\<open>daemon/hotspotd/hotspotd.c\<close>: traffic counters, the JSON file of
  devices, deferred host names, the results of the mDNS worker, expiry of silent devices, the
  delayed write, netlink, the control socket, the PID file, start-up and shutdown.  File
  contents, child output, received data and the outcomes of system calls are in the record
  \<open>tick_env\<close>; the clock stands still within one round of the main loop.
\<close>

text \<open>
  \<open>json_damaged\<close> is an auxiliary variable that the program does not have and nothing reads: whether the last \<^verbatim>\<open>devices.json\<close> that was put in place lacks bytes
  that the file system did not take.
\<close>

record 'w daemon =
  d_tab :: dtab
  g_ndev :: nat
  g_last_write :: time_t
  g_last_event :: time_t
  g_dirty :: bool
  g_need_scan :: bool
  g_running :: bool
  g_last_stats_update :: time_t
  dirty_since :: time_t
  last_offline_check :: time_t
  d_sched :: "'w sched_sys"
  devices_json :: "string option"
  json_damaged :: bool

record tick_env =
  te_io :: io_env
  te_arp :: "string option"
  te_rules :: "string option"
  te_stats_exec :: bool
  te_stats :: "string option"
  te_tmp_ok :: bool
  te_disk :: "string option"
  te_rename_ok :: bool
  te_cache_ok :: "bool \<times> bool \<times> bool"

abbreviation te_now :: "tick_env \<Rightarrow> time_t" where "te_now e \<equiv> io_now (te_io e)"
abbreviation upd_devs :: "(Device list \<Rightarrow> Device list) \<Rightarrow> 'w daemon \<Rightarrow> 'w daemon" where
  "upd_devs f st \<equiv> st\<lparr>d_tab := (d_tab st)\<lparr>g_devs := f (g_devs (d_tab st))\<rparr>\<rparr>"

section \<open>Traffic counters\<close>

definition stats_line :: "string \<Rightarrow> Device list \<Rightarrow> Device list" where
  "stats_line line devs =
     (case scan_s (IP_STR_LEN - 1) line of
        None \<Rightarrow> devs
      | Some (ip, r1) \<Rightarrow>
          (case scan_ld r1 of
             None \<Rightarrow> devs
           | Some (rx, r2) \<Rightarrow>
               (case scan_ld r2 of
                  None \<Rightarrow> devs
                | Some (tx, _) \<Rightarrow>
                    (case find_index (\<lambda>d. dv_active d \<and> dv_ip d = ip) devs of
                       None \<Rightarrow> devs
                     | Some i \<Rightarrow> devs[i := (devs ! i)\<lparr>dv_rx_bytes := rx, dv_tx_bytes := tx\<rparr>]))))"

definition update_traffic_stats :: "tick_env \<Rightarrow> 'w daemon \<Rightarrow> 'w daemon" where
  "update_traffic_stats env st =
     (if \<not> te_stats_exec env then st
      else if te_now env - g_last_stats_update st < 5 then st
      else let st1 = st\<lparr>g_last_stats_update := te_now env\<rparr>
           in case te_stats env of
                None \<Rightarrow> st1
              | Some output \<Rightarrow> upd_devs (fold stats_line (fgets_lines 126 output)) st1)"

section \<open>The JSON file\<close>

definition mac_like :: "string \<Rightarrow> bool" where
  "mac_like p \<longleftrightarrow> 17 \<le> length p \<and> p ! 2 = CHR '':'' \<and> p ! 5 = CHR '':'' \<and> p ! 8 = CHR '':'' \<and> p ! 11 = CHR '':'' \<and> p ! 14 = CHR '':''"

function blacklist_loop :: "string \<Rightarrow> string list \<Rightarrow> string list" where
  "blacklist_loop p acc =
     (case strchr DQ p of
        None \<Rightarrow> acc
      | Some q \<Rightarrow> blacklist_loop (tl q) (if mac_like (tl q) \<and> length acc < MAX_DEVICES then acc @ [take 17 (tl q)] else acc))"
  by pat_completeness auto
termination
proof (relation "measure (\<lambda>(p, acc). length p)")
  fix p q :: string and acc :: "string list" assume q: "strchr DQ p = Some q"
  obtain u where "q = DQ # u" using strchr_Some_Cons[OF q] by auto
  then show "((tl q, if mac_like (tl q) \<and> length acc < MAX_DEVICES then acc @ [take 17 (tl q)] else acc), p, acc) \<in> measure (\<lambda>(p, acc). length p)"
    using strchr_length[OF q] by simp
qed simp

declare blacklist_loop.simps [simp del]

definition read_blacklist :: "string option \<Rightarrow> string list" where
  "read_blacklist rules =
     (case rules of
        None \<Rightarrow> []
      | Some content \<Rightarrow>
          if content = [] \<or> length content > 1024 * 1024 then []
          else case strstr (DQ # ''blacklist'' @ [DQ]) (cstr content) of
            None \<Rightarrow> []
          | Some bl_start \<Rightarrow> blacklist_loop (takeWhile (\<lambda>c. c \<noteq> CHR '']'') bl_start) [])"

definition device_json :: "string list \<Rightarrow> Device \<Rightarrow> string" where
  "device_json blacklist d =
     (let status = (if dv_mac d \<in> set blacklist then ''blocked'' else ''allowed'');
          hn_src = (if dv_hostname_src d \<noteq> [] then dv_hostname_src d else ''mac'');
          hn_escaped = (case hnc_json_escape (dv_hostname d) (HN_LEN * 6 + 4) of Some e \<Rightarrow> e | None \<Rightarrow> [])
      in qkey (dv_mac d) @ ''{'' @ qkey ''ip'' @ qstr (dv_ip d) @ '','' @ qkey ''mac'' @ qstr (dv_mac d) @ '','' @
         qkey ''hostname'' @ qstr hn_escaped @ '','' @ qkey ''hostname_src'' @ qstr hn_src @ '','' @
         qkey ''iface'' @ qstr (dv_iface d) @ '','' @ qkey ''rx_bytes'' @ dec_int (dv_rx_bytes d) @ '','' @
         qkey ''tx_bytes'' @ dec_int (dv_tx_bytes d) @ '','' @ qkey ''status'' @ qstr status @ '','' @
         qkey ''last_seen'' @ dec_int (dv_last_seen d) @ ''}'')"

fun devices_loop :: "string list \<Rightarrow> bool \<Rightarrow> Device list \<Rightarrow> string" where
  "devices_loop bl first [] = []"
| "devices_loop bl first (d # ds) =
     (if \<not> dv_active d then devices_loop bl first ds
      else (if first then [] else '','') @ device_json bl d @ devices_loop bl False ds)"

text \<open>
  The results of \<^verbatim>\<open>fprintf\<close>, \<^verbatim>\<open>fflush\<close> and \<^verbatim>\<open>fclose\<close> are not looked at: \<open>te_disk\<close> is \<^const>\<open>None\<close> when the temporary file got all the bytes, else what it
  has instead (a beginning of the text, when the disk is full); either way it is renamed and the write counts as done.
\<close>

definition write_json :: "tick_env \<Rightarrow> 'w daemon \<Rightarrow> 'w daemon" where
  "write_json env st =
     (let st1 = update_traffic_stats env st;
          devs = g_devs (d_tab st1)
      in if \<not> te_tmp_ok env then st1
         else if \<not> te_rename_ok env then st1
         else st1\<lparr>devices_json := Some (case te_disk env of None \<Rightarrow> ''{'' @ devices_loop (read_blacklist (te_rules env)) True devs @ ''}'' | Some t \<Rightarrow> t),
                  json_damaged := (te_disk env \<noteq> None),
                  g_ndev := count_active devs, g_last_write := te_now env, g_dirty := False\<rparr>)"

section \<open>Scan and deferred names\<close>

definition scan_arp :: "tick_env \<Rightarrow> 'w daemon \<Rightarrow> 'w daemon" where
  "scan_arp env st =
     (case scan_arp_lines (te_io env) (te_arp env) (d_tab st) of (t, updated) \<Rightarrow>
        if updated > 0 then write_json env (st\<lparr>d_tab := t, g_dirty := True\<rparr>) else st\<lparr>d_tab := t\<rparr>)"

text \<open>The active device that has been ready longest, the first one among equals.\<close>

definition pick_pending :: "time_t \<Rightarrow> Device list \<Rightarrow> nat option" where
  "pick_pending now devs =
     fold (\<lambda>i old. if \<not> dv_active (devs ! i) \<or> \<not> hnc_pending_ready (dv_hostname_src (devs ! i)) (dv_pending_since (devs ! i)) now then old
                    else case old of
                      None \<Rightarrow> Some i
                    | Some o1 \<Rightarrow> if dv_pending_since (devs ! i) < dv_pending_since (devs ! o1) then Some i else old)
          [0..<length devs] None"

definition process_pending_mdns :: "io_env \<Rightarrow> 'w daemon \<Rightarrow> 'w daemon" where
  "process_pending_mdns io st =
     (let t = d_tab st in
      case pick_pending (io_now io) (g_devs t) of
        None \<Rightarrow> st
      | Some i \<Rightarrow>
          (let d = g_devs t ! i in
           case resolve_hostname_dhcp_only io (dt_ov t) (dt_cache t) (dv_mac d) HN_LEN 32 of (hn, src, cache') \<Rightarrow>
             st\<lparr>d_tab := t\<lparr>g_devs := (g_devs t)[i := d\<lparr>dv_hostname := cbuf HN_LEN hn, dv_hostname_src := cbuf HN_SRC_LEN src,
                                                   dv_last_resolve := io_now io, dv_pending_since := 0\<rparr>], dt_cache := cache'\<rparr>,
                g_dirty := True, g_last_event := io_now io\<rparr>))"

definition apply_result :: "time_t \<Rightarrow> hnc_mdns_result_t \<Rightarrow> 'w daemon \<Rightarrow> 'w daemon" where
  "apply_result now r st =
     (let t = d_tab st in
      case find_device (mr_mac r) (g_devs t) of
        None \<Rightarrow> st
      | Some i \<Rightarrow>
          (let d = g_devs t ! i in
           if dv_hostname_src d \<noteq> ''pending'' then st
           else if mr_success r
           then (let d' = d\<lparr>dv_hostname := cbuf HN_LEN (mr_hostname r), dv_hostname_src := cbuf HN_SRC_LEN ''mdns''\<rparr>
                 in st\<lparr>d_tab := t\<lparr>g_devs := (g_devs t)[i := d'],
                                  dt_cache := fst (hnc_cache_update (dt_cache t) now (dv_mac d') (dv_hostname d') ''mdns'')\<rparr>,
                       g_dirty := True, g_last_event := now\<rparr>)
           else st\<lparr>d_tab := t\<lparr>g_devs := (g_devs t)[i := d\<lparr>dv_hostname := mac_name (dv_mac d) HN_LEN, dv_hostname_src := cbuf HN_SRC_LEN ''mac''\<rparr>]\<rparr>,
                   g_dirty := True, g_last_event := now\<rparr>))"

definition drain_mdns :: "time_t \<Rightarrow> 'w daemon \<Rightarrow> 'w daemon" where
  "drain_mdns now st =
     (case hnc_mdns_worker_drain_results (int HNC_MDNS_QUEUE_SIZE) (dt_worker (d_tab st)) of (rs, wk) \<Rightarrow>
        fold (apply_result now) rs (st\<lparr>d_tab := (d_tab st)\<lparr>dt_worker := wk\<rparr>\<rparr>))"

section \<open>Expiry and delayed write\<close>

definition OFFLINE_CHECK_INTERVAL :: int where "OFFLINE_CHECK_INTERVAL = 30"
definition OFFLINE_THRESHOLD :: int where "OFFLINE_THRESHOLD = 90"

definition silent :: "time_t \<Rightarrow> Device \<Rightarrow> bool" where
  "silent now d \<longleftrightarrow> dv_active d \<and> now - dv_last_seen d > OFFLINE_THRESHOLD"

definition offline_check :: "time_t \<Rightarrow> 'w daemon \<Rightarrow> 'w daemon" where
  "offline_check now st =
     (if now - last_offline_check st \<ge> OFFLINE_CHECK_INTERVAL
      then let devs = g_devs (d_tab st);
               st1 = upd_devs (map (\<lambda>d. if silent now d then d\<lparr>dv_active := False\<rparr> else d)) st;
               st2 = (if list_ex (silent now) devs then st1\<lparr>g_dirty := True, g_last_event := now\<rparr> else st1)
           in st2\<lparr>last_offline_check := now\<rparr>
      else st)"

definition save_cache :: "tick_env \<Rightarrow> 'w daemon \<Rightarrow> 'w daemon" where
  "save_cache env st =
     (let c = dt_cache (d_tab st) in
      if hnc_cache_is_dirty c
      then st\<lparr>d_tab := (d_tab st)\<lparr>dt_cache := fst (hnc_cache_save c (fst (te_cache_ok env)) (fst (snd (te_cache_ok env))) (snd (snd (te_cache_ok env))))\<rparr>\<rparr>
      else st)"

definition debounce :: "tick_env \<Rightarrow> 'w daemon \<Rightarrow> 'w daemon" where
  "debounce env st =
     (if \<not> g_dirty st then st
      else let now = te_now env;
               st1 = (if dirty_since st = 0 then st\<lparr>dirty_since := now\<rparr> else st);
               elapsed = c_int (now - dirty_since st1);
               last_event = c_int (now - g_last_event st1)
           in if last_event \<ge> 1 \<or> elapsed \<ge> 30
              then (save_cache env (write_json env st1))\<lparr>dirty_since := 0\<rparr>
              else st1)"

text \<open>One round of the main loop up to the \<^verbatim>\<open>select\<close>.\<close>

definition tick :: "tick_env \<Rightarrow> 'w daemon \<Rightarrow> 'w daemon" where
  "tick env st =
     (let st1 = (if g_need_scan st then scan_arp env (st\<lparr>g_need_scan := False\<rparr>) else st);
          st2 = process_pending_mdns (te_io env) st1;
          st3 = drain_mdns (te_now env) st2;
          st4 = offline_check (te_now env) st3
      in debounce env st4)"

section \<open>Netlink and the control socket\<close>

datatype nl_recv = Nl_data "nl_msg list" | Nl_again | Nl_nobufs | Nl_error | Nl_eof

definition nl_handle :: "io_env \<Rightarrow> (int \<Rightarrow> string) \<Rightarrow> nl_msg \<Rightarrow> 'w daemon \<Rightarrow> 'w daemon" where
  "nl_handle io ifname m st =
     (case nl_message io ifname m (d_tab st) of (event, t) \<Rightarrow>
        (if event then st\<lparr>d_tab := t, g_dirty := True, g_last_event := io_now io\<rparr> else st\<lparr>d_tab := t\<rparr>))"

text \<open>The drain loop on the outcomes of \<^verbatim>\<open>recv\<close>; the socket blocks no longer than they last.\<close>

fun nl_process :: "io_env \<Rightarrow> (int \<Rightarrow> string) \<Rightarrow> nl_recv list \<Rightarrow> 'w daemon \<Rightarrow> 'w daemon" where
  "nl_process io ifname [] st = st"
| "nl_process io ifname (Nl_data ms # rs) st = nl_process io ifname rs (fold (nl_handle io ifname) ms st)"
| "nl_process io ifname (Nl_nobufs # rs) st = st\<lparr>g_need_scan := True\<rparr>"
| "nl_process io ifname (_ # rs) st = st"

definition MIN_REFRESH_INTERVAL :: int where "MIN_REFRESH_INTERVAL = 2"

definition request_text :: "string \<Rightarrow> string" where
  "request_text received = rstrip (\<lambda>c. c = LF \<or> c = CR \<or> c = CHR '' '') (cstr (take 63 received))"

definition ok_err :: "offload_err_t \<Rightarrow> string" where
  "ok_err e = cbuf 64 ((if e = OFFLOAD_OK then ''OK'' else ''ERR'') @ '':'' @ offload_err_str e @ [LF])"

definition cmd_refresh :: "time_t \<Rightarrow> 'w daemon \<Rightarrow> 'w daemon" where
  "cmd_refresh now st =
     (let st1 = st\<lparr>g_need_scan := True\<rparr>
      in if now - g_last_stats_update st1 > MIN_REFRESH_INTERVAL then st1\<lparr>g_last_stats_update := now - MIN_REFRESH_INTERVAL\<rparr> else st1)"

definition notify_args :: "string \<Rightarrow> (string \<times> int) option" where
  "notify_args s =
     (case scan_s 31 s of
        None \<Rightarrow> None
      | Some (mac, r) \<Rightarrow> (case scan_d r of None \<Rightarrow> None | Some (flag, _) \<Rightarrow> if flag = 0 \<or> flag = 1 then Some (mac, flag) else None))"

text \<open>
  What the calls of \<^verbatim>\<open>send\<close> report; at the end of the list the send timeout has passed.  The result
  is the return value and the bytes that went out.
\<close>

datatype send_ret = Sent nat | Send_eintr | Send_error

fun send_all :: "send_ret list \<Rightarrow> string \<Rightarrow> int \<times> string" where
  "send_all rs [] = (0, [])"
| "send_all [] (c # cs) = (- 1, [])"
| "send_all (r # rs) (c # cs) =
     (case r of
        Sent n \<Rightarrow> if n > 0 then (case send_all rs (drop n (c # cs)) of (rc, out) \<Rightarrow> (rc, take n (c # cs) @ out)) else (- 1, [])
      | Send_eintr \<Rightarrow> send_all rs (c # cs)
      | Send_error \<Rightarrow> (- 1, []))"

text \<open>The answer sent to the client, if anything was received.\<close>

definition handle_client :: "time_t \<Rightarrow> int \<Rightarrow> (int \<times> string) option \<Rightarrow> string \<Rightarrow> 'w daemon \<Rightarrow> string option \<times> 'w daemon" where
  "handle_client now pid detect received st =
     (if received = [] then (None, st)
      else let req = request_text received in
        if req = ''GET_DEVICES'' then (Some (case devices_json st of None \<Rightarrow> ''{}'' | Some text \<Rightarrow> text), st)
        else if req = ''REFRESH'' then (Some (''OK:queued'' @ [LF]), cmd_refresh now st)
        else if req = ''STATUS'' then
          (Some (cbuf 128 (''running:1 devices:'' @ dec_nat (g_ndev st) @ '' pid:'' @ dec_int pid @ [LF])), st)
        else if prefix ''OFFLOAD_NOTIFY_LIMIT '' req then
          (case notify_args (drop 21 req) of
             Some (mac, flag) \<Rightarrow>
               (Some (''OK'' @ [LF]), st\<lparr>d_sched := snd (hnc_scheduler_notify_device_limit_changed detect mac (flag = 1) (d_sched st))\<rparr>)
           | None \<Rightarrow> (Some (''ERR:bad args (expect MAC 0|1)'' @ [LF]), st))
        else if req = ''OFFLOAD_REFRESH'' then
          (Some (''OK:queued'' @ [LF]), st\<lparr>d_sched := (d_sched st)\<lparr>sy_sched := hnc_scheduler_request_refresh (sy_sched (d_sched st))\<rparr>\<rparr>)
        else if req = ''OFFLOAD_STATUS'' then
          (case hnc_scheduler_summary_to_json (hnc_scheduler_get_summary (d_sched st)) (sy_lsm (d_sched st)) 2048 of
             Some json \<Rightarrow> (Some (json @ [LF]), st)
           | None \<Rightarrow> (Some (''ERR:summary serialize'' @ [LF]), st))
        else if req = ''OFFLOAD_DISABLE_GLOBAL'' then
          (case hnc_scheduler_force_disable_global (d_sched st) of (e, y) \<Rightarrow> (Some (ok_err e), st\<lparr>d_sched := y\<rparr>))
        else if req = ''OFFLOAD_RESTORE_GLOBAL'' then
          (case hnc_scheduler_force_restore_global (d_sched st) of (e, y) \<Rightarrow> (Some (ok_err e), st\<lparr>d_sched := y\<rparr>))
        else if req = ''QUIT'' then (Some (''BYE'' @ [LF]), st\<lparr>g_running := False\<rparr>)
        else (Some (''ERR:unknown command'' @ [LF]), st))"

section \<open>Signals and the main loop\<close>

definition sig_usr1 :: "'w daemon \<Rightarrow> 'w daemon" where "sig_usr1 st = st\<lparr>g_need_scan := True\<rparr>"
definition sig_term :: "'w daemon \<Rightarrow> 'w daemon" where "sig_term st = st\<lparr>g_running := False\<rparr>"

text \<open>
  What \<^verbatim>\<open>select\<close> returned: interrupted by a signal, failed, timed out, or the sockets that are
  readable: what \<^verbatim>\<open>recv\<close> gives on the netlink socket, and the request of an accepted client.
\<close>

datatype sel_result = Sel_eintr | Sel_error | Sel_timeout | Sel_ready "nl_recv list option" "string option"

record sel_env =
  se_io :: io_env
  se_ifname :: "int \<Rightarrow> string"
  se_detect :: "(int \<times> string) option"
  se_pid :: int

definition select_timeout :: "'w daemon \<Rightarrow> int" where
  "select_timeout st = (if g_dirty st then 1 else 5)"

text \<open>What follows the \<^verbatim>\<open>select\<close>: whether the loop is left by \<^verbatim>\<open>break\<close>, and the state.\<close>

definition serve :: "sel_env \<Rightarrow> sel_result \<Rightarrow> 'w daemon \<Rightarrow> bool \<times> 'w daemon" where
  "serve se r st =
     (case r of
        Sel_eintr \<Rightarrow> (False, st)
      | Sel_error \<Rightarrow> (True, st)
      | Sel_timeout \<Rightarrow> (False, st)
      | Sel_ready nl client \<Rightarrow>
          (let st1 = (case nl of None \<Rightarrow> st | Some rs \<Rightarrow> nl_process (se_io se) (se_ifname se) rs st);
               st2 = (case client of None \<Rightarrow> st1
                      | Some received \<Rightarrow> snd (handle_client (io_now (se_io se)) (se_pid se) (se_detect se) received st1))
           in (False, st2)))"

text \<open>The loop over what happens in its rounds; it ends when it is told to or when the rounds are used up.\<close>

fun main_loop :: "(tick_env \<times> sel_env \<times> sel_result) list \<Rightarrow> 'w daemon \<Rightarrow> 'w daemon" where
  "main_loop [] st = st"
| "main_loop ((env, se, r) # rounds) st =
     (if \<not> g_running st then st
      else case serve se r (tick env st) of (brk, st') \<Rightarrow> if brk then st' else main_loop rounds st')"

section \<open>The PID file\<close>

definition read_pid :: "string \<Rightarrow> int option" where
  "read_pid text = (case scan_d text of Some (v, _) \<Rightarrow> Some v | None \<Rightarrow> None)"

text \<open>
  Whether the daemon may go on, and the file.  \<open>alive\<close> is \<^verbatim>\<open>kill(pid, 0) == 0\<close>; \<open>created\<close> is \<^const>\<open>None\<close> when
  a missing file cannot be created, else the number of bytes that \<^verbatim>\<open>write\<close> takes (0 when it fails): a short write is only logged.
\<close>

definition write_pid :: "(int \<Rightarrow> bool) \<Rightarrow> nat option \<Rightarrow> int \<Rightarrow> string option \<Rightarrow> bool \<times> string option" where
  "write_pid alive created pid pidfile =
     (let create = (case created of Some n \<Rightarrow> (True, Some (take n (dec_int pid @ [LF]))) | None \<Rightarrow> (False, None))
      in case pidfile of
           None \<Rightarrow> create
         | Some text \<Rightarrow>
             (case read_pid text of
                Some old_pid \<Rightarrow> if old_pid > 0 \<and> alive old_pid then (False, pidfile) else create
              | None \<Rightarrow> create))"

definition cleanup_pid :: "int \<Rightarrow> string option \<Rightarrow> string option" where
  "cleanup_pid pid pidfile =
     (case pidfile of
        None \<Rightarrow> None
      | Some text \<Rightarrow> if read_pid text = Some pid then None else pidfile)"

section \<open>Start-up and shutdown\<close>

record boot_env =
  be_cache_file :: "string option"
  be_override_file :: "string option"
  be_mdns_fn :: hnc_mdns_resolve_fn
  be_thread_rc :: int
  be_sched :: sched_env
  be_tick :: tick_env

definition HOSTNAME_CACHE_JSON :: string where "HOSTNAME_CACHE_JSON = ''/data/local/hnc/data/hostname_cache.json''"
definition OUI_OVERRIDE_JSON :: string where "OUI_OVERRIDE_JSON = ''/data/local/hnc/data/oui_overrides.json''"

text \<open>The static variables before anything has happened; \<open>json\<close> is the file of an earlier run.\<close>

definition daemon0 :: "'w sched_sys \<Rightarrow> string option \<Rightarrow> 'w daemon" where
  "daemon0 y json =
     \<lparr>d_tab = \<lparr>g_devs = replicate MAX_DEVICES dev_zero, dt_cache = hnc_cache_init None, dt_ov = hnc_override_init None, dt_worker = worker_init\<rparr>,
      g_ndev = 0, g_last_write = 0, g_last_event = 0, g_dirty = False, g_need_scan = True, g_running = True,
      g_last_stats_update = 0, dirty_since = 0, last_offline_check = 0, d_sched = y, devices_json = json, json_damaged = False\<rparr>"

text \<open>From the opened sockets to the first round of the loop.\<close>

definition hotspotd_boot :: "'w offload_adapter_t list \<Rightarrow> boot_env \<Rightarrow> 'w sched_sys \<Rightarrow> string option \<Rightarrow> 'w daemon" where
  "hotspotd_boot adapters be y json =
     (let cache = fst (hnc_cache_load (hnc_cache_init (Some HOSTNAME_CACHE_JSON)) (be_cache_file be));
          ov = fst (hnc_override_load (hnc_override_init (Some OUI_OVERRIDE_JSON)) (be_override_file be));
          wk = snd (hnc_mdns_worker_start (be_thread_rc be) (hnc_mdns_worker_set_resolve_fn (Some (be_mdns_fn be)) worker_init));
          y1 = snd (snd (hnc_scheduler_init adapters (be_sched be) y));
          st0 = daemon0 y1 json;
          st = scan_arp (be_tick be) (st0\<lparr>d_tab := (d_tab st0)\<lparr>dt_cache := cache, dt_ov := ov, dt_worker := wk\<rparr>\<rparr>)
      in st\<lparr>last_offline_check := te_now (be_tick be)\<rparr>)"

definition hotspotd_cleanup :: "tick_env \<Rightarrow> 'w daemon \<Rightarrow> 'w daemon" where
  "hotspotd_cleanup env st =
     (let st1 = (if g_dirty st then write_json env st else st);
          st2 = save_cache env st1
      in st2\<lparr>d_tab := (d_tab st2)\<lparr>dt_worker := hnc_mdns_worker_stop (dt_worker (d_tab st2))\<rparr>,
             d_sched := hnc_scheduler_shutdown (d_sched st2)\<rparr>)"

text \<open>The options: whether to run in the background, and the log file.\<close>

definition LOG_FILE :: string where "LOG_FILE = ''/data/local/hnc/logs/hotspotd.log''"

fun main_args :: "string list \<Rightarrow> bool \<Rightarrow> string \<Rightarrow> bool \<times> string" where
  "main_args [] daemonize logpath = (daemonize, logpath)"
| "main_args (a # as) daemonize logpath =
     (if a = ''-d'' then main_args as True logpath
      else if a = ''-l'' then (case as of [] \<Rightarrow> (daemonize, logpath) | p # as' \<Rightarrow> main_args as' daemonize p)
      else main_args as daemonize logpath)"

text \<open>
  The whole program: PID file, sockets (\<open>sockets_ok\<close>), start-up, loop and cleanup.  \<^const>\<open>None\<close> is the
  early exit that leaves everything alone.
\<close>

definition hotspotd_main ::
  "(int \<Rightarrow> bool) \<Rightarrow> nat option \<Rightarrow> bool \<Rightarrow> int \<Rightarrow> 'w offload_adapter_t list \<Rightarrow> boot_env \<Rightarrow> (tick_env \<times> sel_env \<times> sel_result) list \<Rightarrow> tick_env \<Rightarrow>
   'w sched_sys \<Rightarrow> string option \<Rightarrow> string option \<Rightarrow> 'w daemon option \<times> string option" where
  "hotspotd_main alive created sockets_ok pid adapters be rounds last_env y json pidfile =
     (case write_pid alive created pid pidfile of (go, pf) \<Rightarrow>
        if \<not> go then (None, pf)
        else let st = (if sockets_ok then main_loop rounds (hotspotd_boot adapters be y json) else daemon0 y json)
             in (Some (hotspotd_cleanup last_env st), cleanup_pid pid pf))"

end
