(* ===== verification/HotspotdFacts.thy ===== *)
theory HotspotdFacts
  imports Hotspotd
begin

text \<open>
  Properties of the daemon's main loop (\<^verbatim>\<open>daemon/hotspotd/hotspotd.c\<close>): the state machine of everything
  that happens between start and shutdown, the invariant of the tables, the agreement of the
  JSON file with the table, the delayed write and the expiry of silent devices.
\<close>

section \<open>The daemon as a state machine\<close>

text \<open>
  The main thread runs rounds of the loop and serves what \<^verbatim>\<open>select\<close> reports; signals arrive at any
  time; the mDNS thread and the scheduler thread work on their own state.
\<close>

inductive daemon_step :: "'w daemon \<Rightarrow> 'w daemon \<Rightarrow> bool" where
  round: "daemon_step st (tick env st)"
| netlink: "daemon_step st (nl_process io ifname rs st)"
| client: "handle_client now pid detect received st = (answer, st') \<Longrightarrow> daemon_step st st'"
| usr1: "daemon_step st (sig_usr1 st)"
| terminate: "daemon_step st (sig_term st)"
| mdns_take: "worker_take (dt_worker (d_tab st)) = (tk, wk) \<Longrightarrow> daemon_step st (st\<lparr>d_tab := (d_tab st)\<lparr>dt_worker := wk\<rparr>\<rparr>)"
| mdns_result: "daemon_step st (st\<lparr>d_tab := (d_tab st)\<lparr>dt_worker := worker_process t (dt_worker (d_tab st))\<rparr>\<rparr>)"
| scheduler: "worker_iteration detect lsm_ok now (d_sched st) = Some (r, y) \<Longrightarrow> daemon_step st (st\<lparr>d_sched := y\<rparr>)"

section \<open>What the operations leave alone\<close>

lemma stats_fields [simp]:
  "d_sched (update_traffic_stats env st) = d_sched st" "dt_worker (d_tab (update_traffic_stats env st)) = dt_worker (d_tab st)"
  "dt_cache (d_tab (update_traffic_stats env st)) = dt_cache (d_tab st)" "g_dirty (update_traffic_stats env st) = g_dirty st"
  "devices_json (update_traffic_stats env st) = devices_json st" "dirty_since (update_traffic_stats env st) = dirty_since st"
  "g_last_event (update_traffic_stats env st) = g_last_event st" "last_offline_check (update_traffic_stats env st) = last_offline_check st"
  "g_running (update_traffic_stats env st) = g_running st" "g_need_scan (update_traffic_stats env st) = g_need_scan st"
  by (simp_all add: update_traffic_stats_def Let_def split: option.split)

lemma write_json_fields [simp]:
  "d_sched (write_json env st) = d_sched st" "dt_worker (d_tab (write_json env st)) = dt_worker (d_tab st)"
  "d_tab (write_json env st) = d_tab (update_traffic_stats env st)" "dirty_since (write_json env st) = dirty_since st"
  "g_last_event (write_json env st) = g_last_event st" "last_offline_check (write_json env st) = last_offline_check st"
  "g_running (write_json env st) = g_running st" "g_need_scan (write_json env st) = g_need_scan st"
  by (simp_all add: write_json_def Let_def)

lemma pending_fields [simp]:
  "d_sched (process_pending_mdns io st) = d_sched st" "dt_worker (d_tab (process_pending_mdns io st)) = dt_worker (d_tab st)"
  "dirty_since (process_pending_mdns io st) = dirty_since st" "last_offline_check (process_pending_mdns io st) = last_offline_check st"
  "devices_json (process_pending_mdns io st) = devices_json st" "g_ndev (process_pending_mdns io st) = g_ndev st"
  "g_running (process_pending_mdns io st) = g_running st"
  by (simp_all add: process_pending_mdns_def Let_def split: option.split prod.split)

lemma apply_result_fields [simp]:
  "d_sched (apply_result now r st) = d_sched st" "dt_worker (d_tab (apply_result now r st)) = dt_worker (d_tab st)"
  "dirty_since (apply_result now r st) = dirty_since st" "last_offline_check (apply_result now r st) = last_offline_check st"
  "devices_json (apply_result now r st) = devices_json st" "g_ndev (apply_result now r st) = g_ndev st"
  "g_running (apply_result now r st) = g_running st"
  by (simp_all add: apply_result_def Let_def split: option.split)

lemma apply_results_fields [simp]:
  "d_sched (fold (apply_result now) rs st) = d_sched st" "dt_worker (d_tab (fold (apply_result now) rs st)) = dt_worker (d_tab st)"
  "dirty_since (fold (apply_result now) rs st) = dirty_since st" "last_offline_check (fold (apply_result now) rs st) = last_offline_check st"
  "devices_json (fold (apply_result now) rs st) = devices_json st" "g_ndev (fold (apply_result now) rs st) = g_ndev st"
  "g_running (fold (apply_result now) rs st) = g_running st"
  by (induction rs arbitrary: st) simp_all

lemma drain_fields [simp]:
  "d_sched (drain_mdns now st) = d_sched st" "dirty_since (drain_mdns now st) = dirty_since st"
  "last_offline_check (drain_mdns now st) = last_offline_check st"
  "g_running (drain_mdns now st) = g_running st"
  by (simp_all add: drain_mdns_def split: prod.split)

lemma offline_fields [simp]:
  "d_sched (offline_check now st) = d_sched st" "dirty_since (offline_check now st) = dirty_since st"
  "dt_worker (d_tab (offline_check now st)) = dt_worker (d_tab st)"
  "devices_json (offline_check now st) = devices_json st" "g_ndev (offline_check now st) = g_ndev st"
  "g_running (offline_check now st) = g_running st"
  by (simp_all add: offline_check_def Let_def)

lemma save_cache_fields [simp]:
  "d_sched (save_cache env st) = d_sched st" "dt_worker (d_tab (save_cache env st)) = dt_worker (d_tab st)"
  "g_devs (d_tab (save_cache env st)) = g_devs (d_tab st)" "g_dirty (save_cache env st) = g_dirty st"
  "devices_json (save_cache env st) = devices_json st" "g_ndev (save_cache env st) = g_ndev st"
  "last_offline_check (save_cache env st) = last_offline_check st" "g_running (save_cache env st) = g_running st"
  "dirty_since (save_cache env st) = dirty_since st" "json_damaged (save_cache env st) = json_damaged st"
  by (simp_all add: save_cache_def Let_def)

lemma scan_arp_fields [simp]:
  "d_sched (scan_arp env st) = d_sched st" "dirty_since (scan_arp env st) = dirty_since st"
  "last_offline_check (scan_arp env st) = last_offline_check st" "g_running (scan_arp env st) = g_running st"
  by (simp_all add: scan_arp_def split: prod.split)

lemma debounce_fields [simp]:
  "d_sched (debounce env st) = d_sched st" "dt_worker (d_tab (debounce env st)) = dt_worker (d_tab st)"
  "last_offline_check (debounce env st) = last_offline_check st" "g_running (debounce env st) = g_running st"
  by (simp_all add: debounce_def Let_def)

lemma tick_fields [simp]:
  "d_sched (tick env st) = d_sched st" "g_running (tick env st) = g_running st"
  by (simp_all add: tick_def Let_def)

lemma nl_handle_fields [simp]:
  "d_sched (nl_handle io ifname m st) = d_sched st" "dirty_since (nl_handle io ifname m st) = dirty_since st"
  by (simp_all add: nl_handle_def split: prod.split)

lemma nl_handles_fields [simp]:
  "d_sched (fold (nl_handle io ifname) ms st) = d_sched st" "dirty_since (fold (nl_handle io ifname) ms st) = dirty_since st"
  by (induction ms arbitrary: st) simp_all

lemma nl_process_fields [simp]:
  "d_sched (nl_process io ifname rs st) = d_sched st" "dirty_since (nl_process io ifname rs st) = dirty_since st"
  by (induction io ifname rs st rule: nl_process.induct) simp_all

section \<open>The invariant of the tables\<close>

definition tab_ok :: "dtab \<Rightarrow> bool" where
  "tab_ok t \<longleftrightarrow> devs_inv (g_devs t) \<and> worker_ok (dt_worker t)"

lemma re_resolve_worker:
  assumes "worker_ok wk" and "re_resolve io mac ip ov (d, cache, wk) = (d', cache', wk')"
  shows "worker_ok wk'"
proof -
  obtain hn src c where r: "resolve_hostname_dhcp_only io ov cache mac HN_LEN HN_SRC_LEN = (hn, src, c)" by (rule prod_cases3)
  obtain acc w where e: "hnc_mdns_worker_enqueue mac ip wk = (acc, w)" by (rule prod.exhaust)
  show ?thesis using assms enqueue_cases[OF assms(1) e] by (auto simp: re_resolve_def r e Let_def split: if_splits)
qed

lemma device_seen_worker: "worker_ok (dt_worker t) \<Longrightarrow> worker_ok (dt_worker (device_seen io mac ip iface nud t))"
  using re_resolve_worker
  by (auto simp: device_seen_def seen_entry_def Let_def split: option.split prod.split)

lemma scan_line_worker: "worker_ok (dt_worker (fst p)) \<Longrightarrow> worker_ok (dt_worker (fst (scan_line io line p)))"
  by (auto simp: scan_line_def device_seen_worker split: prod.split option.split)

lemma scan_arp_worker: "worker_ok (dt_worker t) \<Longrightarrow> worker_ok (dt_worker (fst (scan_arp_lines io arp t)))"
proof -
  have f: "worker_ok (dt_worker (fst p)) \<Longrightarrow> worker_ok (dt_worker (fst (fold (scan_line io) ls p)))" for ls p
    by (induction ls arbitrary: p) (simp_all add: scan_line_worker)
  show "worker_ok (dt_worker t) \<Longrightarrow> worker_ok (dt_worker (fst (scan_arp_lines io arp t)))"
    by (auto simp: scan_arp_lines_def f split: option.split list.split)
qed

lemma nl_message_worker: "worker_ok (dt_worker t) \<Longrightarrow> worker_ok (dt_worker (snd (nl_message io ifname m t)))"
  by (simp add: nl_message_def Let_def device_seen_worker split: prod.split option.split)

lemma tab_ok_scan: "tab_ok t \<Longrightarrow> tab_ok (fst (scan_arp_lines io arp t))"
  by (simp add: tab_ok_def scan_arp_inv scan_arp_worker)

lemma tab_ok_message: "tab_ok t \<Longrightarrow> tab_ok (snd (nl_message io ifname m t))"
  using nl_message_inv nl_message_worker by (auto simp: tab_ok_def)

lemma devs_inv_edit:
  assumes "devs_inv g" and "i < length g \<Longrightarrow> dev_ok (f (g ! i))" and "dv_mac (f (g ! i)) = dv_mac (g ! i)" and "dv_active (f (g ! i)) = dv_active (g ! i)"
  shows "devs_inv (g[i := f (g ! i)])"
proof (cases "i < length g")
  case True
  then show ?thesis using devs_inv_same[OF assms(1), of "f (g ! i)" i] assms by simp
qed (use assms(1) in \<open>simp add: list_update_beyond\<close>)

lemma stats_line_inv: "devs_inv g \<Longrightarrow> devs_inv (stats_line line g)"
  by (auto simp: stats_line_def dev_ok_def split: option.split prod.split
      intro!: devs_inv_edit[where f = "\<lambda>d. d\<lparr>dv_rx_bytes := _, dv_tx_bytes := _\<rparr>"] dest: devs_inv_nth)

lemma stats_lines_inv: "devs_inv g \<Longrightarrow> devs_inv (fold stats_line ls g)"
  by (induction ls arbitrary: g) (simp_all add: stats_line_inv)

lemma update_traffic_inv: "devs_inv (g_devs (d_tab st)) \<Longrightarrow> devs_inv (g_devs (d_tab (update_traffic_stats env st)))"
  by (simp add: update_traffic_stats_def Let_def stats_lines_inv split: option.split)

lemma pending_inv:
  assumes "devs_inv (g_devs (d_tab st))"
  shows "devs_inv (g_devs (d_tab (process_pending_mdns io st)))"
proof -
  let ?t = "d_tab st"
  have "devs_inv ((g_devs ?t)[i := (g_devs ?t ! i)\<lparr>dv_hostname := cbuf HN_LEN hn, dv_hostname_src := cbuf HN_SRC_LEN src,
      dv_last_resolve := io_now io, dv_pending_since := 0\<rparr>])" for i hn src
    using devs_inv_edit[OF assms, of i "\<lambda>d. d\<lparr>dv_hostname := cbuf HN_LEN hn, dv_hostname_src := cbuf HN_SRC_LEN src,
      dv_last_resolve := io_now io, dv_pending_since := 0\<rparr>"] devs_inv_nth[OF assms, of i]
    by (simp add: dev_ok_def device_lens min_less_iff_disj)
  with assms show ?thesis by (simp add: process_pending_mdns_def Let_def split: option.split prod.split)
qed

lemma apply_result_inv:
  assumes "devs_inv (g_devs (d_tab st))"
  shows "devs_inv (g_devs (d_tab (apply_result now r st)))"
proof -
  let ?g = "g_devs (d_tab st)"
  have "devs_inv (?g[i := (?g ! i)\<lparr>dv_hostname := hn, dv_hostname_src := src\<rparr>])" if "length hn < HN_LEN" "length src < HN_SRC_LEN" for i hn src
    using devs_inv_edit[OF assms, of i "\<lambda>d. d\<lparr>dv_hostname := hn, dv_hostname_src := src\<rparr>"] devs_inv_nth[OF assms, of i] that
    by (simp add: dev_ok_def)
  with assms show ?thesis
    by (simp add: apply_result_def Let_def mac_name_fits device_lens min_less_iff_disj split: option.split)
qed

lemma apply_results_inv: "devs_inv (g_devs (d_tab st)) \<Longrightarrow> devs_inv (g_devs (d_tab (fold (apply_result now) rs st)))"
  by (induction rs arbitrary: st) (simp_all add: apply_result_inv)

lemma drain_ok:
  assumes "tab_ok (d_tab st)"
  shows "tab_ok (d_tab (drain_mdns now st))"
proof -
  obtain rs wk where d: "hnc_mdns_worker_drain_results (int HNC_MDNS_QUEUE_SIZE) (dt_worker (d_tab st)) = (rs, wk)" by (rule prod.exhaust)
  have "worker_ok wk" using drain_cases[OF _ d] assms by (simp add: tab_ok_def)
  with assms show ?thesis by (simp add: drain_mdns_def d tab_ok_def apply_results_inv)
qed

lemma devs_inv_map:
  assumes "devs_inv g" and "\<And>d. dev_ok d \<Longrightarrow> dev_ok (f d)" and "\<And>d. dv_mac (f d) = dv_mac d" and "\<And>d. dv_active (f d) \<Longrightarrow> dv_active d"
  shows "devs_inv (map f g)"
proof -
  have "i = j" if "i < length g" "j < length g" "dv_active (f (g ! i))" "dv_active (f (g ! j))" "strcasecmp_eq (dv_mac (g ! i)) (dv_mac (g ! j))" for i j
    using assms(1) assms(4) that unfolding devs_inv_def by blast
  with assms show ?thesis by (simp add: devs_inv_def list_all_length)
qed

lemma offline_inv:
  assumes "devs_inv (g_devs (d_tab st))"
  shows "devs_inv (g_devs (d_tab (offline_check now st)))"
proof -
  have "devs_inv (map (\<lambda>d. if silent now d then d\<lparr>dv_active := False\<rparr> else d) (g_devs (d_tab st)))"
    by (rule devs_inv_map[OF assms]) (simp_all add: dev_ok_def split: if_splits)
  with assms show ?thesis by (simp add: offline_check_def Let_def)
qed

lemma tab_ok_write: "tab_ok (d_tab st) \<Longrightarrow> tab_ok (d_tab (write_json env st))"
  by (simp add: tab_ok_def update_traffic_inv)

lemma tab_ok_scan_arp: "tab_ok (d_tab st) \<Longrightarrow> tab_ok (d_tab (scan_arp env st))"
proof -
  assume a: "tab_ok (d_tab st)"
  obtain t n where s: "scan_arp_lines (te_io env) (te_arp env) (d_tab st) = (t, n)" by (rule prod.exhaust)
  have "tab_ok t" using tab_ok_scan[OF a, of "te_io env" "te_arp env"] by (simp add: s)
  then show ?thesis using tab_ok_write[of "st\<lparr>d_tab := t, g_dirty := True\<rparr>" env] by (simp add: scan_arp_def s)
qed

lemma tab_ok_debounce: "tab_ok (d_tab st) \<Longrightarrow> tab_ok (d_tab (debounce env st))"
  by (simp add: tab_ok_def debounce_def Let_def update_traffic_inv)

lemma tab_ok_tick: "tab_ok (d_tab st) \<Longrightarrow> tab_ok (d_tab (tick env st))"
proof -
  assume "tab_ok (d_tab st)"
  then have "tab_ok (d_tab (if g_need_scan st then scan_arp env (st\<lparr>g_need_scan := False\<rparr>) else st))" by (simp add: tab_ok_scan_arp)
  then show ?thesis unfolding tick_def Let_def
    by (intro tab_ok_debounce) (metis (no_types, lifting) drain_ok offline_fields(3) offline_inv pending_fields(2) pending_inv tab_ok_def)
qed

lemma tab_ok_netlink: "tab_ok (d_tab st) \<Longrightarrow> tab_ok (d_tab (nl_process io ifname rs st))"
proof (induction io ifname rs st rule: nl_process.induct)
  case (2 io ifname ms rs st)
  have h: "tab_ok (d_tab u) \<Longrightarrow> tab_ok (d_tab (nl_handle io ifname m u))" for m and u :: "'a daemon"
    using tab_ok_message[of "d_tab u" io ifname m] by (cases "nl_message io ifname m (d_tab u)") (simp add: nl_handle_def)
  have "tab_ok (d_tab u) \<Longrightarrow> tab_ok (d_tab (fold (nl_handle io ifname) ms u))" for u :: "'a daemon"
    by (induction ms arbitrary: u) (simp_all add: h)
  with 2 show ?case by simp
qed simp_all

text \<open>A control command touches the scheduler and three flags, never the tables or the file.\<close>

lemma client_fields:
  assumes "handle_client now pid detect received st = (answer, st')"
  shows "d_tab st' = d_tab st" and "devices_json st' = devices_json st" and "json_damaged st' = json_damaged st" and "g_ndev st' = g_ndev st" and "g_dirty st' = g_dirty st"
    and "dirty_since st' = dirty_since st"
  using assms by (auto simp: handle_client_def cmd_refresh_def Let_def split: if_splits option.splits prod.splits)

lemma tab_ok_step: "daemon_step st st' \<Longrightarrow> tab_ok (d_tab st) \<Longrightarrow> tab_ok (d_tab st')"
proof (induction rule: daemon_step.induct)
  case (mdns_take st tk wk)
  have "worker_ok wk"
  proof (cases tk)
    case (Take_task t)
    then show ?thesis using mdns_take take_task_cases[of "dt_worker (d_tab st)" t wk] by (simp add: tab_ok_def)
  qed (use mdns_take in \<open>auto simp: tab_ok_def worker_take_def worker_ok_def ring_ok_def split: if_splits\<close>)
  with mdns_take show ?case by (simp add: tab_ok_def)
next
  case (mdns_result st t)
  then have "worker_ok (worker_process t (dt_worker (d_tab st)))"
    using push_result_cases by (auto simp: tab_ok_def worker_process_def Let_def split: option.split)
  with mdns_result show ?case by (simp add: tab_ok_def)
qed (simp_all add: tab_ok_tick tab_ok_netlink client_fields sig_usr1_def sig_term_def)

inductive daemon_reach :: "'w offload_adapter_t list \<Rightarrow> 'w sched_sys \<Rightarrow> string option \<Rightarrow> 'w daemon \<Rightarrow> bool" for adapters y json where
  boot: "daemon_reach adapters y json (hotspotd_boot adapters be y json)"
| step: "daemon_reach adapters y json st \<Longrightarrow> daemon_step st st' \<Longrightarrow> daemon_reach adapters y json st'"

lemma worker_ok_started: "worker_ok (snd (hnc_mdns_worker_start rc (hnc_mdns_worker_set_resolve_fn fn worker_init)))"
  by (simp add: hnc_mdns_worker_start_def hnc_mdns_worker_set_resolve_fn_def worker_init_def worker_ok_def ring_ok_def HNC_MDNS_QUEUE_SIZE_def Let_def)

lemma tab_ok_boot: "tab_ok (d_tab (hotspotd_boot adapters be y json))"
proof -
  have "devs_inv (replicate MAX_DEVICES dev_zero)" using dtab0_inv by (simp add: dtab0_def)
  then have "tab_ok (d_tab (scan_arp env ((daemon0 y1 json)\<lparr>d_tab := (d_tab (daemon0 y1 json))\<lparr>dt_cache := cache, dt_ov := ov,
      dt_worker := snd (hnc_mdns_worker_start rc (hnc_mdns_worker_set_resolve_fn fn worker_init))\<rparr>\<rparr>)))" for env cache ov rc fn and y1 :: "'a sched_sys"
    by (intro tab_ok_scan_arp) (simp add: tab_ok_def daemon0_def worker_ok_started)
  then show ?thesis unfolding hotspotd_boot_def Let_def by simp
qed

lemma reach_tab_ok: "daemon_reach adapters y json st \<Longrightarrow> tab_ok (d_tab st)"
  by (induction rule: daemon_reach.induct) (auto intro: tab_ok_boot tab_ok_step)

section \<open>Answers\<close>

text \<open>The bytes of an answer go out in order, and the return value tells whether all of them did.\<close>

lemma send_all_prefix: "send_all rs buf = (rc, out) \<Longrightarrow> prefix out buf \<and> (rc = 0 \<longleftrightarrow> out = buf)"
proof (induction rs buf arbitrary: rc out rule: send_all.induct)
  case (3 r rs c cs)
  show ?case
  proof (cases r)
    case (Sent n)
    show ?thesis
    proof (cases "n > 0")
      case True
      obtain rc' out' where r: "send_all rs (drop n (c # cs)) = (rc', out')" by (rule prod.exhaust)
      have o: "rc = rc'" "out = take n (c # cs) @ out'" using 3(3) Sent True r by simp_all
      from "3.IH"(1)[OF Sent True r] have "prefix out' (drop n (c # cs)) \<and> (rc' = 0 \<longleftrightarrow> out' = drop n (c # cs))" .
      then show ?thesis unfolding o by (metis append_take_drop_id same_append_eq same_prefix_prefix)
    qed (use 3(3) Sent in auto)
  qed (use 3 in auto)
qed auto

section \<open>The file agrees with the table\<close>

definition devices_text :: "string list \<Rightarrow> Device list \<Rightarrow> string" where
  "devices_text bl devs = ''{'' @ devices_loop bl True devs @ ''}''"

text \<open>
  While nothing is to be written, the device count is current, and the file is the rendering of
  the table, or it was damaged when it was written, or it is still the one of an earlier run and no device is active.
\<close>

definition file_sync :: "string option \<Rightarrow> 'w daemon \<Rightarrow> bool" where
  "file_sync json0 st \<longleftrightarrow> g_dirty st \<or>
     g_ndev st = count_active (g_devs (d_tab st)) \<and>
     ((\<exists>bl. devices_json st = Some (devices_text bl (g_devs (d_tab st)))) \<or> json_damaged st \<or> devices_json st = json0 \<and> g_ndev st = 0)"

lemma file_sync_dirty: "g_dirty st \<Longrightarrow> file_sync j st"
  by (simp add: file_sync_def)

lemma file_sync_cong:
  assumes "file_sync j st" and "g_dirty st' = g_dirty st" and "g_ndev st' = g_ndev st" and "devices_json st' = devices_json st" and "json_damaged st' = json_damaged st"
    and "g_devs (d_tab st') = g_devs (d_tab st)"
  shows "file_sync j st'"
  using assms by (simp add: file_sync_def)

lemma write_json_sync: "g_dirty st \<Longrightarrow> file_sync j (write_json env st)"
  by (auto simp: file_sync_def write_json_def devices_text_def Let_def simp del: write_json_fields)

lemma scan_none:
  assumes "scan_arp_lines io arp t = (t', 0)"
  shows "t' = t"
proof -
  have mono: "snd p \<le> snd (fold (scan_line io) ls p)" for ls p
  proof (induction ls arbitrary: p)
    case (Cons l ls)
    have "snd p \<le> snd (scan_line io l p)" by (auto simp: scan_line_def split: prod.split option.split)
    then show ?case using Cons[of "scan_line io l p"] by simp
  qed simp
  have "fold (scan_line io) ls (t, 0) = (t', 0) \<Longrightarrow> t' = t" for ls
  proof (induction ls)
    case (Cons l ls)
    show ?case
    proof (cases "arp_line l")
      case None
      then show ?thesis using Cons by (simp add: scan_line_def)
    next
      case (Some q)
      obtain a b c where q: "q = (a, b, c)" by (rule prod_cases3)
      have "1 \<le> snd (fold (scan_line io) (l # ls) (t, 0))" using mono[of "scan_line io l (t, 0)" ls] Some q by (simp add: scan_line_def)
      then show ?thesis using Cons.prems by simp
    qed
  qed simp
  with assms show ?thesis by (auto simp: scan_arp_lines_def split: option.splits list.splits)
qed

lemma scan_arp_sync:
  assumes "file_sync j st"
  shows "file_sync j (scan_arp env st)"
proof -
  obtain t n where s: "scan_arp_lines (te_io env) (te_arp env) (d_tab st) = (t, n)" by (rule prod.exhaust)
  show ?thesis
  proof (cases "n = 0")
    case True
    then show ?thesis using s scan_none[of "te_io env" "te_arp env" "d_tab st" t] assms by (simp add: scan_arp_def file_sync_def)
  next
    case False
    then show ?thesis using write_json_sync[of "st\<lparr>d_tab := t, g_dirty := True\<rparr>"] by (simp add: scan_arp_def s)
  qed
qed

lemma pending_sync: "file_sync j st \<Longrightarrow> file_sync j (process_pending_mdns io st)"
  by (auto simp: process_pending_mdns_def Let_def file_sync_def split: option.split prod.split)

lemma apply_result_sync: "file_sync j st \<Longrightarrow> file_sync j (apply_result now r st)"
  by (auto simp: apply_result_def Let_def file_sync_def split: option.split)

lemma apply_results_sync: "file_sync j st \<Longrightarrow> file_sync j (fold (apply_result now) rs st)"
  by (induction rs arbitrary: st) (simp_all add: apply_result_sync)

lemma drain_sync:
  assumes "file_sync j st"
  shows "file_sync j (drain_mdns now st)"
proof -
  obtain rs wk where d: "hnc_mdns_worker_drain_results (int HNC_MDNS_QUEUE_SIZE) (dt_worker (d_tab st)) = (rs, wk)" by (rule prod.exhaust)
  have "file_sync j (st\<lparr>d_tab := (d_tab st)\<lparr>dt_worker := wk\<rparr>\<rparr>)" by (rule file_sync_cong[OF assms]) simp_all
  then show ?thesis by (simp add: drain_mdns_def d apply_results_sync)
qed

lemma offline_sync:
  assumes "file_sync j st"
  shows "file_sync j (offline_check now st)"
proof (cases "list_ex (silent now) (g_devs (d_tab st))")
  case False
  then have "map (\<lambda>d. if silent now d then d\<lparr>dv_active := False\<rparr> else d) (g_devs (d_tab st)) = g_devs (d_tab st)"
    by (intro map_idI) (auto simp: list_ex_iff)
  then show ?thesis using False assms by (simp add: offline_check_def Let_def file_sync_def)
qed (use assms in \<open>simp add: offline_check_def Let_def file_sync_def\<close>)

lemma debounce_sync:
  assumes "file_sync j st"
  shows "file_sync j (debounce env st)"
proof -
  have w: "file_sync j ((save_cache env (write_json env u))\<lparr>dirty_since := 0\<rparr>)" if "g_dirty u" for u :: "'a daemon"
    using write_json_sync[OF that, of j env] by (simp add: file_sync_def)
  show ?thesis using assms by (auto simp: debounce_def Let_def w intro: file_sync_dirty)
qed

lemma file_sync_need_scan [simp]: "file_sync j (st\<lparr>g_need_scan := b\<rparr>) = file_sync j st"
  by (simp add: file_sync_def)

lemma tick_sync: "file_sync j st \<Longrightarrow> file_sync j (tick env st)"
  unfolding tick_def Let_def
  by (intro debounce_sync offline_sync drain_sync pending_sync) (simp add: scan_arp_sync)

lemma nl_handle_sync:
  assumes "file_sync j st"
  shows "file_sync j (nl_handle io ifname m st)"
proof -
  have "t = d_tab st" if "nl_message io ifname m (d_tab st) = (False, t)" for t
    using that by (auto simp: nl_message_def Let_def split: if_splits prod.splits option.splits)
  then show ?thesis using assms by (cases "nl_message io ifname m (d_tab st)") (auto simp: nl_handle_def file_sync_def)
qed

lemma nl_process_sync: "file_sync j st \<Longrightarrow> file_sync j (nl_process io ifname rs st)"
proof (induction io ifname rs st rule: nl_process.induct)
  case (2 io ifname ms rs st)
  have "file_sync j u \<Longrightarrow> file_sync j (fold (nl_handle io ifname) ms u)" for u :: "'a daemon"
    by (induction ms arbitrary: u) (simp_all add: nl_handle_sync)
  with 2 show ?case by simp
qed (auto intro: file_sync_cong)

lemma step_sync: "daemon_step st st' \<Longrightarrow> file_sync j st \<Longrightarrow> file_sync j st'"
  by (induction rule: daemon_step.induct)
     (auto simp: sig_usr1_def sig_term_def client_fields intro: tick_sync nl_process_sync file_sync_cong)

lemma boot_sync: "file_sync json (hotspotd_boot adapters be y json)"
proof -
  have "file_sync json (scan_arp env ((daemon0 y1 json)\<lparr>d_tab := (d_tab (daemon0 y1 json))\<lparr>dt_cache := cache, dt_ov := ov, dt_worker := wk\<rparr>\<rparr>))"
    for env cache ov wk and y1 :: "'a sched_sys"
    by (rule scan_arp_sync) (simp add: file_sync_def daemon0_def count_active_def dev_zero_def)
  then show ?thesis unfolding hotspotd_boot_def Let_def by (simp add: file_sync_def)
qed

lemma reach_sync: "daemon_reach adapters y json st \<Longrightarrow> file_sync json st"
  by (induction rule: daemon_reach.induct) (auto intro: boot_sync step_sync)

fun comma_join :: "string list \<Rightarrow> string" where
  "comma_join [] = []"
| "comma_join [x] = x"
| "comma_join (x # xs) = x @ CHR '','' # comma_join xs"

lemma comma_join_Cons: "comma_join (x # xs) = x @ (if xs = [] then [] else CHR '','' # comma_join xs)"
  by (cases xs) simp_all

lemma devices_loop_join:
  "devices_loop bl True devs = comma_join (map (device_json bl) (filter dv_active devs))"
proof -
  have "devices_loop bl False devs = concat (map (\<lambda>d. CHR '','' # device_json bl d) (filter dv_active devs))" for devs
    by (induction devs) simp_all
  moreover have "concat (map (\<lambda>d. CHR '','' # device_json bl d) ds) = (if ds = [] then [] else CHR '','' # comma_join (map (device_json bl) ds))" for ds
    by (induction ds) (simp_all add: comma_join_Cons)
  ultimately show ?thesis by (induction devs) (simp_all add: comma_join_Cons)
qed

section \<open>Properties of the tables and the file\<close>

text \<open>
  A start of the daemon with one neighbour in the ARP table, used for the witnesses.
\<close>

definition demo_tick :: "time_t \<Rightarrow> string option \<Rightarrow> tick_env" where
  "demo_tick now arp = \<lparr>te_io = quiet_io\<lparr>io_now := now\<rparr>, te_arp = arp, te_rules = None, te_stats_exec = False, te_stats = None,
     te_tmp_ok = True, te_disk = None, te_rename_ok = True, te_cache_ok = (True, True, True)\<rparr>"

definition demo_boot_env :: boot_env where
  "demo_boot_env = \<lparr>be_cache_file = None, be_override_file = None, be_mdns_fn = \<lambda>ip mac. None, be_thread_rc = 0, be_sched = demo_env,
     be_tick = demo_tick 1000 (Some (''header'' @ [LF] @ ''10.0.0.2 0x1 0x2 AA:BB:CC:00:11:22 * wlan2'' @ [LF]))\<rparr>"

definition demo_boot :: "pinned_maps bpf_world daemon" where
  "demo_boot = hotspotd_boot (g_adapters [adapter_bpf demo_kernel]) demo_boot_env demo_sys0 None"

lemma demo_boot_reach: "daemon_reach (g_adapters [adapter_bpf demo_kernel]) demo_sys0 None demo_boot"
  unfolding demo_boot_def by (rule daemon_reach.boot)

lemma write_json_clean: "te_tmp_ok env \<Longrightarrow> te_rename_ok env \<Longrightarrow> \<not> g_dirty (write_json env st)"
  by (simp add: write_json_def Let_def)

lemma demo_boot_clean: "\<not> g_dirty demo_boot"
proof -
  have "\<not> g_dirty (scan_arp (demo_tick now arp) st)" if "\<not> g_dirty st" for now arp and st :: "pinned_maps bpf_world daemon"
    using that by (simp add: scan_arp_def demo_tick_def write_json_clean split: prod.split)
  then show ?thesis by (simp add: demo_boot_def hotspotd_boot_def demo_boot_env_def Let_def daemon0_def)
qed

lemma length_json_escs: "length (json_escs s) \<le> 6 * length s"
proof (induction s)
  case (Cons c s)
  have "length (json_esc c) \<le> 6" by (simp add: json_esc_def hex4_def hex2_def)
  then show ?case using Cons by simp
qed simp

lemma hostname_escape_fits: "dev_ok d \<Longrightarrow> hnc_json_escape (dv_hostname d) (HN_LEN * 6 + 4) = Some (json_escs (dv_hostname d))"
  by (rule json_escape_complete_room) (use length_json_escs[of "dv_hostname d"] in \<open>simp add: dev_ok_def HN_LEN_def\<close>)

text \<open>
  C6: In every state of the running daemon, whatever the interleaving of rounds, neighbour events,
  commands, signals and the two threads: the device table has its 128 slots, every string
  fits its field with the terminator, no two active entries have the same address, the rings
  of the mDNS worker are well formed, and the host name of every entry is escaped for the JSON
  file without being cut.
\<close>

theorem daemon_tables_well_formed:
  assumes "daemon_reach adapters y json st"
  shows "length (g_devs (d_tab st)) = 128 \<and> worker_ok (dt_worker (d_tab st)) \<and>
    (\<forall>d \<in> set (g_devs (d_tab st)). length (dv_mac d) < 18 \<and> length (dv_ip d) < 16 \<and> length (dv_hostname d) < 64 \<and>
       length (dv_hostname_src d) < 12 \<and> length (dv_iface d) < 16 \<and>
       hnc_json_escape (dv_hostname d) (HN_LEN * 6 + 4) = Some (json_escs (dv_hostname d))) \<and>
    (\<forall>i < 128. \<forall>j < 128. dv_active (g_devs (d_tab st) ! i) \<and> dv_active (g_devs (d_tab st) ! j) \<and>
       strcasecmp_eq (dv_mac (g_devs (d_tab st) ! i)) (dv_mac (g_devs (d_tab st) ! j)) \<longrightarrow> i = j)"
proof -
  have t: "tab_ok (d_tab st)" by (rule reach_tab_ok[OF assms])
  then have "list_all dev_ok (g_devs (d_tab st))" by (simp add: tab_ok_def devs_inv_def)
  then have "\<forall>d \<in> set (g_devs (d_tab st)). dev_ok d \<and> hnc_json_escape (dv_hostname d) (HN_LEN * 6 + 4) = Some (json_escs (dv_hostname d))"
    by (simp add: list_all_iff hostname_escape_fits)
  with t show ?thesis by (simp add: tab_ok_def devs_inv_def dev_ok_def device_lens MAX_DEVICES_def)
qed

theorem daemon_tables_well_formed_witness:
  "length (g_devs (d_tab demo_boot)) = 128 \<and> worker_ok (dt_worker (d_tab demo_boot))"
  using daemon_tables_well_formed[OF demo_boot_reach] by blast

text \<open>
  C3: In every state of the running daemon in which no write is outstanding, the number that \<^verbatim>\<open>STATUS\<close>
  reports is the number of active devices, and \<^verbatim>\<open>devices.json\<close>, which \<^verbatim>\<open>GET_DEVICES\<close> sends, is the
  rendering of exactly the active devices in table order, with two exceptions that the code allows: when the file system did not take all the bytes of the last
  write (a full disk; the program does not look at the results of \<^verbatim>\<open>fprintf\<close>, \<^verbatim>\<open>fflush\<close> and \<^verbatim>\<open>fclose\<close>) the file is damaged, and while no device is active
  it may still be the file of an earlier run of the daemon.
\<close>

theorem devices_file_current:
  assumes "daemon_reach adapters y json st" and "\<not> g_dirty st"
  shows "g_ndev st = length (filter dv_active (g_devs (d_tab st))) \<and>
    (json_damaged st \<or>
     (\<exists>bl. devices_json st = Some (''{'' @ comma_join (map (device_json bl) (filter dv_active (g_devs (d_tab st)))) @ ''}'')) \<or>
     devices_json st = json \<and> filter dv_active (g_devs (d_tab st)) = [])"
  using reach_sync[OF assms(1)] assms(2)
  by (auto simp: file_sync_def count_active_def devices_text_def devices_loop_join)

text \<open>The start with one neighbour, whose file was written whole.\<close>

lemma write_json_whole: "te_disk env = None \<Longrightarrow> \<not> json_damaged st \<Longrightarrow> \<not> json_damaged (write_json env st)"
  by (simp add: write_json_def update_traffic_stats_def Let_def split: option.split)

lemma demo_boot_whole: "\<not> json_damaged demo_boot"
proof -
  have "\<not> json_damaged (scan_arp (demo_tick now arp) st)" if "\<not> json_damaged st" for now arp and st :: "pinned_maps bpf_world daemon"
  proof -
    have d: "te_disk (demo_tick now arp) = None" by (simp add: demo_tick_def)
    show ?thesis using that by (simp add: scan_arp_def write_json_whole[OF d] split: prod.split)
  qed
  then show ?thesis by (simp add: demo_boot_def hotspotd_boot_def demo_boot_env_def Let_def daemon0_def)
qed

theorem devices_file_current_witness:
  "g_ndev demo_boot = length (filter dv_active (g_devs (d_tab demo_boot))) \<and>
   ((\<exists>bl. devices_json demo_boot = Some (''{'' @ comma_join (map (device_json bl) (filter dv_active (g_devs (d_tab demo_boot)))) @ ''}'')) \<or>
    devices_json demo_boot = None \<and> filter dv_active (g_devs (d_tab demo_boot)) = [])"
  using devices_file_current[OF demo_boot_reach demo_boot_clean] demo_boot_whole by blast

text \<open>
  On a full disk the damaged file replaces the good one and nothing is outstanding afterwards, so it stays until
  the next change of the table.
\<close>

lemma damaged_write_counts_as_done:
  assumes "te_tmp_ok env" and "te_rename_ok env" and "te_disk env = Some t"
  shows "devices_json (write_json env st) = Some t \<and> \<not> g_dirty (write_json env st) \<and> debounce env (write_json env st) = write_json env st"
  using assms by (simp add: write_json_def debounce_def Let_def)

end
