(* ===== verification/HotspotdLoop.thy ===== *)
theory HotspotdLoop
  imports HotspotdFacts
begin

text \<open>
  Timing and commands of the daemon's main loop (\<^verbatim>\<open>daemon/hotspotd/hotspotd.c\<close>): the delayed write
  is never starved, silent devices expire in bounded time, what a \<^verbatim>\<open>REFRESH\<close> does to the traffic
  counters, what happens to late mDNS answers, and the PID file.
\<close>

section \<open>The delayed write\<close>

text \<open>The states after the rounds of a stretch of the loop.\<close>

fun after_ticks :: "(tick_env \<times> sel_env \<times> sel_result) list \<Rightarrow> 'w daemon \<Rightarrow> 'w daemon list" where
  "after_ticks [] st = []"
| "after_ticks ((env, se, r) # rounds) st = tick env st # after_ticks rounds (snd (serve se r (tick env st)))"

lemma serve_dirty_since [simp]: "dirty_since (snd (serve se r st)) = dirty_since st"
proof -
  have "dirty_since (snd (handle_client now pid detect received u)) = dirty_since u" for now pid detect received and u :: "'a daemon"
    using client_fields(6)[of now pid detect received u] by (cases "handle_client now pid detect received u") simp
  then show ?thesis by (simp add: serve_def Let_def split: sel_result.split option.split)
qed

definition writes_ok :: "tick_env \<Rightarrow> bool" where
  "writes_ok env \<longleftrightarrow> te_tmp_ok env \<and> te_rename_ok env"

lemma debounce_waits:
  assumes "writes_ok env" and "g_dirty (debounce env st)" and "0 \<le> dirty_since st" and "dirty_since st \<le> te_now env" and "0 < te_now env"
    and "te_now env < 2 ^ 31"
  defines "ds \<equiv> (if dirty_since st = 0 then te_now env else dirty_since st)"
  shows "dirty_since (debounce env st) = ds \<and> te_now env - ds < 30"
proof -
  have c: "c_int (te_now env - ds) = te_now env - ds" using assms(3-6) by (intro c_int_id) (simp_all add: ds_def)
  have d: "g_dirty st" using assms(2) by (simp add: debounce_def split: if_splits)
  have "\<not> (c_int (te_now env - ds) \<ge> 30)"
    using assms(1,2) d by (auto simp: debounce_def Let_def writes_ok_def write_json_clean ds_def split: if_splits)
  then show ?thesis using assms(1,2) d c
    by (auto simp: debounce_def Let_def writes_ok_def write_json_clean ds_def split: if_splits)
qed

lemma tick_waits:
  assumes "writes_ok env" and "g_dirty (tick env st)" and "0 \<le> dirty_since st" and "dirty_since st \<le> te_now env" and "0 < te_now env"
    and "te_now env < 2 ^ 31"
  defines "ds \<equiv> (if dirty_since st = 0 then te_now env else dirty_since st)"
  shows "dirty_since (tick env st) = ds \<and> te_now env - ds < 30"
proof -
  obtain u where u: "tick env st = debounce env u" "dirty_since u = dirty_since st" unfolding tick_def Let_def by simp
  show ?thesis using debounce_waits[of env u] assms(1-6) unfolding ds_def by (auto simp: u split: if_splits)
qed

definition time_ok :: "time_t \<Rightarrow> (tick_env \<times> sel_env \<times> sel_result) \<Rightarrow> bool" where
  "time_ok t0 round \<longleftrightarrow> t0 \<le> te_now (fst round) \<and> te_now (fst round) < 2 ^ 31 \<and> writes_ok (fst round)"

lemma dirty_rounds:
  assumes "list_all (time_ok t0) rounds" and "0 < dirty_since st" and "dirty_since st \<le> t0"
    and "\<forall>u \<in> set (after_ticks rounds st). g_dirty u" and "round \<in> set rounds"
  shows "te_now (fst round) < t0 + 30"
  using assms
proof (induction rounds st rule: after_ticks.induct)
  case (2 env se r rounds st)
  have w: "dirty_since (tick env st) = dirty_since st \<and> te_now env - dirty_since st < 30"
    using tick_waits[of env st] 2 by (simp add: time_ok_def)
  show ?case
  proof (cases "round = (env, se, r)")
    case True
    then show ?thesis using w 2 by simp
  next
    case False
    show ?thesis using 2 False w by (intro "2.IH") simp_all
  qed
qed simp

text \<open>
  C7: The delayed write is never starved: over any stretch of rounds of the main loop in which the
  file can be written and the clock does not go back, and which lasts at least 30 seconds, there is
  a round after which nothing is outstanding, however many events arrive in between.
\<close>

theorem write_not_starved:
  assumes "list_all (time_ok (te_now (fst (hd rounds)))) rounds" and "0 < te_now (fst (hd rounds))"
    and "0 \<le> dirty_since st" and "dirty_since st \<le> te_now (fst (hd rounds))"
    and "round \<in> set rounds" and "te_now (fst round) \<ge> te_now (fst (hd rounds)) + 30"
  shows "\<exists>u \<in> set (after_ticks rounds st). \<not> g_dirty u"
proof (rule ccontr)
  assume "\<not> (\<exists>u \<in> set (after_ticks rounds st). \<not> g_dirty u)"
  then have d: "\<forall>u \<in> set (after_ticks rounds st). g_dirty u" by simp
  obtain env se r rest where R: "rounds = (env, se, r) # rest" using assms(5) by (cases rounds) auto
  let ?st = "snd (serve se r (tick env st))"
  have "dirty_since (tick env st) = (if dirty_since st = 0 then te_now env else dirty_since st)"
    using tick_waits[of env st] assms d by (simp add: R time_ok_def)
  then have s: "0 < dirty_since ?st" "dirty_since ?st \<le> te_now env" using assms by (simp_all add: R)
  have "round \<in> set rest" using assms(5,6) by (auto simp: R)
  then show False using dirty_rounds[of "te_now env" rest ?st round] assms s d by (simp add: R)
qed

definition demo_rounds :: "(tick_env \<times> sel_env \<times> sel_result) list" where
  "demo_rounds = map (\<lambda>t. (demo_tick t None, \<lparr>se_io = quiet_io\<lparr>io_now := t\<rparr>, se_ifname = \<lambda>_. ''wlan2'', se_detect = None, se_pid = 77\<rparr>,
     Sel_ready (Some [Nl_data [\<lparr>nl_kind = RTM_NEWNEIGH, ndm_inet = True, ndm_ifindex = 3, ndm_state = 2,
        nl_attrs = [(NDA_DST, [10, 0, 0, 2]), (NDA_LLADDR, [2, 0, 0, 0, 0, 1])]\<rparr>]]) None)) [1001, 1001, 1031]"

theorem write_not_starved_witness:
  "\<exists>u \<in> set (after_ticks demo_rounds demo_boot). \<not> g_dirty u"
proof -
  have "dirty_since demo_boot = 0" by (simp add: demo_boot_def hotspotd_boot_def Let_def daemon0_def)
  then show ?thesis using write_not_starved[of demo_rounds demo_boot "last demo_rounds"]
    by (simp add: demo_rounds_def time_ok_def writes_ok_def demo_tick_def)
qed

section \<open>Expiry of silent devices\<close>

definition recent :: "time_t \<Rightarrow> Device list \<Rightarrow> bool" where
  "recent c g \<longleftrightarrow> (\<forall>d \<in> set g. dv_active d \<longrightarrow> c \<le> dv_last_seen d)"

lemma recent_update: "recent c g \<Longrightarrow> dv_active e \<longrightarrow> c \<le> dv_last_seen e \<Longrightarrow> recent c (g[i := e])"
  using set_update_subset_insert[of g i e] by (auto simp: recent_def)

lemma recent_edit:
  assumes "recent c g" and "dv_active (f (g ! i)) \<longrightarrow> dv_active (g ! i)" and "dv_last_seen (f (g ! i)) = dv_last_seen (g ! i)"
  shows "recent c (g[i := f (g ! i)])"
proof (cases "i < length g")
  case True
  then show ?thesis using assms by (intro recent_update) (auto simp: recent_def)
qed (use assms in \<open>simp add: list_update_beyond\<close>)

lemma recent_seen:
  assumes "recent c (g_devs t)" and "c \<le> io_now io"
  shows "recent c (g_devs (device_seen io mac ip iface nud t))"
proof -
  obtain i d t1 where s: "seen_entry io mac ip t = (i, d, t1)" by (rule prod_cases3)
  have "recent c (g_devs t1)" using s assms(1)
    by (auto simp: seen_entry_def alloc_device_def Let_def dev_zero_def split: option.splits prod.splits if_splits intro!: recent_update)
  then show ?thesis using assms(2) by (simp add: device_seen_def s recent_update)
qed

lemma recent_scan:
  assumes "recent c (g_devs t)" and "c \<le> io_now io"
  shows "recent c (g_devs (fst (scan_arp_lines io arp t)))"
proof -
  have "recent c (g_devs (fst p)) \<Longrightarrow> recent c (g_devs (fst (scan_line io l p)))" for l p
    using assms(2) by (auto simp: scan_line_def recent_seen split: prod.split option.split)
  then have "recent c (g_devs (fst p)) \<Longrightarrow> recent c (g_devs (fst (fold (scan_line io) ls p)))" for ls p
    by (induction ls arbitrary: p) simp_all
  with assms(1) show ?thesis by (simp add: scan_arp_lines_def split: option.split list.split)
qed

lemma recent_message:
  assumes "recent c (g_devs t)" and "c \<le> io_now io"
  shows "recent c (g_devs (snd (nl_message io ifname m t)))"
  using assms recent_edit[OF assms(1), where f = "\<lambda>d. d\<lparr>dv_active := False\<rparr>"]
  by (simp add: nl_message_def Let_def recent_seen split: prod.split option.split)

lemma recent_stats: "recent c g \<Longrightarrow> recent c (fold stats_line ls g)"
proof (induction ls arbitrary: g)
  case (Cons l ls)
  have "recent c (stats_line l g)"
    using recent_edit[OF Cons.prems, where f = "\<lambda>d. d\<lparr>dv_rx_bytes := _, dv_tx_bytes := _\<rparr>"] Cons.prems
    by (simp add: stats_line_def split: option.split prod.split)
  then show ?case by (simp add: Cons.IH)
qed simp

lemma recent_write: "recent c (g_devs (d_tab st)) \<Longrightarrow> recent c (g_devs (d_tab (write_json env st)))"
  by (simp add: update_traffic_stats_def Let_def recent_stats split: option.split)

lemma recent_scan_arp:
  assumes "recent c (g_devs (d_tab st))" and "c \<le> te_now env"
  shows "recent c (g_devs (d_tab (scan_arp env st)))"
proof -
  obtain t n where s: "scan_arp_lines (te_io env) (te_arp env) (d_tab st) = (t, n)" by (rule prod.exhaust)
  have "recent c (g_devs t)" using recent_scan[OF assms, of "te_arp env"] s by simp
  then show ?thesis using recent_write[of c "st\<lparr>d_tab := t, g_dirty := True\<rparr>" env] by (simp add: scan_arp_def s)
qed

lemma recent_pending: "recent c (g_devs (d_tab st)) \<Longrightarrow> recent c (g_devs (d_tab (process_pending_mdns io st)))"
  by (auto simp: process_pending_mdns_def Let_def split: option.split prod.split
      intro!: recent_edit[where f = "\<lambda>d. d\<lparr>dv_hostname := _, dv_hostname_src := _, dv_last_resolve := _, dv_pending_since := _\<rparr>"])

lemma recent_result: "recent c (g_devs (d_tab st)) \<Longrightarrow> recent c (g_devs (d_tab (apply_result now r st)))"
  by (auto simp: apply_result_def Let_def split: option.split
      intro!: recent_edit[where f = "\<lambda>d. d\<lparr>dv_hostname := _ d, dv_hostname_src := _\<rparr>"])

lemma recent_drain:
  assumes "recent c (g_devs (d_tab st))"
  shows "recent c (g_devs (d_tab (drain_mdns now st)))"
proof -
  have "recent c (g_devs (d_tab u)) \<Longrightarrow> recent c (g_devs (d_tab (fold (apply_result now) rs u)))" for rs and u :: "'a daemon"
    by (induction rs arbitrary: u) (simp_all add: recent_result)
  with assms show ?thesis by (simp add: drain_mdns_def split: prod.split)
qed

lemma recent_debounce: "recent c (g_devs (d_tab st)) \<Longrightarrow> recent c (g_devs (d_tab (debounce env st)))"
  using recent_write[of c _ env] by (auto simp: debounce_def Let_def)

text \<open>A run with a clock that does not go back: the state and the time of the last thing that looked at the clock.\<close>

inductive timed :: "'w daemon \<Rightarrow> time_t \<Rightarrow> bool" where
  boot: "timed (hotspotd_boot adapters be y json) (te_now (be_tick be))"
| round: "timed st now \<Longrightarrow> now \<le> te_now env \<Longrightarrow> timed (tick env st) (te_now env)"
| netlink: "timed st now \<Longrightarrow> now \<le> io_now io \<Longrightarrow> timed (nl_process io ifname rs st) (io_now io)"
| client: "timed st now \<Longrightarrow> now \<le> t \<Longrightarrow> handle_client t pid detect received st = (answer, st') \<Longrightarrow> timed st' t"
| signal: "timed st now \<Longrightarrow> timed (sig_usr1 st) now"
| worker: "timed st now \<Longrightarrow> timed (st\<lparr>d_tab := (d_tab st)\<lparr>dt_worker := wk\<rparr>, d_sched := ys\<rparr>) now"

definition fresh :: "'w daemon \<Rightarrow> time_t \<Rightarrow> bool" where
  "fresh st now \<longleftrightarrow> last_offline_check st \<le> now \<and> recent (last_offline_check st - OFFLINE_THRESHOLD) (g_devs (d_tab st))"

lemma recent_mono: "recent c g \<Longrightarrow> c' \<le> c \<Longrightarrow> recent c' g"
  by (auto simp: recent_def)

lemma offline_expires:
  assumes "recent (last_offline_check st - OFFLINE_THRESHOLD) (g_devs (d_tab st))" and "last_offline_check st \<le> now"
  shows "fresh (offline_check now st) now \<and> now - last_offline_check (offline_check now st) < OFFLINE_CHECK_INTERVAL"
proof (cases "now - last_offline_check st \<ge> OFFLINE_CHECK_INTERVAL")
  case True
  have "recent (now - OFFLINE_THRESHOLD) (map (\<lambda>d. if silent now d then d\<lparr>dv_active := False\<rparr> else d) (g_devs (d_tab st)))"
    by (auto simp: recent_def silent_def split: if_splits)
  then show ?thesis using True by (simp add: offline_check_def Let_def fresh_def OFFLINE_CHECK_INTERVAL_def)
qed (use assms in \<open>simp add: offline_check_def fresh_def\<close>)

lemma tick_fresh:
  assumes "fresh st now" and "now \<le> te_now env"
  shows "fresh (tick env st) (te_now env) \<and> te_now env - last_offline_check (tick env st) < OFFLINE_CHECK_INTERVAL"
proof -
  define c where "c = last_offline_check st - OFFLINE_THRESHOLD"
  have c: "c \<le> te_now env" "last_offline_check st \<le> te_now env" using assms by (simp_all add: c_def fresh_def OFFLINE_THRESHOLD_def)
  define st1 where "st1 = (if g_need_scan st then scan_arp env (st\<lparr>g_need_scan := False\<rparr>) else st)"
  define st3 where "st3 = drain_mdns (te_now env) (process_pending_mdns (te_io env) st1)"
  have "recent c (g_devs (d_tab st1))" using assms c by (auto simp: st1_def fresh_def c_def intro!: recent_scan_arp)
  then have "recent c (g_devs (d_tab st3))" unfolding st3_def by (intro recent_drain recent_pending)
  moreover have l: "last_offline_check st3 = last_offline_check st" by (simp add: st3_def st1_def)
  ultimately have o: "fresh (offline_check (te_now env) st3) (te_now env) \<and> te_now env - last_offline_check (offline_check (te_now env) st3) < OFFLINE_CHECK_INTERVAL"
    using offline_expires[of st3 "te_now env"] c(2) by (simp add: c_def)
  have "tick env st = debounce env (offline_check (te_now env) st3)" by (simp add: tick_def Let_def st3_def st1_def)
  with o show ?thesis using recent_debounce by (auto simp: fresh_def)
qed

lemma netlink_fresh:
  assumes "fresh st now" and "now \<le> io_now io"
  shows "fresh (nl_process io ifname rs st) (io_now io)"
proof -
  define c where "c = last_offline_check st"
  have "recent (c - OFFLINE_THRESHOLD) (g_devs (d_tab st)) \<and> last_offline_check st = c" using assms(1) by (simp add: fresh_def c_def)
  moreover have c: "c - OFFLINE_THRESHOLD \<le> io_now io" "c \<le> io_now io" using assms by (simp_all add: c_def fresh_def OFFLINE_THRESHOLD_def)
  ultimately have "recent (c - OFFLINE_THRESHOLD) (g_devs (d_tab (nl_process io ifname rs st))) \<and> last_offline_check (nl_process io ifname rs st) = c"
  proof (induction io ifname rs st rule: nl_process.induct)
    case (2 io ifname ms rs st)
    let ?P = "\<lambda>u :: 'a daemon. recent (c - OFFLINE_THRESHOLD) (g_devs (d_tab u)) \<and> last_offline_check u = c"
    have h: "?P (nl_handle io ifname m u)" if "?P u" for m u
      using that recent_message[of "c - OFFLINE_THRESHOLD" "d_tab u" io ifname m] 2(3)
      by (cases "nl_message io ifname m (d_tab u)") (simp add: nl_handle_def)
    have "?P u \<Longrightarrow> ?P (fold (nl_handle io ifname) ms u)" for u
    proof (induction ms arbitrary: u)
      case (Cons m ms)
      then show ?case using h[OF Cons.prems, of m] by simp
    qed simp
    with 2 show ?case by simp
  qed simp_all
  with c show ?thesis by (simp add: fresh_def)
qed

lemma client_offline: "handle_client now pid detect received st = (answer, st') \<Longrightarrow> last_offline_check st' = last_offline_check st"
  by (auto simp: handle_client_def cmd_refresh_def Let_def split: if_splits option.splits prod.splits)

lemma boot_fresh: "fresh (hotspotd_boot adapters be y json) (te_now (be_tick be))"
proof -
  have "recent (te_now env - OFFLINE_THRESHOLD) (g_devs (d_tab (scan_arp env ((daemon0 y1 json)\<lparr>d_tab := (d_tab (daemon0 y1 json))\<lparr>dt_cache := cache,
      dt_ov := ov, dt_worker := wk\<rparr>\<rparr>))))" for env cache ov wk and y1 :: "'a sched_sys"
    by (rule recent_scan_arp) (simp_all add: recent_def daemon0_def dev_zero_def OFFLINE_THRESHOLD_def)
  then show ?thesis unfolding hotspotd_boot_def Let_def by (simp add: fresh_def)
qed

lemma timed_fresh: "timed st now \<Longrightarrow> fresh st now"
proof (induction rule: timed.induct)
  case (client st now t pid detect received answer st')
  then show ?case using client_fields(1) client_offline by (fastforce simp: fresh_def)
next
  case (signal st now)
  then show ?case by (simp add: fresh_def sig_usr1_def)
next
  case (worker st now wk ys)
  then show ?case by (simp add: fresh_def)
qed (simp_all add: boot_fresh tick_fresh netlink_fresh)

text \<open>
  C9: In a run whose clock does not go back, after every round of the main loop every device
  that is still active has been seen during the last two minutes: a device that falls silent
  leaves the table at most 120 seconds after it was last seen.
\<close>

theorem silent_devices_expire:
  assumes "timed st now" and "now \<le> te_now env" and "d \<in> set (g_devs (d_tab (tick env st)))" and "dv_active d"
  shows "te_now env - dv_last_seen d < 120"
  using tick_fresh[OF timed_fresh[OF assms(1)] assms(2)] assms(3,4)
  by (fastforce simp: fresh_def recent_def OFFLINE_THRESHOLD_def OFFLINE_CHECK_INTERVAL_def)

theorem silent_devices_expire_witness:
  "list_all (\<lambda>d. 1080 < dv_last_seen d) (filter dv_active (g_devs (d_tab (tick (demo_tick 1200 None) demo_boot))))"
proof -
  have "timed demo_boot 1000"
    using timed.boot[of "g_adapters [adapter_bpf demo_kernel]" demo_boot_env demo_sys0 None]
    by (simp add: demo_boot_def demo_boot_env_def demo_tick_def)
  from silent_devices_expire[OF this, of "demo_tick 1200 None"] show ?thesis by (fastforce simp: demo_tick_def list_all_iff)
qed

section \<open>Refresh and late answers\<close>

text \<open>
  C39: \<^verbatim>\<open>REFRESH\<close> never brings the traffic counters forward, although it is meant to: it sets the time of
  the last computation to two seconds ago, and the counters are recomputed only when that is five
  seconds ago.  In the three seconds after the command nothing is computed, not even when the
  computation was due before the command.
\<close>

theorem refresh_postpones_counters:
  assumes "now - g_last_stats_update st > 2" and "now \<le> te_now env" and "te_now env < now + 3" and "te_stats_exec env"
    and "te_now env - g_last_stats_update st \<ge> 5"
    and "handle_client now pid detect ''REFRESH'' st = (answer, st')"
  shows "answer = Some (''OK:queued'' @ [LF]) \<and> update_traffic_stats env st' = st' \<and>
    g_last_stats_update (update_traffic_stats env st) = te_now env"
proof -
  have "request_text ''REFRESH'' = ''REFRESH''" by code_simp
  with assms(6) have "answer = Some (''OK:queued'' @ [LF])" "st' = cmd_refresh now st" by (auto simp: handle_client_def Let_def)
  moreover have "g_last_stats_update (cmd_refresh now st) = now - 2" using assms(1) by (simp add: cmd_refresh_def MIN_REFRESH_INTERVAL_def)
  ultimately show ?thesis using assms by (simp add: update_traffic_stats_def Let_def split: option.split)
qed

definition stats_tick :: tick_env where
  "stats_tick = (demo_tick 1002 None)\<lparr>te_stats_exec := True, te_stats := Some (''10.0.0.2 5 6'' @ [LF])\<rparr>"

theorem refresh_postpones_counters_witness:
  "update_traffic_stats stats_tick (snd (handle_client 1000 77 None ''REFRESH'' demo_boot)) = snd (handle_client 1000 77 None ''REFRESH'' demo_boot)"
proof -
  have u: "g_last_stats_update (update_traffic_stats (demo_tick t a) st) = g_last_stats_update st" for t a and st :: "pinned_maps bpf_world daemon"
    by (simp add: update_traffic_stats_def demo_tick_def)
  have "g_last_stats_update (scan_arp (demo_tick t a) st) = g_last_stats_update st" for t a and st :: "pinned_maps bpf_world daemon"
    using u by (simp add: scan_arp_def write_json_def Let_def split: prod.split)
  then have "g_last_stats_update demo_boot = 0" by (simp add: demo_boot_def hotspotd_boot_def demo_boot_env_def Let_def daemon0_def)
  then show ?thesis
    using refresh_postpones_counters[of 1000 demo_boot stats_tick 77 None "fst (handle_client 1000 77 None ''REFRESH'' demo_boot)"
        "snd (handle_client 1000 77 None ''REFRESH'' demo_boot)"]
    by (simp add: stats_tick_def demo_tick_def)
qed

lemma pick_pending_ready:
  assumes "pick_pending now devs = Some i"
  shows "i < length devs \<and> dv_active (devs ! i) \<and> hnc_pending_ready (dv_hostname_src (devs ! i)) (dv_pending_since (devs ! i)) now"
proof -
  define Q where "Q j \<longleftrightarrow> dv_active (devs ! j) \<and> hnc_pending_ready (dv_hostname_src (devs ! j)) (dv_pending_since (devs ! j)) now" for j
  define f where "f j old = (if \<not> Q j then old else case old of None \<Rightarrow> Some j
     | Some o1 \<Rightarrow> if dv_pending_since (devs ! j) < dv_pending_since (devs ! o1) then Some j else old)" for j old
  have "fold f is old = Some i \<Longrightarrow> i \<in> set is \<and> Q i \<or> old = Some i" for "is" old
  proof (induction "is" arbitrary: old)
    case (Cons k "is")
    then have "i \<in> set is \<and> Q i \<or> f k old = Some i" by simp
    then show ?case by (auto simp: f_def split: option.splits if_splits)
  qed simp
  moreover have "pick_pending now devs = fold f [0..<length devs] None" unfolding pick_pending_def f_def Q_def by simp
  ultimately have "i \<in> set [0..<length devs] \<and> Q i" using assms by fastforce
  then show ?thesis by (simp add: Q_def)
qed

lemma dhcp_only_src:
  assumes "resolve_hostname_dhcp_only io ov cache mac n m = (hn, src, cache')" and "11 < m"
  shows "cbuf HN_SRC_LEN src \<noteq> ''pending'' \<and> cbuf HN_SRC_LEN src \<noteq> ''mdns''"
proof -
  have m: "cbuf m ''manual'' = ''manual''" "cbuf m ''dhcp'' = ''dhcp''" "cbuf m ''oui'' = ''oui''" "cbuf m ''mac'' = ''mac''" using assms(2) by simp_all
  obtain k where k: "m = Suc (Suc k)" using assms(2) by (cases m; cases "m - 1") auto
  have "cbuf HN_SRC_LEN (cbuf m (''cache-'' @ c)) \<noteq> ''pending'' \<and> cbuf HN_SRC_LEN (cbuf m (''cache-'' @ c)) \<noteq> ''mdns''" for c by (simp add: cbuf_def HN_SRC_LEN_def k)
  moreover have "src \<in> {''manual'', ''dhcp'', ''oui'', ''mac''} \<or> (\<exists>c. src = cbuf m (''cache-'' @ c))"
    using assms(1) m by (auto simp: resolve_hostname_dhcp_only_def resolve_tail_def split: prod.splits bool.splits option.splits)
  ultimately show ?thesis by (auto simp: HN_SRC_LEN_def)
qed

text \<open>The late phases of a round keep every host name.\<close>

lemma map_edit_same: "f e = f (g ! i) \<Longrightarrow> map f (g[i := e]) = map f g"
  by (cases "i < length g") (auto simp: map_update list_update_same_conv list_update_beyond)

lemma stats_keeps:
  assumes "\<And>d x y. f (d\<lparr>dv_rx_bytes := x, dv_tx_bytes := y\<rparr>) = f d"
  shows "map f (fold stats_line ls g) = map f g"
proof (induction ls arbitrary: g)
  case (Cons l ls)
  have "map f (stats_line l g) = map f g"
    by (auto simp: stats_line_def map_edit_same assms split: option.split prod.split)
  then show ?case by (simp add: Cons)
qed simp

lemma debounce_keeps:
  assumes "\<And>d x y. f (d\<lparr>dv_rx_bytes := x, dv_tx_bytes := y\<rparr>) = f d"
  shows "map f (g_devs (d_tab (debounce env st))) = map f (g_devs (d_tab st))"
  by (auto simp: debounce_def Let_def update_traffic_stats_def stats_keeps[OF assms] split: option.split)

lemma offline_keeps:
  assumes "\<And>d. f (d\<lparr>dv_active := False\<rparr>) = f d"
  shows "map f (g_devs (d_tab (offline_check now st))) = map f (g_devs (d_tab st))"
  by (auto simp: offline_check_def Let_def assms)

lemma debounce_names: "map dv_hostname_src (g_devs (d_tab (debounce env st))) = map dv_hostname_src (g_devs (d_tab st))"
  by (rule debounce_keeps) simp

lemma offline_names: "map dv_hostname_src (g_devs (d_tab (offline_check now st))) = map dv_hostname_src (g_devs (d_tab st))"
  by (rule offline_keeps) simp

lemma late_result_ignored:
  assumes "find_device (mr_mac r) (g_devs (d_tab st)) = Some i" and "dv_hostname_src (g_devs (d_tab st) ! i) \<noteq> ''pending''"
  shows "apply_result now r st = st"
  using assms by (simp add: apply_result_def)

lemma find_device_edit:
  assumes "dv_mac e = dv_mac (g ! j)" and "dv_active e = dv_active (g ! j)"
  shows "find_device mac (g[j := e]) = find_device mac g"
proof -
  have "dev_hit mac e = dev_hit mac (g ! j)" using assms by (simp add: dev_hit_def)
  then have m: "map (dev_hit mac) (g[j := e]) = map (dev_hit mac) g" by (rule map_edit_same)
  have "find_index P xs = find_index id (map P xs)" for P :: "Device \<Rightarrow> bool" and xs by (induction xs) simp_all
  then show ?thesis using m by (simp add: find_device_def)
qed

text \<open>
  C40: An mDNS answer that arrives when its device has been pending for a second or more is thrown
  away: a round of the main loop first gives the longest waiting device the name that the chain
  without mDNS finds (and takes it out of the pending state), and only then looks at the answers,
  which it applies to pending devices only.
\<close>

theorem late_mdns_answer_lost:
  assumes "\<not> g_need_scan st" and "worker_ok (dt_worker (d_tab st))" and "results (dt_worker (d_tab st)) = [r]"
    and "find_device (mr_mac r) (g_devs (d_tab st)) = Some i" and "pick_pending (te_now env) (g_devs (d_tab st)) = Some i"
    and "resolve_hostname_dhcp_only (te_io env) (dt_ov (d_tab st)) (dt_cache (d_tab st)) (dv_mac (g_devs (d_tab st) ! i)) HN_LEN 32 = (hn, src, cache')"
  shows "dv_hostname_src (g_devs (d_tab (tick env st)) ! i) = cbuf HN_SRC_LEN src \<and> cbuf HN_SRC_LEN src \<noteq> ''pending'' \<and>
    cbuf HN_SRC_LEN src \<noteq> ''mdns''"
proof -
  define st2 where "st2 = process_pending_mdns (te_io env) st"
  define st3 where "st3 = drain_mdns (te_now env) st2"
  have i: "i < length (g_devs (d_tab st))" using pick_pending_ready[OF assms(5)] by simp
  have src: "cbuf HN_SRC_LEN src \<noteq> ''pending'' \<and> cbuf HN_SRC_LEN src \<noteq> ''mdns''" by (rule dhcp_only_src[OF assms(6)]) simp
  have g2: "g_devs (d_tab st2) = (g_devs (d_tab st))[i := (g_devs (d_tab st) ! i)\<lparr>dv_hostname := cbuf HN_LEN hn, dv_hostname_src := cbuf HN_SRC_LEN src,
      dv_last_resolve := te_now env, dv_pending_since := 0\<rparr>]"
    using assms(5,6) by (simp add: st2_def process_pending_mdns_def Let_def)
  have n2: "dv_hostname_src (g_devs (d_tab st2) ! i) = cbuf HN_SRC_LEN src" using i by (simp add: g2)
  have f2: "find_device (mr_mac r) (g_devs (d_tab st2)) = Some i" unfolding g2 assms(4)[symmetric] by (rule find_device_edit) simp_all
  obtain out wk where d: "hnc_mdns_worker_drain_results (int HNC_MDNS_QUEUE_SIZE) (dt_worker (d_tab st2)) = (out, wk)" by (rule prod.exhaust)
  have w2: "dt_worker (d_tab st2) = dt_worker (d_tab st)" by (simp add: st2_def)
  have "out = take (nat (int HNC_MDNS_QUEUE_SIZE)) (results (dt_worker (d_tab st2)))" using drain_cases[OF _ d] assms(2) unfolding w2 by blast
  then have "out = [r]" unfolding w2 assms(3) by (simp add: HNC_MDNS_QUEUE_SIZE_def)
  then have "g_devs (d_tab st3) = g_devs (d_tab st2)"
    using late_result_ignored[of r "st2\<lparr>d_tab := (d_tab st2)\<lparr>dt_worker := wk\<rparr>\<rparr>" i "te_now env"] f2 n2 src
    by (simp add: st3_def drain_mdns_def d)
  then have m: "map dv_hostname_src (g_devs (d_tab (tick env st))) = map dv_hostname_src (g_devs (d_tab st2))"
    using assms(1) by (simp add: tick_def Let_def st3_def st2_def debounce_names offline_names)
  have "i < length (g_devs (d_tab st2))" "length (g_devs (d_tab (tick env st))) = length (g_devs (d_tab st2))"
    using i map_eq_imp_length_eq[OF m] by (simp_all add: g2)
  then have "dv_hostname_src (g_devs (d_tab (tick env st)) ! i) = cbuf HN_SRC_LEN src" using arg_cong[OF m, of "\<lambda>xs. xs ! i"] n2 by simp
  with src show ?thesis by simp
qed

definition late_state :: "pinned_maps bpf_world daemon" where
  "late_state = (daemon0 demo_sys0 None)\<lparr>g_need_scan := False, d_tab := dtab0\<lparr>g_devs := (replicate MAX_DEVICES dev_zero)[0 :=
       dev_zero\<lparr>dv_mac := ''02:00:00:00:00:01'', dv_active := True, dv_hostname_src := ''pending'', dv_pending_since := 998\<rparr>],
     dt_worker := worker_push_result ''02:00:00:00:00:01'' ''printer'' ''mdns'' True worker_init\<rparr>\<rparr>"

theorem late_mdns_answer_lost_witness:
  "dv_hostname_src (g_devs (d_tab (tick (demo_tick 1000 None) late_state)) ! 0) \<noteq> ''mdns''"
proof -
  let ?m = "''02:00:00:00:00:01''" and ?d = "demo_tick 1000 None"
  have w: "worker_ok (dt_worker (d_tab late_state))"
    "results (dt_worker (d_tab late_state)) = [\<lparr>mr_mac = ?m, mr_hostname = ''printer'', mr_hostname_src = ''mdns'', mr_success = True\<rparr>]"
    by (simp_all add: late_state_def worker_push_result_def worker_init_def worker_ok_def ring_ok_def results_def ring_list_def
        HNC_MDNS_QUEUE_SIZE_def HNC_MDNS_MAC_LEN_def HNC_MDNS_HOSTNAME_LEN_def HNC_MDNS_SRC_LEN_def)
  have f: "find_device ?m (g_devs (d_tab late_state)) = Some 0" by (simp add: late_state_def find_device_def dev_hit_def MAX_DEVICES_def numeral_eq_Suc strcasecmp_eq_def)
  have p: "pick_pending (te_now ?d) (g_devs (d_tab late_state)) = Some 0"
  proof -
    have "te_now ?d = 1000" by (simp add: demo_tick_def)
    moreover have "pick_pending 1000 ((replicate MAX_DEVICES dev_zero)[0 := dev_zero\<lparr>dv_mac := ?m, dv_active := True, dv_hostname_src := ''pending'', dv_pending_since := 998\<rparr>]) = Some 0"
      by code_simp
    ultimately show ?thesis by (simp add: late_state_def)
  qed
  obtain hn src c where r: "resolve_hostname_dhcp_only (te_io ?d) (dt_ov (d_tab late_state)) (dt_cache (d_tab late_state)) (dv_mac (g_devs (d_tab late_state) ! 0)) HN_LEN 32 = (hn, src, c)"
    by (rule prod_cases3)
  show ?thesis using late_mdns_answer_lost[OF _ w _ p r] f by (simp add: late_state_def)
qed


section \<open>The PID file\<close>

lemma read_pid_text:
  assumes "0 < pid" and "pid < 2 ^ 31"
  shows "read_pid (dec_int pid @ [LF]) = Some pid"
proof -
  let ?d = "dec_nat (nat pid)"
  have d: "dec_int pid = ?d" using assms by (simp add: dec_int_def)
  obtain c cs where c: "?d = c # cs" using dec_int_nonempty[of pid] d by (cases ?d) auto
  have "c_isdigit c" using dec_nat_digits[of "nat pid"] c by simp
  then have cc: "\<not> c_isspace c" "c \<noteq> CHR ''-''" "c \<noteq> CHR ''+''" by (auto simp: c_isdigit_def c_isspace_def)
  have s: "scan_dec 0 (?d @ [LF]) = (nat pid, [LF])" by (rule scan_dec_nat_sep) (simp add: c_isdigit_def)
  have "scan_ld (?d @ [LF]) = Some (pid, [LF])"
    using s cc \<open>c_isdigit c\<close> assms by (simp add: scan_ld_def c Let_def clamp_long_id)
  then show ?thesis using assms by (simp add: read_pid_def scan_d_def d c_int_id)
qed

text \<open>
  C32: One instance at a time: while the process named in the PID file lives, a second daemon exits at
  once and leaves the file as it is; otherwise (no file, or a dead owner) the daemon, when \<^verbatim>\<open>write\<close> takes the whole line, enters its own
  number, and a complete run of it removes its own file again; the cleanup never removes the
  file of another instance.
\<close>

theorem pid_file_exclusive:
  assumes "0 < pid" and "pid < 2 ^ 31" and "0 < other" and "other < 2 ^ 31" and "pid \<noteq> other"
    and "length (dec_int pid) < n"
  defines "held \<equiv> Some (dec_int other @ [LF])"
  shows "(alive other \<longrightarrow> hotspotd_main alive created sockets_ok pid adapters be rounds env y json held = (None, held)) \<and>
    (\<forall>f0 \<in> {None, held}. \<not> alive other \<or> f0 = None \<longrightarrow>
       write_pid alive (Some n) pid f0 = (True, Some (dec_int pid @ [LF])) \<and>
       snd (hotspotd_main alive (Some n) sockets_ok pid adapters be rounds env y json f0) = None) \<and>
    cleanup_pid pid held = held"
proof -
  note p = read_pid_text[OF assms(1,2)] read_pid_text[OF assms(3,4)]
  have t: "take n (dec_int pid @ [LF]) = dec_int pid @ [LF]" using assms(6) by simp
  have w: "write_pid alive (Some n) pid f0 = (True, Some (dec_int pid @ [LF]))" if "f0 \<in> {None, held}" "\<not> alive other \<or> f0 = None" for f0
    using assms p t that by (auto simp: write_pid_def Let_def)
  have r: "snd (hotspotd_main alive (Some n) sockets_ok pid adapters be rounds env y json f0) = None" if "f0 \<in> {None, held}" "\<not> alive other \<or> f0 = None" for f0
    using w[OF that] p by (simp add: hotspotd_main_def cleanup_pid_def)
  have l: "alive other \<longrightarrow> hotspotd_main alive created sockets_ok pid adapters be rounds env y json held = (None, held)"
    using assms p by (simp add: hotspotd_main_def write_pid_def Let_def)
  have c: "cleanup_pid pid held = held" using assms p by (simp add: cleanup_pid_def)
  show ?thesis by (intro conjI ballI impI) (simp_all only: w r l c)
qed

theorem pid_file_exclusive_witness:
  "hotspotd_main (\<lambda>p. p = 41) (Some 32) True 42 [] demo_boot_env [] (demo_tick 1000 None) demo_sys0 None (Some (dec_int 41 @ [LF])) =
   (None, Some (dec_int 41 @ [LF]))"
  using pid_file_exclusive[of 42 41 32 "\<lambda>p. p = 41" "Some 32" True "[]" demo_boot_env "[]" "demo_tick 1000 None" demo_sys0 None] length_dec_int[of 42] by simp

end
