(* ===== verification/Launcher.thy ===== *)
theory Launcher
  imports CText
begin

text \<open>
  The supervisor of the DPI daemon, \<^verbatim>\<open>src/launcher/hnc_launcher.c\<close>, and the probe
  \<^verbatim>\<open>src/launcher/fork_probe.c\<close> that decides whether it is used: single-instance check, crash window,
  waiting for the child, and the restart loop with its growing pause.  What the kernel answers
  (\<^verbatim>\<open>fork\<close>, \<^verbatim>\<open>waitpid\<close>, the clock) and when \<^verbatim>\<open>g_shutdown\<close> is seen is the script the loop runs on.
\<close>

definition RESTART_BACKOFF_MIN :: int where "RESTART_BACKOFF_MIN = 2"
definition RESTART_BACKOFF_MAX :: int where "RESTART_BACKOFF_MAX = 30"
definition CRASH_WINDOW_SEC :: int where "CRASH_WINDOW_SEC = 60"
definition CRASH_LIMIT :: nat where "CRASH_LIMIT = 5"

section \<open>PID files\<close>

definition write_pid_file :: "bool \<Rightarrow> int \<Rightarrow> string option \<Rightarrow> int \<times> string option" where
  "write_pid_file open_ok pid old = (if \<not> open_ok then (- 1, old) else (0, Some (dec_int pid @ [LF])))"

definition read_pid_file :: "string option \<Rightarrow> int" where
  "read_pid_file f = (case f of None \<Rightarrow> 0 | Some text \<Rightarrow> (case scan_d text of None \<Rightarrow> 0 | Some (pid, _) \<Rightarrow> pid))"

definition pid_alive :: "(int \<Rightarrow> bool) \<Rightarrow> int \<Rightarrow> bool" where
  "pid_alive kill0 pid \<longleftrightarrow> pid > 0 \<and> kill0 pid"

definition check_singleton :: "(int \<Rightarrow> bool) \<Rightarrow> bool \<Rightarrow> int \<Rightarrow> string option \<Rightarrow> int \<times> string option" where
  "check_singleton kill0 open_ok self guard =
     (let existing = read_pid_file guard in
      if existing > 0 \<and> existing \<noteq> self \<and> pid_alive kill0 existing then (- 1, guard)
      else case write_pid_file open_ok self guard of (rc, guard') \<Rightarrow> if rc < 0 then (- 1, guard') else (0, guard'))"

section \<open>The crash window\<close>

record crash_tracker =
  timestamps :: "time_t list"
  ct_count :: nat

definition crash_tracker_init :: crash_tracker where
  "crash_tracker_init = \<lparr>timestamps = replicate CRASH_LIMIT 0, ct_count = 0\<rparr>"

definition crash_tracker_record :: "time_t \<Rightarrow> crash_tracker \<Rightarrow> bool \<times> crash_tracker" where
  "crash_tracker_record now t =
     (let recent = length (filter (\<lambda>i. now - timestamps t ! i \<le> CRASH_WINDOW_SEC) [0..<ct_count t]);
          t' = (if ct_count t < CRASH_LIMIT
                then t\<lparr>timestamps := (timestamps t)[ct_count t := now], ct_count := ct_count t + 1\<rparr>
                else t\<lparr>timestamps := (map (\<lambda>i. timestamps t ! (i + 1)) [0..<CRASH_LIMIT - 1]) @ [now]\<rparr>)
      in (recent + 1 \<ge> CRASH_LIMIT, t'))"

definition write_crash_flag :: "bool \<Rightarrow> time_t \<Rightarrow> string option \<Rightarrow> string option" where
  "write_crash_flag open_ok now old = (if open_ok then Some (dec_int now @ [LF]) else old)"

section \<open>Waiting for the child\<close>

datatype wait_status = Exited_with int | Killed_by int | Other_status

text \<open>One return of \<^verbatim>\<open>waitpid\<close>: interrupted (with the value of \<^verbatim>\<open>g_shutdown\<close> then), failed, or the child's status.\<close>

datatype waitpid_ret = Wp_eintr bool | Wp_error | Wp_status wait_status

text \<open>
  The verdict (0 clean, 1 abnormal, -1 error) with the exit code and the signal, and whether the
  child has been reaped; \<^const>\<open>None\<close> while \<^verbatim>\<open>waitpid\<close> has not returned.
\<close>

fun wait_dpid :: "waitpid_ret list \<Rightarrow> (int \<times> int \<times> int \<times> bool) option" where
  "wait_dpid [] = None"
| "wait_dpid (Wp_eintr shutdown # ws) = (if shutdown then Some (- 1, 0, 0, False) else wait_dpid ws)"
| "wait_dpid (Wp_error # ws) = Some (- 1, 0, 0, False)"
| "wait_dpid (Wp_status s # ws) =
     Some (case s of
       Exited_with rc \<Rightarrow> (if rc = 0 then (0, rc, 0, True) else (1, rc, 0, True))
     | Killed_by signum \<Rightarrow> (1, 0, signum, True)
     | Other_status \<Rightarrow> (1, 0, 0, True))"

section \<open>The restart loop\<close>

text \<open>
  One turn of the loop: \<^verbatim>\<open>g_shutdown\<close> at its head, the child's number if \<^verbatim>\<open>fork\<close> worked, what
  \<^verbatim>\<open>waitpid\<close> returned, \<^verbatim>\<open>g_shutdown\<close> at the second test, the time at which a crash is recorded, and
  whether the PID file of the child and the crash flag can be written.
\<close>

record turn =
  tn_stop0 :: bool
  tn_fork :: "int option"
  tn_wait :: "waitpid_ret list"
  tn_stop1 :: bool
  tn_now :: time_t
  tn_pid_ok :: bool
  tn_flag_ok :: bool

record supervisor =
  crashes :: crash_tracker
  backoff :: int
  child_pid :: int
  pid_dpid :: "string option"
  crash_flag :: "string option"
  sleeps :: "int list"

definition supervisor0 :: "string option \<Rightarrow> supervisor" where
  "supervisor0 pf = \<lparr>crashes = crash_tracker_init, backoff = RESTART_BACKOFF_MIN, child_pid = 0, pid_dpid = pf, crash_flag = None, sleeps = []\<rparr>"

definition pause_longer :: "supervisor \<Rightarrow> supervisor" where
  "pause_longer s = s\<lparr>sleeps := sleeps s @ [backoff s], backoff := (if backoff s < RESTART_BACKOFF_MAX then backoff s * 2 else backoff s)\<rparr>"

definition spawn_dpid :: "bool \<Rightarrow> int option \<Rightarrow> supervisor \<Rightarrow> int \<times> supervisor" where
  "spawn_dpid pid_ok forked s =
     (case forked of
        None \<Rightarrow> (- 1, s)
      | Some pid \<Rightarrow> (pid, s\<lparr>pid_dpid := snd (write_pid_file pid_ok pid (pid_dpid s)), child_pid := pid\<rparr>))"

text \<open>After the loop was left by \<^verbatim>\<open>break\<close> or by the shutdown flag.\<close>

definition leave_loop :: "supervisor \<Rightarrow> supervisor" where
  "leave_loop s = (if child_pid s > 0 then s\<lparr>pid_dpid := None\<rparr> else s)"

text \<open>What one turn ends with.\<close>

datatype turn_end = Again supervisor | Leave supervisor | Crash_loop supervisor | Waiting supervisor

definition supervise_turn :: "turn \<Rightarrow> supervisor \<Rightarrow> turn_end" where
  "supervise_turn tn s =
     (if tn_stop0 tn then Leave s
      else case spawn_dpid (tn_pid_ok tn) (tn_fork tn) s of (pid, s1) \<Rightarrow>
        if pid < 0 then (if tn_stop1 tn then Leave s1 else Again (pause_longer s1))
        else case wait_dpid (tn_wait tn) of
          None \<Rightarrow> Waiting s1
        | Some (abnormal, rc, signum, reaped) \<Rightarrow>
            (let s2 = (if reaped then s1\<lparr>child_pid := 0, pid_dpid := None\<rparr> else s1) in
             if abnormal < 0 then Leave s2
             else if tn_stop1 tn then Leave s2
             else if abnormal = 0 then Leave s2
             else case crash_tracker_record (tn_now tn) (crashes s2) of (tripped, c) \<Rightarrow>
               (let s3 = s2\<lparr>crashes := c\<rparr> in
                if tripped then Crash_loop (s3\<lparr>crash_flag := write_crash_flag (tn_flag_ok tn) (tn_now tn) (crash_flag s3)\<rparr>)
                else Again (pause_longer s3))))"

text \<open>The loop on a script of turns: its return value, \<^const>\<open>None\<close> while it has not returned.\<close>

fun run_supervise_loop :: "turn list \<Rightarrow> supervisor \<Rightarrow> int option \<times> supervisor" where
  "run_supervise_loop [] s = (None, s)"
| "run_supervise_loop (tn # tns) s =
     (case supervise_turn tn s of
        Again s' \<Rightarrow> run_supervise_loop tns s'
      | Leave s' \<Rightarrow> (Some 0, leave_loop s')
      | Crash_loop s' \<Rightarrow> (Some 1, s')
      | Waiting s' \<Rightarrow> (None, s'))"

text \<open>The arguments: the exit code of a run that only prints something, \<^const>\<open>None\<close> when the supervisor starts.\<close>

definition launcher_args :: "string list \<Rightarrow> int option" where
  "launcher_args args =
     (case args of
        [] \<Rightarrow> None
      | a # _ \<Rightarrow> Some (if a = ''--version'' then 0 else if a = ''--help'' \<or> a = ''-h'' then 0 else 2))"

text \<open>
  The program: the return value, the supervisor and the guard file.  \<open>flag\<close> is the crash flag
  file, \<open>stops\<close> what \<^verbatim>\<open>g_shutdown\<close> is after each \<^verbatim>\<open>pause\<close> of the observe mode.
\<close>

definition launcher_main ::
  "string list \<Rightarrow> (int \<Rightarrow> bool) \<Rightarrow> bool \<Rightarrow> bool \<Rightarrow> int \<Rightarrow> string option \<Rightarrow> bool list \<Rightarrow> turn list \<Rightarrow> supervisor \<Rightarrow> string option \<Rightarrow> int option \<times> supervisor \<times> string option" where
  "launcher_main args kill0 open_ok handlers_ok self flag stops turns s guard =
     (case launcher_args args of
        Some rc \<Rightarrow> (Some rc, s, guard)
      | None \<Rightarrow>
     (case check_singleton kill0 open_ok self guard of (rc, guard') \<Rightarrow>
        if rc < 0 then (Some 1, s, guard')
        else if flag \<noteq> None then (if True \<in> set stops then Some 0 else None, s, guard')
        else if \<not> handlers_ok then (Some 1, s, guard')
        else case run_supervise_loop turns s of (r, s') \<Rightarrow> (r, s', guard')))"

section \<open>The probe\<close>

definition EXIT_EXECV_FAIL :: int where "EXIT_EXECV_FAIL = 111"

text \<open>The exit code of the probe: \<open>args\<close> are its arguments, \<open>wait\<close> the status of the child if it could be awaited.\<close>

definition fork_probe_main :: "string list \<Rightarrow> bool \<Rightarrow> wait_status option \<Rightarrow> int" where
  "fork_probe_main args fork_ok wait =
     (if args = [] then 2
      else if \<not> fork_ok then 1
      else case wait of
        None \<Rightarrow> 1
      | Some (Exited_with rc) \<Rightarrow> if rc = 0 then 0 else if rc = EXIT_EXECV_FAIL then 1 else 0
      | Some (Killed_by _) \<Rightarrow> 1
      | Some Other_status \<Rightarrow> 1)"

section \<open>The crash window against its specification\<close>

text \<open>The crashes of a history that lie within the window before \<open>now\<close>.\<close>

definition in_window :: "time_t \<Rightarrow> time_t list \<Rightarrow> nat" where
  "in_window now H = length (filter (\<lambda>x. now - x \<le> CRASH_WINDOW_SEC) H)"

text \<open>The tracker holds the last five crashes of the history.\<close>

definition tracks :: "crash_tracker \<Rightarrow> time_t list \<Rightarrow> bool" where
  "tracks t H \<longleftrightarrow> length (timestamps t) = CRASH_LIMIT \<and> ct_count t = min CRASH_LIMIT (length H) \<and>
     take (ct_count t) (timestamps t) = drop (length H - CRASH_LIMIT) H"

lemma tracks_init: "tracks crash_tracker_init []"
  by (simp add: tracks_def crash_tracker_init_def)

lemma filter_nth: "n \<le> length xs \<Longrightarrow> length (filter (\<lambda>i. P (xs ! i)) [0..<n]) = length (filter P (take n xs))"
proof (induction n)
  case (Suc n)
  then show ?case by (simp add: take_Suc_conv_app_nth)
qed simp

lemma window_suffix:
  assumes "sorted H" and "k \<le> length H"
  shows "in_window now H = in_window now (drop k H) \<or> in_window now (drop k H) = length H - k \<and> length H - k \<le> in_window now H"
proof -
  let ?P = "\<lambda>x. now - x \<le> CRASH_WINDOW_SEC"
  have split: "in_window now H = length (filter ?P (take k H)) + in_window now (drop k H)"
    unfolding in_window_def by (metis append_take_drop_id filter_append length_append)
  show ?thesis
  proof (cases "filter ?P (take k H) = []")
    case False
    then obtain x where x: "x \<in> set (take k H)" "?P x" by (auto simp: filter_empty_conv)
    have "x \<le> y" if "y \<in> set (drop k H)" for y
      using assms(1) x(1) that by (metis append_take_drop_id sorted_append)
    then have "filter ?P (drop k H) = drop k H" using x(2) by (intro filter_True) fastforce
    then show ?thesis using split by (simp add: in_window_def)
  qed (use split in simp)
qed

lemma map_shift: "length xs = Suc n \<Longrightarrow> map (\<lambda>i. xs ! (i + 1)) [0..<n] = tl xs"
  by (intro nth_equalityI) (simp_all add: nth_tl)

lemma record_tracks:
  assumes "tracks t H"
  shows "tracks (snd (crash_tracker_record now t)) (H @ [now])"
proof (cases "length H < CRASH_LIMIT")
  case True
  then have "ct_count t = length H" "take (length H) (timestamps t) = H" "length (timestamps t) = CRASH_LIMIT"
    using assms by (auto simp: tracks_def)
  with True show ?thesis by (simp add: crash_tracker_record_def Let_def tracks_def take_Suc_conv_app_nth)
next
  case False
  then have c: "ct_count t = CRASH_LIMIT" "timestamps t = drop (length H - CRASH_LIMIT) H" "length (timestamps t) = Suc 4"
    using assms by (auto simp: tracks_def CRASH_LIMIT_def)
  have "CRASH_LIMIT - 1 = 4" by (simp add: CRASH_LIMIT_def)
  then have "timestamps (snd (crash_tracker_record now t)) = tl (timestamps t) @ [now]" "ct_count (snd (crash_tracker_record now t)) = CRASH_LIMIT"
    using c map_shift[OF c(3)] by (simp_all add: crash_tracker_record_def Let_def)
  moreover have "tl (drop (length H - CRASH_LIMIT) H) = drop (Suc (length H) - CRASH_LIMIT) H"
    using False by (simp add: drop_Suc[symmetric] tl_drop Suc_diff_le)
  ultimately show ?thesis using False c(2,3) by (simp add: tracks_def CRASH_LIMIT_def)
qed

lemma record_verdict:
  assumes "tracks t H" and "sorted H"
  shows "fst (crash_tracker_record now t) \<longleftrightarrow> CRASH_LIMIT \<le> in_window now (H @ [now])"
proof -
  have c: "ct_count t \<le> length (timestamps t)" and tk: "take (ct_count t) (timestamps t) = drop (length H - CRASH_LIMIT) H"
    using assms(1) unfolding tracks_def by auto
  have f: "fst (crash_tracker_record now t) \<longleftrightarrow> CRASH_LIMIT \<le> Suc (in_window now (drop (length H - CRASH_LIMIT) H))"
    using filter_nth[OF c, of "\<lambda>x. now - x \<le> CRASH_WINDOW_SEC"] unfolding tk by (simp add: crash_tracker_record_def Let_def in_window_def)
  have w: "in_window now (H @ [now]) = Suc (in_window now H)" by (simp add: in_window_def CRASH_WINDOW_SEC_def)
  have ab: "in_window now H = in_window now (drop (length H - CRASH_LIMIT) H) \<or>
     CRASH_LIMIT \<le> in_window now (drop (length H - CRASH_LIMIT) H) \<and> CRASH_LIMIT \<le> in_window now H"
  proof (cases "length H < CRASH_LIMIT")
    case False
    then have "length H - (length H - CRASH_LIMIT) = CRASH_LIMIT" "length H - CRASH_LIMIT \<le> length H" by simp_all
    with window_suffix[OF assms(2), of "length H - CRASH_LIMIT" now] show ?thesis by (metis order_refl)
  qed simp
  show ?thesis unfolding f w using ab by (metis le_SucI)
qed

section \<open>Properties of the restart loop\<close>

definition crash_turn :: "turn \<Rightarrow> bool" where
  "crash_turn tn \<longleftrightarrow> \<not> tn_stop0 tn \<and> \<not> tn_stop1 tn \<and> (\<exists>pid. tn_fork tn = Some pid \<and> 0 \<le> pid) \<and>
     (case wait_dpid (tn_wait tn) of Some (v, _, _, _) \<Rightarrow> v = 1 | None \<Rightarrow> False)"

definition fork_failed :: "turn \<Rightarrow> bool" where
  "fork_failed tn \<longleftrightarrow> \<not> tn_stop0 tn \<and> \<not> tn_stop1 tn \<and> tn_fork tn = None"

text \<open>The first crash at which the window is full, counted from the end of an earlier history.\<close>

definition trips :: "time_t list \<Rightarrow> time_t list \<Rightarrow> bool" where
  "trips H0 H \<longleftrightarrow> (\<exists>k < length H. CRASH_LIMIT \<le> in_window (H ! k) (H0 @ take (Suc k) H))"

lemma trips_Cons: "trips H0 (t # H) \<longleftrightarrow> CRASH_LIMIT \<le> in_window t (H0 @ [t]) \<or> trips (H0 @ [t]) H"
  unfolding trips_def by (auto simp: Ex_less_Suc2)

lemma crash_turn_step:
  assumes "crash_turn tn" and "crash_tracker_record (tn_now tn) (crashes s) = (tripped, c)"
  shows "\<exists>s'. supervise_turn tn s = (if tripped then Crash_loop (s'\<lparr>crash_flag := write_crash_flag (tn_flag_ok tn) (tn_now tn) (crash_flag s')\<rparr>) else Again (pause_longer s')) \<and>
    crashes s' = c \<and> backoff s' = backoff s \<and> sleeps s' = sleeps s \<and> crash_flag s' = crash_flag s"
proof -
  obtain pid where p: "tn_fork tn = Some pid" "0 \<le> pid" using assms(1) by (auto simp: crash_turn_def)
  obtain rc sg b where w: "wait_dpid (tn_wait tn) = Some (1, rc, sg, b)"
    using assms(1) by (auto simp: crash_turn_def split: option.splits prod.splits)
  define s1 where "s1 = s\<lparr>pid_dpid := snd (write_pid_file (tn_pid_ok tn) pid (pid_dpid s)), child_pid := pid\<rparr>"
  define s' where "s' = (if b then s1\<lparr>child_pid := 0, pid_dpid := None\<rparr> else s1)\<lparr>crashes := c\<rparr>"
  have "supervise_turn tn s = (if tripped then Crash_loop (s'\<lparr>crash_flag := write_crash_flag (tn_flag_ok tn) (tn_now tn) (crash_flag s')\<rparr>) else Again (pause_longer s'))"
    using assms p w by (simp add: supervise_turn_def spawn_dpid_def crash_turn_def Let_def s'_def s1_def)
  moreover have "crashes s' = c \<and> backoff s' = backoff s \<and> sleeps s' = sleeps s \<and> crash_flag s' = crash_flag s" by (simp add: s'_def s1_def)
  ultimately show ?thesis by blast
qed

lemma fork_failed_step: "fork_failed tn \<Longrightarrow> supervise_turn tn s = Again (pause_longer s)"
  by (simp add: supervise_turn_def spawn_dpid_def fork_failed_def)

lemma pause_longer_fields [simp]: "crashes (pause_longer s) = crashes s" "crash_flag (pause_longer s) = crash_flag s"
  "sleeps (pause_longer s) = sleeps s @ [backoff s]"
  "backoff (pause_longer s) = (if backoff s < RESTART_BACKOFF_MAX then backoff s * 2 else backoff s)"
  by (simp_all add: pause_longer_def)

lemma loop_trips:
  assumes "list_all (\<lambda>tn. crash_turn tn \<or> fork_failed tn) tns" and "tracks (crashes s) H0"
    and "sorted (H0 @ map tn_now (filter crash_turn tns))" and "crash_flag s = None"
    and "run_supervise_loop tns s = (r, s')"
  shows "r = (if trips H0 (map tn_now (filter crash_turn tns)) then Some 1 else None) \<and> (list_all tn_flag_ok tns \<longrightarrow> (crash_flag s' \<noteq> None \<longleftrightarrow> r = Some 1))"
  using assms
proof (induction tns arbitrary: s H0)
  case Nil
  then show ?case by (auto simp: trips_def)
next
  case (Cons tn tns)
  show ?case
  proof (cases "crash_turn tn")
    case True
    obtain tripped c where c: "crash_tracker_record (tn_now tn) (crashes s) = (tripped, c)" by (rule prod.exhaust)
    from crash_turn_step[OF True c] obtain s1 where s1: "supervise_turn tn s = (if tripped then Crash_loop (s1\<lparr>crash_flag := write_crash_flag (tn_flag_ok tn) (tn_now tn) (crash_flag s1)\<rparr>) else Again (pause_longer s1))"
      "crashes s1 = c" "crash_flag s1 = crash_flag s" by blast
    have so: "sorted H0" using Cons.prems(3) sorted_append by blast
    have v: "tripped \<longleftrightarrow> CRASH_LIMIT \<le> in_window (tn_now tn) (H0 @ [tn_now tn])" using record_verdict[OF Cons.prems(2) so, of "tn_now tn"] c by simp
    have tr: "tracks (crashes (pause_longer s1)) (H0 @ [tn_now tn])" using record_tracks[OF Cons.prems(2), of "tn_now tn"] c s1(2) by simp
    show ?thesis
    proof (cases tripped)
      case True
      then show ?thesis using Cons.prems s1 v \<open>crash_turn tn\<close> by (auto simp: trips_Cons write_crash_flag_def)
    next
      case False
      have "sorted ((H0 @ [tn_now tn]) @ map tn_now (filter crash_turn tns))" using Cons.prems(3) True by simp
      from Cons.IH[OF _ tr this, of ] show ?thesis using Cons.prems s1 v False True by (simp add: trips_Cons)
    qed
  next
    case False
    then have f: "supervise_turn tn s = Again (pause_longer s)" using Cons.prems(1) by (simp add: fork_failed_step)
    have "tracks (crashes (pause_longer s)) H0" using Cons.prems(2) by simp
    from Cons.IH[OF _ this] show ?thesis using Cons.prems f False by simp
  qed
qed

text \<open>
  C18: The restart loop gives up exactly when the specification of its crash protection says so: on a
  script of turns in which the child crashes or cannot be forked, with a clock that does not go
  back, it returns 1 (and writes the crash flag, if it can) if and only if at some crash five crashes of the
  whole history (this one included) lie within the last 60 seconds, although it remembers five
  times only; otherwise it is still restarting.
\<close>

theorem crash_loop_detected:
  assumes "list_all (\<lambda>tn. crash_turn tn \<or> fork_failed tn) tns" and "sorted (map tn_now (filter crash_turn tns))"
    and "run_supervise_loop tns (supervisor0 pf) = (r, s')"
  shows "(r = Some 1 \<longleftrightarrow> (\<exists>k < length (filter crash_turn tns).
      5 \<le> in_window (map tn_now (filter crash_turn tns) ! k) (take (Suc k) (map tn_now (filter crash_turn tns))))) \<and>
    r \<in> {None, Some 1} \<and> (list_all tn_flag_ok tns \<longrightarrow> (crash_flag s' \<noteq> None \<longleftrightarrow> r = Some 1))"
proof -
  have "tracks (crashes (supervisor0 pf)) []" by (simp add: supervisor0_def tracks_init)
  from loop_trips[OF assms(1) this _ _ assms(3)] assms(2) show ?thesis
    by (auto simp: supervisor0_def trips_def CRASH_LIMIT_def)
qed

definition crash_at :: "time_t \<Rightarrow> turn" where
  "crash_at t = \<lparr>tn_stop0 = False, tn_fork = Some 100, tn_wait = [Wp_status (Killed_by 11)], tn_stop1 = False, tn_now = t, tn_pid_ok = True, tn_flag_ok = True\<rparr>"

lemma crash_turn_at [simp]: "crash_turn (crash_at t)" "tn_now (crash_at t) = t"
  by (simp_all add: crash_turn_def crash_at_def)

theorem crash_loop_detected_witness:
  "fst (run_supervise_loop (map crash_at [0, 2, 6, 14, 30]) (supervisor0 None)) = Some 1"
proof -
  have "5 \<le> in_window 30 [0, 2, 6, 14, 30]" by (simp add: in_window_def CRASH_WINDOW_SEC_def)
  then have "\<exists>k < length [0, 2, 6, 14, 30 :: int]. 5 \<le> in_window ([0, 2, 6, 14, 30] ! k) (take (Suc k) [0, 2, 6, 14, 30])"
    by (intro exI[of _ 4]) simp
  with crash_loop_detected[of "map crash_at [0, 2, 6, 14, 30]" None "fst (run_supervise_loop (map crash_at [0, 2, 6, 14, 30]) (supervisor0 None))"
      "snd (run_supervise_loop (map crash_at [0, 2, 6, 14, 30]) (supervisor0 None))"]
  show ?thesis by simp
qed

section \<open>The pauses\<close>

definition pause_of :: "nat \<Rightarrow> int" where
  "pause_of n = (if n < 4 then 2 ^ Suc n else 32)"

lemma pause_step: "(if pause_of n < RESTART_BACKOFF_MAX then pause_of n * 2 else pause_of n) = pause_of (Suc n)"
proof -
  consider "n < 3" | "n = 3" | "4 \<le> n" by linarith
  then show ?thesis
  proof cases
    case 1
    then have "n = 0 \<or> n = 1 \<or> n = 2" by auto
    then show ?thesis by (auto simp: pause_of_def RESTART_BACKOFF_MAX_def)
  qed (simp_all add: pause_of_def RESTART_BACKOFF_MAX_def)
qed

lemma loop_pauses:
  assumes "list_all (\<lambda>tn. crash_turn tn \<or> fork_failed tn) tns" and "backoff s = pause_of n"
    and "run_supervise_loop tns s = (r, s')"
  shows "\<exists>m \<le> length tns. sleeps s' = sleeps s @ map pause_of [n..<n + m] \<and> (r = None \<longrightarrow> m = length tns)"
  using assms
proof (induction tns arbitrary: s n)
  case (Cons tn tns)
  have again: ?case if a: "supervise_turn tn s = Again (pause_longer s1)" "backoff s1 = backoff s" "sleeps s1 = sleeps s" for s1
  proof -
    have b: "backoff (pause_longer s1) = pause_of (Suc n)" using a(2) Cons.prems(2) pause_step[of n] by (simp only: pause_longer_fields)
    have "run_supervise_loop tns (pause_longer s1) = (r, s')" using Cons.prems(3) a(1) by simp
    from Cons.IH[OF _ b this] Cons.prems(1) obtain m where
      m: "m \<le> length tns" "sleeps s' = sleeps (pause_longer s1) @ map pause_of [Suc n..<Suc n + m]" "r = None \<longrightarrow> m = length tns" by auto
    then have "sleeps s' = sleeps s @ map pause_of [n..<n + Suc m]" using a Cons.prems(2) by (simp add: upt_conv_Cons del: upt_Suc)
    then show ?thesis using m by (intro exI[of _ "Suc m"]) simp
  qed
  show ?case
  proof (cases "crash_turn tn")
    case True
    obtain tripped c where c: "crash_tracker_record (tn_now tn) (crashes s) = (tripped, c)" by (rule prod.exhaust)
    from crash_turn_step[OF True c] obtain s1 where s1: "supervise_turn tn s = (if tripped then Crash_loop (s1\<lparr>crash_flag := write_crash_flag (tn_flag_ok tn) (tn_now tn) (crash_flag s1)\<rparr>) else Again (pause_longer s1))"
      "backoff s1 = backoff s" "sleeps s1 = sleeps s" by blast
    show ?thesis using again[of s1] s1 Cons.prems(3) by (cases tripped) auto
  next
    case False
    then show ?thesis using again[of s] Cons.prems(1) by (simp add: fork_failed_step)
  qed
qed simp

text \<open>The crash times of a script are paced when each restart waits for its pause.\<close>

definition paced :: "time_t list \<Rightarrow> bool" where
  "paced H \<longleftrightarrow> (\<forall>i. Suc i < length H \<longrightarrow> H ! i + pause_of i \<le> H ! Suc i)"

lemma pause_pos: "0 < pause_of n"
  by (simp add: pause_of_def)

lemma paced_sorted: "paced H \<Longrightarrow> sorted H"
  unfolding paced_def sorted_iff_nth_Suc using pause_pos by (metis add_increasing2 less_imp_le order.trans order_refl)

lemma paced_late:
  assumes "paced H" and "k < length H" and "6 \<le> k"
  shows "in_window (H ! k) (take (Suc k) H) < 5"
proof -
  obtain j where j: "k = Suc (Suc (Suc (Suc j)))" "2 \<le> j" using assms(3) by (intro that[of "k - 4"]) simp_all
  have p: "H ! i + pause_of i \<le> H ! Suc i" if "i < k" for i using assms(1,2) that by (simp add: paced_def)
  have "8 \<le> pause_of j" "16 \<le> pause_of (Suc j)" "32 \<le> pause_of (Suc (Suc j))" "32 \<le> pause_of (Suc (Suc (Suc j)))"
    using j(2) by (auto simp: pause_of_def less_Suc_eq numeral_eq_Suc)
  then have far: "H ! j + 88 \<le> H ! k" using p[of j] p[of "Suc j"] p[of "Suc (Suc j)"] p[of "Suc (Suc (Suc j))"] j(1) by simp
  have m: "H ! i \<le> H ! j" if "i \<le> j" for i using paced_sorted[OF assms(1)] that j assms(2) by (intro sorted_nth_mono) simp_all
  have "\<not> H ! k - x \<le> CRASH_WINDOW_SEC" if x: "x \<in> set (take (Suc j) H)" for x
  proof -
    obtain i where "i \<le> j" "x = H ! i" using x by (auto simp: in_set_conv_nth less_Suc_eq_le)
    then show ?thesis using m[of i] far by (simp add: CRASH_WINDOW_SEC_def)
  qed
  then have "filter (\<lambda>x. H ! k - x \<le> CRASH_WINDOW_SEC) (take (Suc j) H) = []" by (simp add: filter_empty_conv)
  moreover have "take (Suc k) H = take (Suc j) H @ take 4 (drop (Suc j) H)" unfolding j(1) by (simp add: take_add[symmetric] numeral_eq_Suc)
  ultimately have "in_window (H ! k) (take (Suc k) H) \<le> length (take 4 (drop (Suc j) H))" by (simp only: in_window_def filter_append append_Nil length_filter_le)
  also have "\<dots> \<le> 4" by simp
  finally show ?thesis by simp
qed

text \<open>
  C37: The pauses between restarts are 2, 4, 8, 16 and then always 32 seconds, beyond the limit of 30 that
  the constant names, and they are never reset.  So crashes further apart than that cannot fill
  the window any more: if the first six crashes have not stopped the loop, no later crash ever
  does, and a child that always crashes is restarted for ever.
\<close>

theorem late_crash_loop_unbounded:
  assumes "list_all crash_turn tns" and "paced (map tn_now tns)"
    and "\<forall>k < 6. k < length tns \<longrightarrow> in_window (map tn_now tns ! k) (take (Suc k) (map tn_now tns)) < 5"
  shows "fst (run_supervise_loop tns (supervisor0 pf)) = None \<and>
    sleeps (snd (run_supervise_loop tns (supervisor0 pf))) = map (\<lambda>n. if n < 4 then 2 ^ Suc n else 32) [0..<length tns]"
proof -
  let ?H = "map tn_now tns"
  obtain r s' where run: "run_supervise_loop tns (supervisor0 pf) = (r, s')" by (rule prod.exhaust)
  have c: "list_all (\<lambda>tn. crash_turn tn \<or> fork_failed tn) tns" "filter crash_turn tns = tns" using assms(1) by (auto simp: list_all_iff)
  have t: "tracks (crashes (supervisor0 pf)) []" by (simp add: supervisor0_def tracks_init)
  have "in_window (?H ! k) (take (Suc k) ?H) < 5" if "k < length ?H" for k
    using assms(3) paced_late[OF assms(2) that] that by (cases "k < 6") auto
  then have "\<not> trips [] ?H" by (auto simp: trips_def CRASH_LIMIT_def not_le)
  then have r: "r = None" using loop_trips[OF c(1) t _ _ run] paced_sorted[OF assms(2)] c(2) by (simp add: supervisor0_def)
  have b: "backoff (supervisor0 pf) = pause_of 0" by (simp add: supervisor0_def pause_of_def RESTART_BACKOFF_MIN_def)
  from loop_pauses[OF c(1) b run] r have "sleeps s' = map pause_of [0..<length tns]" by (auto simp: supervisor0_def)
  then show ?thesis using r run by (simp add: pause_of_def)
qed

theorem late_crash_loop_unbounded_witness:
  "fst (run_supervise_loop (map crash_at [10, 22, 36, 54, 80, 122, 164]) (supervisor0 None)) = None"
proof -
  let ?H = "[10, 22, 36, 54, 80, 122, 164] :: int list"
  have H: "map tn_now (map crash_at ?H) = ?H" by simp
  have "paced ?H" unfolding paced_def by (auto simp: less_Suc_eq nth_Cons' pause_of_def)
  moreover have "\<forall>k < 6. k < length ?H \<longrightarrow> in_window (?H ! k) (take (Suc k) ?H) < 5"
    by (auto simp: less_Suc_eq numeral_eq_Suc in_window_def CRASH_WINDOW_SEC_def)
  ultimately show ?thesis using late_crash_loop_unbounded[of "map crash_at ?H" None] H by simp
qed

section \<open>The program\<close>

text \<open>
  While the launcher named in the guard file lives, a second one returns 1 and changes nothing; and
  as long as the crash flag is there, a launcher starts no child, whatever the script of turns is.
\<close>

lemma second_launcher_refused:
  assumes "read_pid_file guard = other" and "0 < other" and "other \<noteq> self" and "kill0 other"
  shows "launcher_main [] kill0 open_ok handlers_ok self flag stops turns s guard = (Some 1, s, guard)"
  using assms by (simp add: launcher_main_def launcher_args_def check_singleton_def pid_alive_def Let_def)

lemma crash_flag_observed:
  "flag \<noteq> None \<Longrightarrow> fst (snd (launcher_main args kill0 open_ok handlers_ok self flag stops turns s guard)) = s"
  by (simp add: launcher_main_def split: option.split prod.split)

end
