(* ===== verification/JsonTool.thy ===== *)
theory JsonTool
  imports CText
begin

text \<open>
  The JSON editor \<^verbatim>\<open>daemon/hotspotd/tools/hnc_json.c\<close> that the shell scripts use on the rule, token and
  name files.  A file is an optional text; pointers into the text are its suffixes; \<open>w_ok\<close> says
  whether the temporary file can be written and renamed.  Memory is taken to suffice.
\<close>

section \<open>Text\<close>

fun strrchr :: "char \<Rightarrow> string \<Rightarrow> string option" where
  "strrchr d [] = None"
| "strrchr d (c # cs) = (case strrchr d cs of Some t \<Rightarrow> Some t | None \<Rightarrow> if c = d then Some (c # cs) else None)"

text \<open>The text before a suffix.\<close>

definition before :: "string \<Rightarrow> string \<Rightarrow> string" where
  "before s p = take (length s - length p) s"

definition read_file :: "string option \<Rightarrow> string option" where
  "read_file f = map_option cstr f"

definition write_file :: "bool \<Rightarrow> string \<Rightarrow> string option \<Rightarrow> int \<times> string option" where
  "write_file w_ok s f = (if w_ok then (0, Some (s @ [LF])) else (1, f))"

section \<open>The structural check\<close>

text \<open>One character of the check: in a string, after a backslash, depth, something seen; \<^const>\<open>None\<close> is the early rejection.\<close>

type_synonym vstate = "bool \<times> bool \<times> int \<times> bool"

definition valid_step :: "char \<Rightarrow> vstate \<Rightarrow> vstate option" where
  "valid_step c = (\<lambda>(ins, esc, dep, seen).
     if ins then
       (if esc then Some (True, False, dep, seen)
        else if c = BSL then Some (True, True, dep, seen)
        else if c = DQ then Some (False, False, dep, seen)
        else if ord c < (32 :: nat) then None
        else Some (True, False, dep, seen))
     else if c_isspace c then Some (False, esc, dep, seen)
     else if c = DQ then Some (True, esc, dep, True)
     else if c = CHR ''{'' \<or> c = CHR ''['' then Some (False, esc, dep + 1, True)
     else if c = CHR ''}'' \<or> c = CHR '']'' then (if dep - 1 < 0 then None else Some (False, esc, dep - 1, True))
     else Some (False, esc, dep, True))"

fun valid_run :: "string \<Rightarrow> vstate \<Rightarrow> vstate option" where
  "valid_run [] st = Some st"
| "valid_run (c # cs) st = (case valid_step c st of None \<Rightarrow> None | Some st' \<Rightarrow> valid_run cs st')"

definition valid_json :: "string \<Rightarrow> int" where
  "valid_json s =
     (case valid_run s (False, False, 0, False) of
        None \<Rightarrow> 1
      | Some (ins, esc, dep, seen) \<Rightarrow> if \<not> seen \<or> ins \<or> esc \<or> dep \<noteq> 0 then 1 else 0)"

section \<open>Literals\<close>

fun esc_loop :: "string \<Rightarrow> string" where
  "esc_loop [] = []"
| "esc_loop (c # cs) =
     (if c = BSL \<or> c = DQ then [BSL, c] else if 32 \<le> ord c then [c] else []) @ esc_loop cs"

definition escstr :: "string \<Rightarrow> string" where
  "escstr v = [DQ] @ esc_loop v @ [DQ]"

definition literal :: "string \<Rightarrow> string \<Rightarrow> string option" where
  "literal v t =
     (if t = ''str'' \<or> t = ''string'' then Some (escstr v)
      else if t = ''bool'' \<or> t = ''boolean'' then (if v = ''true'' \<or> v = ''false'' then Some v else None)
      else if t = ''null'' then (if v = ''null'' then Some ''null'' else None)
      else if t = ''num'' \<or> t = ''number'' then Some v
      else if t = ''json'' \<or> t = ''raw'' then (if valid_json v = 0 then Some v else None)
      else None)"

definition join3 :: "string \<Rightarrow> string \<Rightarrow> string \<Rightarrow> string" where
  "join3 a m b = a @ m @ b"

section \<open>Keys\<close>

text \<open>The end of a value: the first comma or closing brace outside strings and brackets.\<close>

definition value_step :: "char \<Rightarrow> bool \<times> bool \<times> int \<Rightarrow> (bool \<times> bool \<times> int) option" where
  "value_step c = (\<lambda>(ins, esc, dep).
     if ins then
       (if esc then Some (True, False, dep)
        else if c = BSL then Some (True, True, dep)
        else Some (c \<noteq> DQ, False, dep))
     else if c = DQ then Some (True, esc, dep)
     else if c = CHR ''{'' \<or> c = CHR ''['' then Some (False, esc, dep + 1)
     else if (c = CHR '','' \<or> c = CHR ''}'') \<and> dep = 0 then None
     else if c = CHR ''}'' \<or> c = CHR '']'' then Some (False, esc, dep - 1)
     else Some (False, esc, dep))"

fun value_end :: "bool \<times> bool \<times> int \<Rightarrow> string \<Rightarrow> string" where
  "value_end st [] = []"
| "value_end st (c # cs) = (case value_step c st of None \<Rightarrow> c # cs | Some st' \<Rightarrow> value_end st' cs)"

text \<open>Where the key, its value and the rest begin.\<close>

definition find_key :: "string \<Rightarrow> string \<Rightarrow> (string \<times> string \<times> string) option" where
  "find_key s key =
     (let k = escstr key in
      case strstr k s of
        None \<Rightarrow> None
      | Some p \<Rightarrow>
          (case strchr (CHR '':'') (drop (length k) p) of
             None \<Rightarrow> None
           | Some c \<Rightarrow> (let val = dropWhile c_isspace (tl c) in Some (p, val, value_end (False, False, 0) val))))"

section \<open>Operations on files\<close>

definition save_if_valid :: "bool \<Rightarrow> string \<Rightarrow> string option \<Rightarrow> int \<times> string option" where
  "save_if_valid w_ok out f = (if valid_json out \<noteq> 0 then (1, f) else write_file w_ok out f)"

definition set_object_key :: "bool \<Rightarrow> string \<Rightarrow> string \<Rightarrow> string \<Rightarrow> string option \<Rightarrow> int \<times> string option" where
  "set_object_key w_ok key v typ f =
     (let s = (case read_file f of None \<Rightarrow> ''{}'' | Some t \<Rightarrow> t) in
      if valid_json s \<noteq> 0 then (2, f)
      else case literal v typ of
        None \<Rightarrow> (2, f)
      | Some lit \<Rightarrow>
          (case find_key s key of
             Some (p, val, en) \<Rightarrow> save_if_valid w_ok (join3 (before s val) lit en) f
           | None \<Rightarrow>
               (case strchr (CHR ''{'') s of
                  None \<Rightarrow> (2, f)
                | Some r \<Rightarrow>
                    (let empty = (cget (dropWhile c_isspace (tl r)) 0 = CHR ''}'');
                         m = escstr key @ '':'' @ lit @ (if empty then [] else '','')
                     in save_if_valid w_ok (join3 (before s (tl r)) m (tl r)) f))))"

text \<open>Text shortened from its end: blanks, then one comma.\<close>

definition back_over_comma :: "string \<Rightarrow> string" where
  "back_over_comma pre = (let u = rev (dropWhile c_isspace (rev pre)) in if u \<noteq> [] \<and> last u = CHR '','' then butlast u else u)"

definition del_object_key :: "bool \<Rightarrow> string \<Rightarrow> string option \<Rightarrow> int \<times> string option" where
  "del_object_key w_ok key f =
     (case read_file f of
        None \<Rightarrow> (0, f)
      | Some s \<Rightarrow>
          if valid_json s \<noteq> 0 then (2, f)
          else case find_key s key of
            None \<Rightarrow> (0, f)
          | Some (p, val, en) \<Rightarrow>
              (let after = dropWhile c_isspace en in
               if cget after 0 = CHR '','' then save_if_valid w_ok (join3 (before s p) [] (tl after)) f
               else save_if_valid w_ok (join3 (back_over_comma (before s p)) [] after) f))"

definition array_add :: "bool \<Rightarrow> string \<Rightarrow> string \<Rightarrow> string option \<Rightarrow> int \<times> string option" where
  "array_add w_ok key v f =
     (let s = (case read_file f of None \<Rightarrow> ''{}'' | Some t \<Rightarrow> t) in
      if valid_json s \<noteq> 0 then (2, f)
      else let lit = escstr v in
        case find_key s key of
          None \<Rightarrow> set_object_key w_ok key (''['' @ lit @ '']'') ''json'' f
        | Some (p, val, en) \<Rightarrow>
            if strstr lit val \<noteq> None then (0, f)
            else case strrchr (CHR '']'') val of
              None \<Rightarrow> (2, f)
            | Some rb \<Rightarrow>
                if length rb < length en then (2, f)
                else let empty = (cget (dropWhile c_isspace (tl val)) 0 = CHR '']'')
                     in save_if_valid w_ok (join3 (before s rb) ((if empty then [] else '','') @ lit) rb) f)"

definition array_del :: "bool \<Rightarrow> string \<Rightarrow> string \<Rightarrow> string option \<Rightarrow> int \<times> string option" where
  "array_del w_ok key v f =
     (case read_file f of
        None \<Rightarrow> (0, f)
      | Some s \<Rightarrow>
          (let lit = escstr v in
           case find_key s key of
             None \<Rightarrow> (0, f)
           | Some (p, val, en) \<Rightarrow>
               (case strstr lit val of
                  None \<Rightarrow> (0, f)
                | Some x \<Rightarrow>
                    if length x < length en then (0, f)
                    else let b = dropWhile c_isspace (drop (length lit) x) in
                      if cget b 0 = CHR '','' then save_if_valid w_ok (join3 (before s x) [] (tl b)) f
                      else save_if_valid w_ok (join3 (before s val @ back_over_comma (before val x)) [] b) f)))"

definition token_revoke :: "bool \<Rightarrow> string \<Rightarrow> string option \<Rightarrow> int \<times> string option" where
  "token_revoke w_ok tid f =
     (case read_file f of
        None \<Rightarrow> (0, f)
      | Some s \<Rightarrow>
          (case strstr (escstr tid) s of
             None \<Rightarrow> (0, f)
           | Some p \<Rightarrow>
               (case strstr (DQ # ''revoked'' @ [DQ]) p of
                  None \<Rightarrow> (0, f)
                | Some r \<Rightarrow>
                    (case strstr ''false'' r of
                       None \<Rightarrow> (0, f)
                     | Some x \<Rightarrow> save_if_valid w_ok (join3 (before s x) ''true'' (drop 5 x)) f))))"

fun revoke_text :: "string \<Rightarrow> string" where
  "revoke_text [] = []"
| "revoke_text (c # cs) = (if prefix ''false'' (c # cs) then ''true'' @ revoke_text (drop 4 cs) else c # revoke_text cs)"

definition token_revoke_all :: "bool \<Rightarrow> string option \<Rightarrow> int \<times> string option" where
  "token_revoke_all w_ok f =
     (case read_file f of None \<Rightarrow> (0, f) | Some s \<Rightarrow> save_if_valid w_ok (revoke_text s) f)"

text \<open>The exit code and what is printed.\<close>

definition get_top :: "string \<Rightarrow> string option \<Rightarrow> int \<times> string" where
  "get_top key f =
     (case read_file f of
        None \<Rightarrow> (2, [])
      | Some s \<Rightarrow>
          (case find_key s key of
             None \<Rightarrow> (3, [])
           | Some (p, val, en) \<Rightarrow> (0, before val en @ [LF])))"

text \<open>The arguments after the program's name; the file is the one the second argument names.\<close>

definition json_main :: "bool \<Rightarrow> string list \<Rightarrow> string option \<Rightarrow> int \<times> string \<times> string option" where
  "json_main w_ok args f =
     (let quiet = (\<lambda>r. (fst r, [], snd r)) in
      case args of
        [] \<Rightarrow> (2, [], f)
      | cmd # rest \<Rightarrow>
          if cmd = ''version'' then (0, ''hnc_json_c hotfix20.8 optional write helper'' @ [LF], f)
          else (case rest of
             [p] \<Rightarrow>
               if cmd = ''validate'' then (case read_file f of None \<Rightarrow> (2, [], f) | Some s \<Rightarrow> (valid_json s, [], f))
               else if cmd = ''token-revoke-all'' then quiet (token_revoke_all w_ok f)
               else (2, [], f)
           | [p, a] \<Rightarrow>
               if cmd = ''get-top'' \<or> cmd = ''get'' then (case get_top a f of (rc, out) \<Rightarrow> (rc, out, f))
               else if cmd = ''del-object-key'' \<or> cmd = ''object-del'' then quiet (del_object_key w_ok a f)
               else if cmd = ''token-revoke'' then quiet (token_revoke w_ok a f)
               else (2, [], f)
           | [p, a, b] \<Rightarrow>
               if cmd = ''set-object-key'' \<or> cmd = ''object-set'' then quiet (set_object_key w_ok a b ''str'' f)
               else if cmd = ''add-array-unique'' \<or> cmd = ''array-add-unique'' then quiet (array_add w_ok a b f)
               else if cmd = ''del-array-value'' \<or> cmd = ''array-del-value'' then quiet (array_del w_ok a b f)
               else (2, [], f)
           | [p, a, b, t] \<Rightarrow>
               if cmd = ''set-object-key'' \<or> cmd = ''object-set'' then quiet (set_object_key w_ok a b t f)
               else (2, [], f)
           | _ \<Rightarrow> (2, [], f)))"

section \<open>Scanning facts\<close>

lemma valid_run_append: "valid_run (a @ b) st = (case valid_run a st of None \<Rightarrow> None | Some st' \<Rightarrow> valid_run b st')"
  by (induction a st rule: valid_run.induct) (auto split: option.split)

text \<open>A text that stays inside a string.\<close>

definition str_body :: "string \<Rightarrow> bool" where
  "str_body s \<longleftrightarrow> (\<forall>d seen. valid_run s (True, False, d, seen) = Some (True, False, d, seen))"

lemma str_body_Nil [simp]: "str_body []"
  by (simp add: str_body_def)

lemma str_body_append [simp]: "str_body a \<Longrightarrow> str_body b \<Longrightarrow> str_body (a @ b)"
  by (simp add: str_body_def valid_run_append)

lemma str_body_plain: "c \<noteq> DQ \<Longrightarrow> c \<noteq> BSL \<Longrightarrow> 32 \<le> (ord c :: nat) \<Longrightarrow> str_body s \<Longrightarrow> str_body (c # s)"
  by (simp add: str_body_def valid_step_def)

lemma str_body_bsl: "str_body s \<Longrightarrow> str_body (BSL # c # s)"
  by (simp add: str_body_def valid_step_def)

lemma valid_string: "str_body s \<Longrightarrow> valid_run ([DQ] @ s @ [DQ]) (False, False, d, seen) = Some (False, False, d, True)"
  by (simp add: str_body_def valid_run_append valid_step_def c_isspace_def)

lemma esc_loop_body: "str_body (esc_loop v)"
  by (induction v) (auto intro: str_body_plain str_body_bsl)

lemma nulfree_esc_loop: "nulfree (esc_loop v)"
  by (induction v) (auto simp: nulfree_def)

lemma nulfree_escstr [simp]: "nulfree (escstr v)"
  using nulfree_esc_loop by (simp add: escstr_def nulfree_def)

text \<open>The end of a value behind a string literal.\<close>

lemma value_end_esc: "value_end (True, False, dep) (esc_loop v @ DQ # r) = value_end (False, False, dep) r"
  by (induction v) (auto simp: value_step_def)

lemma value_end_escstr: "value_end (False, False, 0) (escstr v @ r) = value_end (False, False, 0) r"
  using value_end_esc[of 0 v r] by (simp add: escstr_def value_step_def)

lemma value_end_spaces: "list_all c_isspace w \<Longrightarrow> value_end (False, False, 0) (w @ r) = value_end (False, False, 0) r"
proof (induction w)
  case (Cons c w)
  have "c_isspace c" using Cons.prems by simp
  then have "c \<noteq> DQ" "c \<noteq> CHR ''{''" "c \<noteq> CHR ''[''" "c \<noteq> CHR '',''" "c \<noteq> CHR ''}''" "c \<noteq> CHR '']''" by (auto simp: c_isspace_def)
  then have "value_step c (False, False, 0) = Some (False, False, 0)" by (simp add: value_step_def)
  with Cons show ?case by simp
qed simp

lemma value_end_stop: "value_end st s = [] \<or> hd (value_end st s) \<in> {CHR '','', CHR ''}''}"
proof (induction s arbitrary: st)
  case (Cons c s)
  have "value_step c st = None \<Longrightarrow> c \<in> {CHR '','', CHR ''}''}" by (auto simp: value_step_def split: if_splits prod.splits)
  with Cons show ?case by (auto split: option.split)
qed simp

lemma value_end_suffix: "suffix (value_end st s) s"
  by (induction s arbitrary: st) (auto simp: suffix_Cons split: option.split)

lemma value_end_at: "r = [] \<or> hd r \<in> {CHR '','', CHR ''}''} \<Longrightarrow> value_end (False, False, 0) r = r"
  by (cases r) (auto simp: value_step_def)

lemma before_suffix: "before (u @ r) r = u"
  by (simp add: before_def)

text \<open>The first occurrence depends only on the text up to its end.\<close>

lemma prefix_long: "length k \<le> length u \<Longrightarrow> prefix k (u @ t) = prefix k u"
  using prefix_length_prefix[of k "u @ t" u] by (auto intro: prefix_prefix)

lemma strstr_same_prefix: "strstr k (a @ k @ t) = Some (k @ t) \<Longrightarrow> k \<noteq> [] \<Longrightarrow> strstr k (a @ k @ t') = Some (k @ t')"
proof (induction a)
  case Nil
  then show ?case by (cases k) auto
next
  case (Cons c a)
  have len: "length k \<le> length (c # a @ k)" by simp
  have ne: "\<not> prefix k ((c # a @ k) @ t)"
  proof
    assume "prefix k ((c # a @ k) @ t)"
    then have "strstr k ((c # a) @ k @ t) = Some ((c # a) @ k @ t)" by simp
    with Cons.prems(1) have "length (k @ t) = length ((c # a) @ k @ t)" by simp
    then show False by simp
  qed
  then have "\<not> prefix k ((c # a @ k) @ t')" using prefix_long[OF len] by simp
  then show ?case using Cons ne by simp
qed

lemma strstr_quote_first: "DQ \<notin> set a \<Longrightarrow> strstr (escstr key) (a @ escstr key @ y) = Some (escstr key @ y)"
proof (induction a)
  case Nil
  then show ?case by (simp add: escstr_def)
next
  case (Cons c a)
  then have "\<not> prefix (escstr key) (c # a @ escstr key @ y)" by (simp add: escstr_def)
  with Cons show ?case by simp
qed

lemma strstr_split:
  assumes "strstr k s = Some p"
  obtains a t where "s = a @ k @ t" and "p = k @ t"
proof -
  obtain t where p: "p = k @ t" using strstr_prefix[OF assms] by (auto simp: prefix_def)
  obtain a where "s = a @ p" using strstr_suffix[OF assms] by (auto simp: suffix_def)
  with p show thesis by (intro that[of a t]) simp_all
qed

lemma strchr_split:
  assumes "strchr d s = Some c"
  obtains m t where "s = m @ d # t" and "c = d # t" and "d \<notin> set m"
proof -
  have "\<exists>m t. s = m @ d # t \<and> c = d # t \<and> d \<notin> set m" using assms
  proof (induction s)
    case (Cons x s)
    show ?case
    proof (cases "x = d")
      case True
      then show ?thesis using Cons.prems by (intro exI[of _ "[]"] exI[of _ s]) simp
    next
      case False
      then obtain m t where "s = m @ d # t \<and> c = d # t \<and> d \<notin> set m" using Cons by auto
      then show ?thesis using False by (intro exI[of _ "x # m"] exI[of _ t]) simp
    qed
  qed simp
  then show thesis using that by blast
qed

section \<open>What is set can be read back\<close>

definition spaces :: "string \<Rightarrow> bool" where
  "spaces w \<longleftrightarrow> list_all c_isspace w"

lemma drop_spaces: "spaces w \<Longrightarrow> r = [] \<or> \<not> c_isspace (hd r) \<Longrightarrow> dropWhile c_isspace (w @ r) = r"
  by (induction w) (auto simp: spaces_def dropWhile_eq_self_iff)

lemma spaces_split: "\<exists>w. spaces w \<and> s = w @ dropWhile c_isspace s \<and> (dropWhile c_isspace s = [] \<or> \<not> c_isspace (hd (dropWhile c_isspace s)))"
proof (intro exI[of _ "takeWhile c_isspace s"] conjI)
  show "dropWhile c_isspace s = [] \<or> \<not> c_isspace (hd (dropWhile c_isspace s))" using hd_dropWhile by blast
qed (auto simp: spaces_def list_all_iff dest: set_takeWhileD)

lemma escstr_ne [simp]: "escstr v \<noteq> []" and hd_escstr [simp]: "hd (escstr v) = DQ"
  by (simp_all add: escstr_def)

text \<open>Reading a key whose value is a string literal.\<close>

lemma get_string:
  assumes first: "strstr (escstr key) (a @ escstr key @ m @ CHR '':'' # w @ escstr v @ w2 @ e2 @ [LF]) =
      Some (escstr key @ m @ CHR '':'' # w @ escstr v @ w2 @ e2 @ [LF])"
    and m: "CHR '':'' \<notin> set m" and w: "spaces w" "spaces w2" and e2: "e2 = [] \<or> hd e2 \<in> {CHR '','', CHR ''}''}"
    and nf: "nulfree (a @ escstr key @ m @ CHR '':'' # w @ escstr v @ w2 @ e2)"
  shows "\<exists>ws. spaces ws \<and> get_top key (Some (a @ escstr key @ m @ CHR '':'' # w @ escstr v @ w2 @ e2 @ [LF])) = (0, escstr v @ ws @ [LF])"
proof -
  let ?s = "a @ escstr key @ m @ CHR '':'' # w @ escstr v @ w2 @ e2 @ [LF]"
  have c: "cstr ?s = ?s" using nf by (intro cstr_nulfree) (simp add: nulfree_def)
  have d: "dropWhile c_isspace (w @ escstr v @ w2 @ e2 @ [LF]) = escstr v @ w2 @ e2 @ [LF]"
    by (rule drop_spaces[OF w(1)]) (simp add: c_isspace_def)
  have k: "find_key ?s key = Some (escstr key @ m @ CHR '':'' # w @ escstr v @ w2 @ e2 @ [LF], escstr v @ w2 @ e2 @ [LF],
      value_end (False, False, 0) (w2 @ e2 @ [LF]))"
    using first m by (simp add: find_key_def strchr_append_notin d value_end_escstr Let_def)
  have lf: "spaces [LF]" by (simp add: spaces_def c_isspace_def)
  have "value_end (False, False, 0) (w2 @ e2 @ [LF]) = (if e2 = [] then [] else e2 @ [LF])"
  proof (cases "e2 = []")
    case True
    then show ?thesis using value_end_spaces[of "w2 @ [LF]" "[]"] w(2) lf by (simp add: spaces_def)
  next
    case False
    then have "e2 @ [LF] = [] \<or> hd (e2 @ [LF]) \<in> {CHR '','', CHR ''}''}" using e2 by simp
    then show ?thesis using False value_end_spaces[of w2 "e2 @ [LF]"] value_end_at w(2) by (simp add: spaces_def)
  qed
  then have "get_top key (Some ?s) = (0, escstr v @ (if e2 = [] then w2 @ [LF] else w2) @ [LF])"
    using before_suffix[of "escstr v @ w2 @ [LF]" "[]"] before_suffix[of "escstr v @ w2" "e2 @ [LF]"]
    by (simp add: get_top_def read_file_def c k)
  moreover have "spaces (if e2 = [] then w2 @ [LF] else w2)" using w(2) lf by (simp add: spaces_def)
  ultimately show ?thesis by blast
qed

lemma save_Inl: "save_if_valid w_ok out f = (0, f') \<Longrightarrow> w_ok \<and> valid_json out = 0 \<and> f' = Some (out @ [LF])"
  by (auto simp: save_if_valid_def write_file_def split: if_splits)

lemma literal_str: "t \<in> {''str'', ''string''} \<Longrightarrow> literal v t = Some (escstr v)"
  by (auto simp: literal_def)

text \<open>Replacing the value of a key that is there, and putting a new key at the front of the object.\<close>

lemma set_existing_key:
  assumes "find_key s key = Some (p, val, en)" and nf: "nulfree s" and sv: "save_if_valid w_ok (before s val @ escstr v @ en) f = (0, f')"
  shows "\<exists>ws out. spaces ws \<and> f' = Some (out @ [LF]) \<and> valid_json out = 0 \<and> get_top key f' = (0, escstr v @ ws @ [LF])"
proof -
  obtain c where p: "strstr (escstr key) s = Some p" and c: "strchr (CHR '':'') (drop (length (escstr key)) p) = Some c"
    and val: "val = dropWhile c_isspace (tl c)" and en: "en = value_end (False, False, 0) val"
    using assms(1) by (auto simp: find_key_def Let_def split: option.splits)
  obtain a u where u: "s = a @ escstr key @ u" "p = escstr key @ u" using strstr_split[OF p] .
  obtain m x where m: "u = m @ CHR '':'' # x" "c = CHR '':'' # x" "CHR '':'' \<notin> set m" using strchr_split[OF c[unfolded u(2)]] by auto
  obtain w where w: "spaces w" "x = w @ val" using spaces_split[of x] val m(2) by auto
  obtain v0 where v0: "val = v0 @ en" using value_end_suffix[of "(False, False, 0)" val] en by (auto simp: suffix_def)
  have "s = (a @ escstr key @ m @ CHR '':'' # w) @ val" using u m w by simp
  then have b: "before s val = a @ escstr key @ m @ CHR '':'' # w" using before_suffix by metis
  have first: "strstr (escstr key) (a @ escstr key @ y) = Some (escstr key @ y)" for y
    using p u strstr_same_prefix[of "escstr key" a u] by simp
  have "nulfree (a @ escstr key @ m @ CHR '':'' # w @ escstr v @ [] @ en)" using nf u m w v0 nulfree_escstr[of v] by (simp add: nulfree_def)
  moreover have "en = [] \<or> hd en \<in> {CHR '','', CHR ''}''}" using value_end_stop en by blast
  ultimately obtain ws where "spaces ws" "get_top key (Some (a @ escstr key @ m @ CHR '':'' # w @ escstr v @ [] @ en @ [LF])) = (0, escstr v @ ws @ [LF])"
    using get_string[OF first m(3) w(1), of "[]" en v] by (auto simp: spaces_def)
  with save_Inl[OF sv[unfolded b]] show ?thesis by auto
qed

lemma set_new_key:
  assumes r: "s = w0 @ CHR ''{'' # r" "spaces w0" and nf: "nulfree s"
  defines "comma \<equiv> (if cget (dropWhile c_isspace r) 0 = CHR ''}'' then [] else '','')"
  assumes sv: "save_if_valid w_ok ((w0 @ [CHR ''{'']) @ (escstr key @ '':'' @ escstr v @ comma) @ r) f = (0, f')"
  shows "\<exists>ws out. spaces ws \<and> f' = Some (out @ [LF]) \<and> valid_json out = 0 \<and> get_top key f' = (0, escstr v @ ws @ [LF])"
proof -
  obtain w2 e2 where e: "comma @ r = w2 @ e2" "spaces w2" "e2 = [] \<or> hd e2 \<in> {CHR '','', CHR ''}''}"
  proof (cases "cget (dropWhile c_isspace r) 0 = CHR ''}''")
    case True
    then show thesis using spaces_split[of r] that[of "takeWhile c_isspace r" "dropWhile c_isspace r"]
      by (cases "dropWhile c_isspace r") (auto simp: comma_def spaces_def list_all_iff dest: set_takeWhileD)
  next
    case False
    then show thesis using that[of "[]" "'','' @ r"] by (simp add: comma_def spaces_def)
  qed
  have "DQ \<notin> set (w0 @ [CHR ''{''])" using r(2) by (auto simp: spaces_def list_all_iff c_isspace_def)
  then have first: "strstr (escstr key) ((w0 @ [CHR ''{'']) @ escstr key @ y) = Some (escstr key @ y)" for y
    by (rule strstr_quote_first)
  have e': "comma @ r @ y = w2 @ e2 @ y" for y using arg_cong[OF e(1), of "\<lambda>x. x @ y"] by simp
  have "nulfree (comma @ r)" using nf r(1) by (simp add: comma_def nulfree_def)
  then have "nulfree (w2 @ e2)" unfolding e(1) .
  then have "nulfree ((w0 @ [CHR ''{'']) @ escstr key @ [] @ CHR '':'' # [] @ escstr v @ w2 @ e2)"
    using nf r(1) nulfree_escstr[of key] nulfree_escstr[of v] by (simp add: nulfree_def)
  then obtain ws where "spaces ws" "get_top key (Some ((w0 @ [CHR ''{'']) @ escstr key @ [] @ CHR '':'' # [] @ escstr v @ w2 @ e2 @ [LF])) = (0, escstr v @ ws @ [LF])"
    using get_string[OF first _ _ e(2,3), of "[]" "[]" v] by (auto simp: spaces_def)
  with save_Inl[OF sv] show ?thesis by (auto simp: e' e(1))
qed

text \<open>
  C28: What \<^verbatim>\<open>set-object-key\<close> stores as a string can be read back: when it succeeds on a missing file or on a
  file that holds an object, the new file passes the structural check and \<^verbatim>\<open>get-top\<close> prints the
  escaped string for the key (with at most blanks behind it), whether the key was replaced or
  inserted and whatever characters the value has.
\<close>

theorem json_set_get:
  assumes "set_object_key w_ok key v t f = (0, f')" and "t \<in> {''str'', ''string''}"
    and "case read_file f of None \<Rightarrow> True | Some s \<Rightarrow> cget (dropWhile c_isspace s) 0 = CHR ''{''"
  shows "\<exists>ws out. spaces ws \<and> f' = Some (out @ [LF]) \<and> valid_json out = 0 \<and> get_top key f' = (0, escstr v @ ws @ [LF])"
proof -
  define s where "s = (case read_file f of None \<Rightarrow> ''{}'' | Some t \<Rightarrow> t)"
  have nf: "nulfree s" by (auto simp: s_def read_file_def nulfree_def split: option.split) (metis nulfree_cstr nulfree_def)
  have obj: "cget (dropWhile c_isspace s) 0 = CHR ''{''" using assms(3) by (simp add: s_def c_isspace_def split: option.splits)
  show ?thesis
  proof (cases "find_key s key")
    case (Some q)
    obtain p val en where q: "q = (p, val, en)" by (rule prod_cases3)
    show ?thesis using assms(1) Some q literal_str[OF assms(2)]
      by (intro set_existing_key[OF Some[unfolded q] nf]) (auto simp: set_object_key_def s_def[symmetric] Let_def join3_def split: if_splits)
  next
    case None
    obtain w0 r where r: "s = w0 @ CHR ''{'' # r" "spaces w0"
      using obj spaces_split[of s] by (cases "dropWhile c_isspace s") auto
    have "CHR ''{'' \<notin> set w0" using r(2) by (auto simp: spaces_def list_all_iff c_isspace_def)
    then have sc: "strchr (CHR ''{'') s = Some (CHR ''{'' # r)" by (simp add: r(1) strchr_append_notin)
    have b: "before s r = w0 @ [CHR ''{'']" using before_suffix[of "w0 @ [CHR ''{'']" r] r(1) by simp
    show ?thesis using assms(1) None literal_str[OF assms(2)] sc
      by (intro set_new_key[OF r nf]) (auto simp: set_object_key_def s_def[symmetric] Let_def b join3_def split: if_splits)
  qed
qed

theorem json_set_get_witness:
  "\<exists>ws. spaces ws \<and> get_top ''name'' (snd (set_object_key True ''name'' [CHR ''a'', DQ, BSL] ''str'' (Some ([CHR ''{'', DQ] @ ''mac'' @ [DQ] @ '':1}'')))) =
     (0, escstr [CHR ''a'', DQ, BSL] @ ws @ [LF])"
proof -
  let ?f = "Some ([CHR ''{'', DQ] @ ''mac'' @ [DQ] @ '':1}'')"
  have "set_object_key True ''name'' [CHR ''a'', DQ, BSL] ''str'' ?f = (0, snd (set_object_key True ''name'' [CHR ''a'', DQ, BSL] ''str'' ?f))" by code_simp
  moreover have "case read_file ?f of None \<Rightarrow> True | Some s \<Rightarrow> cget (dropWhile c_isspace s) 0 = CHR ''{''" by code_simp
  ultimately show ?thesis using json_set_get[of True "''name''" "[CHR ''a'', DQ, BSL]" "''str''" ?f] by auto
qed

section \<open>Where the textual search goes wrong\<close>

definition quoted :: "string \<Rightarrow> string" where "quoted s = [DQ] @ s @ [DQ]"

text \<open>Revoking a token that is already revoked revokes the next token of the file.\<close>

lemma token_revoke_hits_next:
  "token_revoke True ''t1'' (Some (''{'' @ quoted ''t1'' @ '':{'' @ quoted ''revoked'' @ '':true},'' @ quoted ''t2'' @ '':{'' @ quoted ''revoked'' @ '':false}}'')) =
   (0, Some (''{'' @ quoted ''t1'' @ '':{'' @ quoted ''revoked'' @ '':true},'' @ quoted ''t2'' @ '':{'' @ quoted ''revoked'' @ '':true}}'' @ [LF]))"
  by code_simp

text \<open>An address that occurs in a later array counts as present: nothing is added, and success is reported.\<close>

lemma array_add_sees_other_array:
  "array_add True ''blacklist'' ''m1'' (Some (''{'' @ quoted ''blacklist'' @ '':[],'' @ quoted ''whitelist'' @ '':['' @ quoted ''m1'' @ '']}'')) =
   (0, Some (''{'' @ quoted ''blacklist'' @ '':[],'' @ quoted ''whitelist'' @ '':['' @ quoted ''m1'' @ '']}''))"
  by code_simp

text \<open>With any later array in the file, an addition to an earlier one is refused.\<close>

lemma array_add_refuses_before_other_array:
  "array_add True ''blacklist'' ''m2'' (Some (''{'' @ quoted ''blacklist'' @ '':[],'' @ quoted ''whitelist'' @ '':[]}'')) =
   (2, Some (''{'' @ quoted ''blacklist'' @ '':[],'' @ quoted ''whitelist'' @ '':[]}''))"
  by code_simp

end
