(* ===== verification/TcIngress.thy ===== *)
theory TcIngress
  imports CText "HOL-Library.Word"
begin

text \<open>
  The tool \<^verbatim>\<open>daemon/tc_netlink/hnc_tc_ingress.c\<close> that installs the clsact queueing discipline and the
  matchall filter with the mirred action by raw rtnetlink messages.  A request is the memory of
  the C structure (1060 bytes, little-endian) with the current message length; what \<^verbatim>\<open>sendto\<close>
  and \<^verbatim>\<open>recvmsg\<close> give is the environment.  Constants of the kernel headers are written as numbers.
\<close>

unbundle bit_operations_syntax

section \<open>Bytes\<close>

definition u16 :: "nat \<Rightarrow> nat list" where "u16 n = [n mod 256, n div 256 mod 256]"
definition u32 :: "nat \<Rightarrow> nat list" where "u32 n = [n mod 256, n div 256 mod 256, n div 65536 mod 256, n div 16777216 mod 256]"

text \<open>Bytes stored at an offset.\<close>

definition put_at :: "nat \<Rightarrow> nat list \<Rightarrow> nat list \<Rightarrow> nat list" where
  "put_at off bs m = take off m @ bs @ drop (off + length bs) m"

definition align4 :: "nat \<Rightarrow> nat" where "align4 n = (n + 3) div 4 * 4"

section \<open>Messages\<close>

definition HNC_TC_H_INGRESS_PARENT :: nat where "HNC_TC_H_INGRESS_PARENT = 0xFFFFFFF2"
definition HNC_TC_H_CLSACT_HANDLE :: nat where "HNC_TC_H_CLSACT_HANDLE = 0xFFFF0000"
definition RTNL_REQ_BUF_SIZE :: nat where "RTNL_REQ_BUF_SIZE = 1024"
definition RC_OK :: int where "RC_OK = 0"
definition RC_IFACE_NOT_FOUND :: int where "RC_IFACE_NOT_FOUND = 1"
definition RC_IFB_NOT_FOUND :: int where "RC_IFB_NOT_FOUND = 2"
definition RC_NETLINK_ERROR :: int where "RC_NETLINK_ERROR = 3"
definition RC_USAGE :: int where "RC_USAGE = 4"

definition TC_H_CLSACT :: nat where "TC_H_CLSACT = 0xFFFFFFF1"
definition RTM_NEWQDISC :: nat where "RTM_NEWQDISC = 36"
definition RTM_NEWTFILTER :: nat where "RTM_NEWTFILTER = 44"
definition NLMSG_ERROR :: nat where "NLMSG_ERROR = 2"
definition TCA_KIND :: nat where "TCA_KIND = 1"
definition TCA_OPTIONS :: nat where "TCA_OPTIONS = 2"
definition TCA_MATCHALL_ACT :: nat where "TCA_MATCHALL_ACT = 2"
definition TCA_ACT_KIND :: nat where "TCA_ACT_KIND = 1"
definition TCA_ACT_OPTIONS :: nat where "TCA_ACT_OPTIONS = 2"
definition TCA_MIRRED_PARMS :: nat where "TCA_MIRRED_PARMS = 2"
definition NLA_F_NESTED :: nat where "NLA_F_NESTED = 0x8000"
definition TC_ACT_STOLEN :: nat where "TC_ACT_STOLEN = 4"
definition TCA_EGRESS_REDIR :: nat where "TCA_EGRESS_REDIR = 1"
definition EEXIST :: int where "EEXIST = 17"
definition EMSGSIZE :: int where "EMSGSIZE = 90"
definition EIO :: int where "EIO = 5"
definition EPROTO :: int where "EPROTO = 71"

record nl_req =
  rq_mem :: "nat list"
  nlmsg_len :: nat

definition sizeof_req :: nat where "sizeof_req = 16 + 20 + RTNL_REQ_BUF_SIZE"

text \<open>A text with its terminator, as the bytes of a string attribute.\<close>

definition cbytes :: "string \<Rightarrow> nat list" where "cbytes s = map ord s @ [0]"

section \<open>Attributes\<close>

definition addattr_l :: "nl_req \<Rightarrow> nat \<Rightarrow> nat \<Rightarrow> nat list \<Rightarrow> nl_req option" where
  "addattr_l n maxlen typ data =
     (let len = 4 + length data;
          tail = align4 (nlmsg_len n)
      in if tail + align4 len > maxlen then None
         else Some (n\<lparr>rq_mem := put_at tail (u16 len @ u16 typ @ data) (rq_mem n), nlmsg_len := tail + align4 len\<rparr>))"

text \<open>The offset of the opened attribute and the request.\<close>

definition addattr_nest :: "nl_req \<Rightarrow> nat \<Rightarrow> nat \<Rightarrow> (nat \<times> nl_req) option" where
  "addattr_nest n maxlen typ =
     (let nest = align4 (nlmsg_len n)
      in case addattr_l n maxlen typ [] of None \<Rightarrow> None | Some n' \<Rightarrow> Some (nest, n'))"

definition addattr_nest_end :: "nl_req \<Rightarrow> nat \<Rightarrow> nl_req" where
  "addattr_nest_end n nest = n\<lparr>rq_mem := put_at nest (u16 (align4 (nlmsg_len n) - nest)) (rq_mem n)\<rparr>"

section \<open>Socket\<close>

text \<open>The sequence counter after the socket was opened.\<close>

definition rtnl_seed :: "32 word \<Rightarrow> 32 word \<Rightarrow> 32 word \<Rightarrow> 32 word" where
  "rtnl_seed g_seq time pid =
     (if g_seq = 0 then (let s = time XOR push_bit 16 pid in if s = 0 then 1 else s) else g_seq)"

text \<open>One received message: sequence number, type and the error of an acknowledgement; then the results of \<^verbatim>\<open>recvmsg\<close>.\<close>

record nl_reply =
  rp_seq :: "32 word"
  rp_type :: nat
  rp_error :: int

datatype recv_ret = Rv_eintr | Rv_errno int | Rv_eof | Rv_data "nl_reply list"

text \<open>The messages of one datagram: the verdict, or \<^const>\<open>None\<close> when none of them answers the request.\<close>

fun scan_replies :: "32 word \<Rightarrow> nl_reply list \<Rightarrow> int option" where
  "scan_replies sq [] = None"
| "scan_replies sq (h # hs) =
     (if rp_seq h \<noteq> sq then scan_replies sq hs
      else if rp_type h = NLMSG_ERROR then
        (if rp_error h = 0 then Some 0 else if rp_error h = - EEXIST then Some 0 else Some (rp_error h))
      else Some (- EPROTO))"

text \<open>The receive loop; \<^const>\<open>None\<close> while it is waiting.\<close>

fun recv_ack :: "32 word \<Rightarrow> recv_ret list \<Rightarrow> int option" where
  "recv_ack sq [] = None"
| "recv_ack sq (Rv_eintr # rs) = recv_ack sq rs"
| "recv_ack sq (Rv_errno e # rs) = Some (- e)"
| "recv_ack sq (Rv_eof # rs) = Some (- EIO)"
| "recv_ack sq (Rv_data hs # rs) = (case scan_replies sq hs of Some v \<Rightarrow> Some v | None \<Rightarrow> recv_ack sq rs)"

text \<open>\<open>sent\<close> is the result of \<^verbatim>\<open>sendto\<close>: the number of bytes or the error.\<close>

definition sent_bytes :: "32 word \<Rightarrow> nl_req \<Rightarrow> nat list" where
  "sent_bytes sq n = take (nlmsg_len n) (put_at 0 (u32 (nlmsg_len n)) (put_at 8 (u32 (unat sq) @ u32 0) (rq_mem n)))"

definition rtnl_send_ack :: "32 word \<Rightarrow> nl_req \<Rightarrow> int + nat \<Rightarrow> recv_ret list \<Rightarrow> int option \<times> 32 word" where
  "rtnl_send_ack g_seq n sent rs =
     (let sq = g_seq + 1
      in case sent of
           Inl e \<Rightarrow> (Some (- e), sq)
         | Inr k \<Rightarrow> (if k \<noteq> nlmsg_len n then Some (- EIO) else recv_ack sq rs, sq))"

section \<open>The two requests\<close>

text \<open>The zeroed structure with the header and the traffic control message filled in.\<close>

definition tc_request :: "nat \<Rightarrow> nat \<Rightarrow> nat \<Rightarrow> nat \<Rightarrow> nat \<Rightarrow> nl_req" where
  "tc_request typ ifindex handle parent info =
     \<lparr>rq_mem = u32 36 @ u16 typ @ u16 0x605 @ u32 0 @ u32 0 @ [0, 0, 0, 0] @ u32 ifindex @ u32 handle @ u32 parent @ u32 info @
        replicate RTNL_REQ_BUF_SIZE 0, nlmsg_len = 36\<rparr>"

definition clsact_request :: "nat \<Rightarrow> nl_req option" where
  "clsact_request ifindex =
     addattr_l (tc_request RTM_NEWQDISC ifindex HNC_TC_H_CLSACT_HANDLE TC_H_CLSACT 0) sizeof_req TCA_KIND (cbytes ''clsact'')"

definition install_clsact :: "32 word \<Rightarrow> nat \<Rightarrow> int + nat \<Rightarrow> recv_ret list \<Rightarrow> int option \<times> 32 word" where
  "install_clsact g_seq ifindex sent rs =
     (case clsact_request ifindex of None \<Rightarrow> (Some (- EMSGSIZE), g_seq) | Some n \<Rightarrow> rtnl_send_ack g_seq n sent rs)"

definition mirred_parms :: "nat \<Rightarrow> nat list" where
  "mirred_parms ifb = u32 0 @ u32 0 @ u32 TC_ACT_STOLEN @ u32 0 @ u32 0 @ u32 TCA_EGRESS_REDIR @ u32 ifb"

definition append_mirred_action :: "nl_req \<Rightarrow> nat \<Rightarrow> nat \<Rightarrow> nl_req option" where
  "append_mirred_action n maxlen ifb =
     (case addattr_l n maxlen TCA_ACT_KIND (cbytes ''mirred'') of
        None \<Rightarrow> None
      | Some n1 \<Rightarrow>
          (case addattr_nest n1 maxlen (TCA_ACT_OPTIONS OR NLA_F_NESTED) of
             None \<Rightarrow> None
           | Some (act_opts, n2) \<Rightarrow>
               (case addattr_l n2 maxlen TCA_MIRRED_PARMS (mirred_parms ifb) of
                  None \<Rightarrow> None
                | Some n3 \<Rightarrow> Some (addattr_nest_end n3 act_opts))))"

text \<open>\<^verbatim>\<open>TC_H_MAKE(prio << 16, htons(ETH_P_ALL))\<close> on a little-endian machine.\<close>

definition filter_info :: "nat \<Rightarrow> nat" where
  "filter_info prio = prio mod 65536 * 65536 + 0x0300"

definition matchall_request :: "nat \<Rightarrow> nat \<Rightarrow> nat \<Rightarrow> nl_req option" where
  "matchall_request iface ifb prio =
     (case addattr_l (tc_request RTM_NEWTFILTER iface 0 HNC_TC_H_INGRESS_PARENT (filter_info prio)) sizeof_req TCA_KIND (cbytes ''matchall'') of
        None \<Rightarrow> None
      | Some n1 \<Rightarrow>
     (case addattr_nest n1 sizeof_req TCA_OPTIONS of None \<Rightarrow> None | Some (options, n2) \<Rightarrow>
     (case addattr_nest n2 sizeof_req TCA_MATCHALL_ACT of None \<Rightarrow> None | Some (ma_act, n3) \<Rightarrow>
     (case addattr_nest n3 sizeof_req 1 of None \<Rightarrow> None | Some (act_1, n4) \<Rightarrow>
     (case append_mirred_action n4 sizeof_req ifb of
        None \<Rightarrow> None
      | Some n5 \<Rightarrow> Some (addattr_nest_end (addattr_nest_end (addattr_nest_end n5 act_1) ma_act) options))))))"

definition install_matchall_filter :: "32 word \<Rightarrow> nat \<Rightarrow> nat \<Rightarrow> nat \<Rightarrow> int + nat \<Rightarrow> recv_ret list \<Rightarrow> int option \<times> 32 word" where
  "install_matchall_filter g_seq iface ifb prio sent rs =
     (case matchall_request iface ifb prio of None \<Rightarrow> (Some (- EMSGSIZE), g_seq) | Some n \<Rightarrow> rtnl_send_ack g_seq n sent rs)"

section \<open>The program\<close>

definition prio_arg :: "string \<Rightarrow> nat option" where
  "prio_arg s = (case scan_ld s of Some (v, []) \<Rightarrow> if v < 1 \<or> v > 65535 then None else Some (nat v) | _ \<Rightarrow> None)"

text \<open>
  The outside world of one run: interface indices (0 when missing), the socket, the clock and
  the process number for the sequence counter, and both exchanges.
\<close>

record tc_env =
  tc_index :: "string \<Rightarrow> nat"
  tc_socket :: bool
  tc_time :: "32 word"
  tc_pid :: "32 word"
  tc_sent1 :: "int + nat"
  tc_recv1 :: "recv_ret list"
  tc_sent2 :: "int + nat"
  tc_recv2 :: "recv_ret list"

text \<open>The exit code for the arguments after the program's name; \<^const>\<open>None\<close> while an answer is awaited.\<close>

definition tc_ingress_main :: "tc_env \<Rightarrow> string list \<Rightarrow> int option" where
  "tc_ingress_main env args =
     (let run = (\<lambda>iface ifb prio.
            if tc_index env iface = 0 then Some RC_IFACE_NOT_FOUND
            else if tc_index env ifb = 0 then Some RC_IFB_NOT_FOUND
            else if \<not> tc_socket env then Some RC_NETLINK_ERROR
            else case install_clsact (rtnl_seed 0 (tc_time env) (tc_pid env)) (tc_index env iface) (tc_sent1 env) (tc_recv1 env) of
              (None, _) \<Rightarrow> None
            | (Some rc, sq) \<Rightarrow>
                if rc < 0 then Some RC_NETLINK_ERROR
                else case install_matchall_filter sq (tc_index env iface) (tc_index env ifb) prio (tc_sent2 env) (tc_recv2 env) of
                  (None, _) \<Rightarrow> None
                | (Some rc2, _) \<Rightarrow> Some (if rc2 < 0 then RC_NETLINK_ERROR else RC_OK))
      in case args of
           [iface, ifb] \<Rightarrow> run iface ifb 1
         | [iface, ifb, p] \<Rightarrow> (case prio_arg p of None \<Rightarrow> Some RC_USAGE | Some prio \<Rightarrow> run iface ifb prio)
         | _ \<Rightarrow> Some RC_USAGE)"

section \<open>The wire format\<close>

text \<open>Attribute trees and their encoding: length, type, payload, padding to four bytes.\<close>

datatype nlattr = Attr nat "nat list" | Nest nat "nlattr list"

fun enc :: "nlattr \<Rightarrow> nat list" where
  "enc (Attr t d) = u16 (4 + length d) @ u16 t @ d @ replicate (align4 (4 + length d) - (4 + length d)) 0"
| "enc (Nest t as) = (let b = concat (map enc as) in u16 (4 + length b) @ u16 t @ b)"

definition content :: "nl_req \<Rightarrow> nat list" where
  "content n = take (nlmsg_len n) (rq_mem n)"

text \<open>A request under construction: aligned, within its memory, and zero behind the message.\<close>

definition req_ok :: "nl_req \<Rightarrow> bool" where
  "req_ok n \<longleftrightarrow> length (rq_mem n) = sizeof_req \<and> nlmsg_len n \<le> sizeof_req \<and> 4 dvd nlmsg_len n \<and>
     drop (nlmsg_len n) (rq_mem n) = replicate (sizeof_req - nlmsg_len n) 0"

lemma align4_id: "4 dvd n \<Longrightarrow> align4 n = n"
  by (auto simp: align4_def)

lemma align4_ge: "n \<le> align4 n" and align4_dvd: "4 dvd align4 n"
  unfolding align4_def by presburger+

lemma length_u [simp]: "length (u16 n) = 2" "length (u32 n) = 4"
  by (simp_all add: u16_def u32_def)

lemma req_mem_split: "req_ok n \<Longrightarrow> rq_mem n = content n @ replicate (sizeof_req - nlmsg_len n) 0"
  unfolding content_def req_ok_def by (metis append_take_drop_id)

lemma length_content: "req_ok n \<Longrightarrow> length (content n) = nlmsg_len n"
  by (simp add: content_def req_ok_def)

lemma addattr_l_ok:
  assumes "req_ok n" and "nlmsg_len n + align4 (4 + length d) \<le> sizeof_req"
  shows "\<exists>n'. addattr_l n sizeof_req t d = Some n' \<and> req_ok n' \<and> content n' = content n @ enc (Attr t d)"
proof -
  let ?L = "nlmsg_len n" and ?A = "align4 (4 + length d)"
  have L: "align4 ?L = ?L" using assms(1) by (simp add: req_ok_def align4_id)
  have A: "4 + length d \<le> ?A" "4 dvd ?A" by (rule align4_ge, rule align4_dvd)
  define z where "z = sizeof_req - ?L"
  have z: "z = (4 + length d) + (?A - (4 + length d)) + (z - ?A)" "?A \<le> z" using assms(2) A by (simp_all add: z_def)
  let ?mem = "content n @ (u16 (4 + length d) @ u16 t @ d) @ replicate (z - (4 + length d)) 0"
  have "put_at ?L (u16 (4 + length d) @ u16 t @ d) (rq_mem n) = ?mem"
    using req_mem_split[OF assms(1)] length_content[OF assms(1)] by (simp add: put_at_def z_def)
  moreover have "?mem = (content n @ enc (Attr t d)) @ replicate (z - ?A) 0"
  proof -
    have "replicate (z - (4 + length d)) (0::nat) = replicate (?A - (4 + length d)) 0 @ replicate (z - ?A) 0"
      using z A by (simp add: replicate_add[symmetric])
    then show ?thesis by simp
  qed
  ultimately have m: "put_at ?L (u16 (4 + length d) @ u16 t @ d) (rq_mem n) = (content n @ enc (Attr t d)) @ replicate (z - ?A) 0" by simp
  define n' where "n' = n\<lparr>rq_mem := (content n @ enc (Attr t d)) @ replicate (z - ?A) 0, nlmsg_len := ?L + ?A\<rparr>"
  have le: "length (content n @ enc (Attr t d)) = ?L + ?A" using length_content[OF assms(1)] A by simp
  have "addattr_l n sizeof_req t d = Some n'" using assms(2) L m by (simp add: addattr_l_def Let_def n'_def)
  moreover have "content n' = content n @ enc (Attr t d)" using le unfolding content_def n'_def by simp
  moreover have "req_ok n'"
  proof -
    have "length (rq_mem n') = sizeof_req" using le z(2) assms(2) by (simp add: n'_def z_def)
    moreover have "drop (?L + ?A) (rq_mem n') = replicate (z - ?A) 0" using le unfolding n'_def by simp
    moreover have "4 dvd ?L + ?A" using assms(1) A by (simp add: req_ok_def)
    ultimately show ?thesis using assms(2) by (simp add: req_ok_def n'_def z_def)
  qed
  ultimately show ?thesis by blast
qed

lemma enc_empty: "enc (Attr t []) = u16 4 @ u16 t"
  by (simp add: align4_def)

lemma addattr_nest_ok:
  assumes "req_ok n" and "nlmsg_len n + 4 \<le> sizeof_req"
  shows "\<exists>n'. addattr_nest n sizeof_req t = Some (length (content n), n') \<and> req_ok n' \<and> content n' = content n @ u16 4 @ u16 t"
proof -
  have "align4 (4 + length []) = 4" by (simp add: align4_def)
  then obtain n' where "addattr_l n sizeof_req t [] = Some n'" "req_ok n'" "content n' = content n @ u16 4 @ u16 t"
    using addattr_l_ok[OF assms(1), of "[]" t] assms(2) enc_empty by auto
  moreover have "align4 (nlmsg_len n) = length (content n)" using assms(1) by (simp add: length_content align4_id req_ok_def)
  ultimately show ?thesis by (simp add: addattr_nest_def)
qed

lemma addattr_nest_end_ok:
  assumes "req_ok n" and "content n = pre @ u16 x @ u16 t @ b" and "nest = length pre"
  shows "req_ok (addattr_nest_end n nest) \<and> content (addattr_nest_end n nest) = pre @ u16 (4 + length b) @ u16 t @ b"
proof -
  let ?z = "replicate (sizeof_req - nlmsg_len n) (0::nat)"
  have L: "nlmsg_len n = length pre + 4 + length b" using length_content[OF assms(1)] assms(2) by simp
  have a: "align4 (nlmsg_len n) - nest = 4 + length b" using assms(1,3) L by (simp add: req_ok_def align4_id)
  have m: "rq_mem (addattr_nest_end n nest) = (pre @ u16 (4 + length b) @ u16 t @ b) @ ?z"
    using req_mem_split[OF assms(1)] assms(2,3) a by (simp add: addattr_nest_end_def put_at_def)
  have l: "nlmsg_len (addattr_nest_end n nest) = nlmsg_len n" by (simp add: addattr_nest_end_def)
  have "content (addattr_nest_end n nest) = pre @ u16 (4 + length b) @ u16 t @ b" unfolding content_def m l L by simp
  moreover have "req_ok (addattr_nest_end n nest)" using assms(1) unfolding req_ok_def m l by (simp add: L sizeof_req_def RTNL_REQ_BUF_SIZE_def)
  ultimately show ?thesis by simp
qed

lemma sizeof_req_num: "sizeof_req = 1060"
  by (simp add: sizeof_req_def RTNL_REQ_BUF_SIZE_def)

lemma tc_request_ok:
  "req_ok (tc_request typ ifindex handle parent info) \<and>
   content (tc_request typ ifindex handle parent info) =
     u32 36 @ u16 typ @ u16 0x605 @ u32 0 @ u32 0 @ [0, 0, 0, 0] @ u32 ifindex @ u32 handle @ u32 parent @ u32 info"
proof -
  define h where "h = u32 36 @ u16 typ @ u16 0x605 @ u32 0 @ u32 0 @ [0, 0, 0, 0] @ u32 ifindex @ u32 handle @ u32 parent @ u32 info"
  have h: "length h = 36" by (simp add: h_def)
  have m: "tc_request typ ifindex handle parent info = \<lparr>rq_mem = h @ replicate RTNL_REQ_BUF_SIZE 0, nlmsg_len = 36\<rparr>"
    by (simp only: tc_request_def h_def append_assoc)
  have "req_ok \<lparr>rq_mem = h @ replicate RTNL_REQ_BUF_SIZE 0, nlmsg_len = 36\<rparr>" using h by (simp add: req_ok_def sizeof_req_def)
  moreover have "content \<lparr>rq_mem = h @ replicate RTNL_REQ_BUF_SIZE 0, nlmsg_len = 36\<rparr> = h" using h by (simp add: content_def)
  ultimately show ?thesis unfolding m h_def by simp
qed

lemma put_at_mid: "length a = off \<Longrightarrow> length b = length b' \<Longrightarrow> put_at off b' (a @ b @ c) = a @ b' @ c"
  by (simp add: put_at_def)

lemma mirred_action_ok:
  assumes "req_ok n" and "nlmsg_len n + 48 \<le> sizeof_req"
  shows "\<exists>n'. append_mirred_action n sizeof_req ifb = Some n' \<and> req_ok n' \<and>
    content n' = content n @ enc (Attr TCA_ACT_KIND (cbytes ''mirred'')) @ enc (Nest (TCA_ACT_OPTIONS OR NLA_F_NESTED) [Attr TCA_MIRRED_PARMS (mirred_parms ifb)])"
proof -
  have l: "align4 (4 + length (cbytes ''mirred'')) = 12" "align4 (4 + length (mirred_parms ifb)) = 32"
    by (simp_all add: cbytes_def mirred_parms_def align4_def)
  obtain n1 where n1: "addattr_l n sizeof_req TCA_ACT_KIND (cbytes ''mirred'') = Some n1" "req_ok n1"
    "content n1 = content n @ enc (Attr TCA_ACT_KIND (cbytes ''mirred''))"
    using addattr_l_ok[OF assms(1), of "cbytes ''mirred''" TCA_ACT_KIND] assms(2) l by auto
  have e1: "length (enc (Attr TCA_ACT_KIND (cbytes ''mirred''))) = 12" by (simp add: cbytes_def align4_def)
  have L1: "nlmsg_len n1 = nlmsg_len n + 12" using length_content[OF n1(2)] length_content[OF assms(1)] n1(3) e1 by simp
  obtain n2 where n2: "addattr_nest n1 sizeof_req (TCA_ACT_OPTIONS OR NLA_F_NESTED) = Some (length (content n1), n2)" "req_ok n2"
    "content n2 = content n1 @ u16 4 @ u16 (TCA_ACT_OPTIONS OR NLA_F_NESTED)"
    using addattr_nest_ok[OF n1(2)] assms(2) L1 by fastforce
  have L2: "nlmsg_len n2 = nlmsg_len n + 16" using length_content[OF n2(2)] length_content[OF n1(2)] n2(3) L1 by simp
  obtain n3 where n3: "addattr_l n2 sizeof_req TCA_MIRRED_PARMS (mirred_parms ifb) = Some n3" "req_ok n3"
    "content n3 = content n2 @ enc (Attr TCA_MIRRED_PARMS (mirred_parms ifb))"
    using addattr_l_ok[OF n2(2), of "mirred_parms ifb" TCA_MIRRED_PARMS] assms(2) l L2 by auto
  have c3: "content n3 = content n1 @ u16 4 @ u16 (TCA_ACT_OPTIONS OR NLA_F_NESTED) @ enc (Attr TCA_MIRRED_PARMS (mirred_parms ifb))" using n2(3) n3(3) by simp
  from addattr_nest_end_ok[OF n3(2) c3 refl] show ?thesis
    using n1 n2(1) n3(1) by (simp add: append_mirred_action_def Let_def del: enc.simps(1))
qed

definition tc_header :: "nat \<Rightarrow> nat \<Rightarrow> nat \<Rightarrow> nat \<Rightarrow> nat \<Rightarrow> nat \<Rightarrow> nat \<Rightarrow> nat list" where
  "tc_header len typ sq ifindex handle parent info =
     u32 len @ u16 typ @ u16 0x605 @ u32 sq @ u32 0 @ [0, 0, 0, 0] @ u32 ifindex @ u32 handle @ u32 parent @ u32 info"

lemma stamped:
  assumes "req_ok n" and "content n = u32 36 @ u16 typ @ u16 0x605 @ u32 0 @ u32 0 @ [0, 0, 0, 0] @ u32 ifindex @ u32 handle @ u32 parent @ u32 info @ attrs"
  shows "sent_bytes sq n = tc_header (36 + length attrs) typ (unat sq) ifindex handle parent info @ attrs"
proof -
  have L: "nlmsg_len n = 36 + length attrs" using length_content[OF assms(1)] assms(2) by simp
  define A where "A = u32 36"
  define B where "B = u16 typ @ u16 0x605"
  define C where "C = u32 0 @ u32 0"
  define D where "D = [0, 0, 0, 0] @ u32 ifindex @ u32 handle @ u32 parent @ u32 info"
  define z where "z = replicate (sizeof_req - nlmsg_len n) (0::nat)"
  have l: "length A = 4" "length B = 4" "length C = 8" "length D = 20" by (simp_all add: A_def B_def C_def D_def)
  have m: "rq_mem n = (A @ B) @ C @ D @ attrs @ z" using req_mem_split[OF assms(1)] assms(2) by (simp add: A_def B_def C_def D_def z_def)
  have "put_at 8 (u32 (unat sq) @ u32 0) (rq_mem n) = (A @ B) @ (u32 (unat sq) @ u32 0) @ D @ attrs @ z"
    unfolding m by (rule put_at_mid) (simp_all add: l)
  also have "\<dots> = [] @ A @ (B @ (u32 (unat sq) @ u32 0) @ D @ attrs @ z)" by simp
  also have "put_at 0 (u32 (nlmsg_len n)) \<dots> = [] @ u32 (nlmsg_len n) @ (B @ (u32 (unat sq) @ u32 0) @ D @ attrs @ z)"
    by (rule put_at_mid) (simp_all add: l)
  finally have "sent_bytes sq n = take (nlmsg_len n) ((u32 (nlmsg_len n) @ B @ (u32 (unat sq) @ u32 0) @ D @ attrs) @ z)"
    by (simp add: sent_bytes_def)
  also have "\<dots> = u32 (nlmsg_len n) @ B @ (u32 (unat sq) @ u32 0) @ D @ attrs" using l L by simp
  finally show ?thesis unfolding L by (simp add: tc_header_def B_def D_def)
qed

definition filter_tree :: "nat \<Rightarrow> nlattr list" where
  "filter_tree ifb =
     [Attr TCA_KIND (cbytes ''matchall''),
      Nest TCA_OPTIONS [Nest TCA_MATCHALL_ACT [Nest 1
        [Attr TCA_ACT_KIND (cbytes ''mirred''), Nest (TCA_ACT_OPTIONS OR NLA_F_NESTED) [Attr TCA_MIRRED_PARMS (mirred_parms ifb)]]]]]"

lemma matchall_ok:
  "\<exists>n. matchall_request iface ifb prio = Some n \<and> req_ok n \<and>
     content n = content (tc_request RTM_NEWTFILTER iface 0 HNC_TC_H_INGRESS_PARENT (filter_info prio)) @ concat (map enc (filter_tree ifb))"
proof -
  define n0 where "n0 = tc_request RTM_NEWTFILTER iface 0 HNC_TC_H_INGRESS_PARENT (filter_info prio)"
  have n0: "req_ok n0" "length (content n0) = 36" "nlmsg_len n0 = 36" using tc_request_ok by (simp_all add: n0_def tc_request_def)
  have l: "align4 (4 + length (cbytes ''matchall'')) = 16" "length (enc (Attr TCA_KIND (cbytes ''matchall''))) = 16" by (simp_all add: cbytes_def align4_def)
  obtain n1 where n1: "addattr_l n0 sizeof_req TCA_KIND (cbytes ''matchall'') = Some n1" "req_ok n1" "content n1 = content n0 @ enc (Attr TCA_KIND (cbytes ''matchall''))"
    using addattr_l_ok[OF n0(1), of "cbytes ''matchall''" TCA_KIND] n0(3) l(1) sizeof_req_num by auto
  have L1: "nlmsg_len n1 = 52" using length_content[OF n1(2)] n1(3) n0(2) l(2) by simp
  obtain n2 where n2: "addattr_nest n1 sizeof_req TCA_OPTIONS = Some (length (content n1), n2)" "req_ok n2" "content n2 = content n1 @ u16 4 @ u16 TCA_OPTIONS"
    using addattr_nest_ok[OF n1(2), of TCA_OPTIONS] L1 sizeof_req_num by auto
  have L2: "nlmsg_len n2 = 56" using length_content[OF n2(2)] length_content[OF n1(2)] n2(3) L1 by simp
  obtain n3 where n3: "addattr_nest n2 sizeof_req TCA_MATCHALL_ACT = Some (length (content n2), n3)" "req_ok n3" "content n3 = content n2 @ u16 4 @ u16 TCA_MATCHALL_ACT"
    using addattr_nest_ok[OF n2(2), of TCA_MATCHALL_ACT] L2 sizeof_req_num by auto
  have L3: "nlmsg_len n3 = 60" using length_content[OF n3(2)] length_content[OF n2(2)] n3(3) L2 by simp
  obtain n4 where n4: "addattr_nest n3 sizeof_req 1 = Some (length (content n3), n4)" "req_ok n4" "content n4 = content n3 @ u16 4 @ u16 1"
    using addattr_nest_ok[OF n3(2), of 1] L3 sizeof_req_num by auto
  have L4: "nlmsg_len n4 = 64" using length_content[OF n4(2)] length_content[OF n3(2)] n4(3) L3 by simp
  define acts where "acts = enc (Attr TCA_ACT_KIND (cbytes ''mirred'')) @ enc (Nest (TCA_ACT_OPTIONS OR NLA_F_NESTED) [Attr TCA_MIRRED_PARMS (mirred_parms ifb)])"
  obtain n5 where n5: "append_mirred_action n4 sizeof_req ifb = Some n5" "req_ok n5" "content n5 = content n4 @ acts"
    using mirred_action_ok[OF n4(2), of ifb] L4 sizeof_req_num unfolding acts_def by auto
  have c5: "content n5 = content n3 @ u16 4 @ u16 1 @ acts" using n4(3) n5(3) by simp
  note e1 = addattr_nest_end_ok[OF n5(2) c5 refl]
  let ?n6 = "addattr_nest_end n5 (length (content n3))"
  define b1 where "b1 = u16 (4 + length acts) @ u16 1 @ acts"
  have c6: "content ?n6 = content n2 @ u16 4 @ u16 TCA_MATCHALL_ACT @ b1" using e1 n3(3) by (simp add: b1_def)
  note e2 = addattr_nest_end_ok[OF conjunct1[OF e1] c6 refl]
  let ?n7 = "addattr_nest_end ?n6 (length (content n2))"
  define b2 where "b2 = u16 (4 + length b1) @ u16 TCA_MATCHALL_ACT @ b1"
  have c7: "content ?n7 = content n1 @ u16 4 @ u16 TCA_OPTIONS @ b2" using e2 n2(3) by (simp add: b2_def)
  note e3 = addattr_nest_end_ok[OF conjunct1[OF e2] c7 refl]
  have "matchall_request iface ifb prio = Some (addattr_nest_end ?n7 (length (content n1)))"
    using n1(1) n2(1) n3(1) n4(1) n5(1) by (simp add: matchall_request_def n0_def[symmetric])
  moreover have "concat (map enc (filter_tree ifb)) = enc (Attr TCA_KIND (cbytes ''matchall'')) @ u16 (4 + length b2) @ u16 TCA_OPTIONS @ b2"
    by (simp add: filter_tree_def b2_def b1_def acts_def Let_def del: enc.simps(1))
  ultimately show ?thesis using e3 n1(3) by (simp add: n0_def[symmetric] del: enc.simps)
qed

section \<open>Reading the attributes back\<close>

definition get16 :: "nat list \<Rightarrow> nat" where "get16 bs = bs ! 0 + 256 * bs ! 1"

text \<open>The kernel's loop over attributes, \<^verbatim>\<open>RTA_OK\<close> and \<^verbatim>\<open>RTA_NEXT\<close>: types and payloads.\<close>

function rta_parse :: "nat list \<Rightarrow> (nat \<times> nat list) list" where
  "rta_parse bs =
     (if length bs < 4 \<or> get16 bs < 4 \<or> get16 bs > length bs then []
      else (get16 (drop 2 bs), drop 4 (take (get16 bs) bs)) # rta_parse (drop (align4 (get16 bs)) bs))"
  by pat_completeness auto
termination
proof (relation "measure length")
  fix bs :: "nat list" assume "\<not> (length bs < 4 \<or> get16 bs < 4 \<or> get16 bs > length bs)"
  moreover have "get16 bs \<le> align4 (get16 bs)" by (rule align4_ge)
  ultimately have "0 < align4 (get16 bs)" "0 < length bs" by linarith+
  then show "(drop (align4 (get16 bs)) bs, bs) \<in> measure length" by simp
qed simp

declare rta_parse.simps [simp del]

lemma rta_parse_Nil [simp]: "rta_parse [] = []"
  by (subst rta_parse.simps) simp

fun attr_view :: "nlattr \<Rightarrow> nat \<times> nat list" where
  "attr_view (Attr t d) = (t, d)"
| "attr_view (Nest t as) = (t, concat (map enc as))"

definition attr_fits :: "nlattr \<Rightarrow> bool" where
  "attr_fits a \<longleftrightarrow> fst (attr_view a) < 65536 \<and> 4 + length (snd (attr_view a)) < 65536"

lemma get16_u16: "n < 65536 \<Longrightarrow> get16 (u16 n @ r) = n"
  unfolding get16_def u16_def by simp

lemma length_enc: "4 dvd length (enc a)"
proof (induction a)
  case (Attr t d)
  have "length (enc (Attr t d)) = align4 (4 + length d)" using align4_ge[of "4 + length d"] by simp
  then show ?case by (simp only: align4_dvd)
next
  case (Nest t as)
  have "4 dvd length (concat (map enc as))" using Nest by (induction "as") auto
  moreover have "length (enc (Nest t as)) = 4 + length (concat (map enc as))" by (simp add: Let_def)
  ultimately show ?case by (simp only: dvd_add_triv_left_iff)
qed

lemma enc_view: "\<exists>pad. enc a = u16 (4 + length (snd (attr_view a))) @ u16 (fst (attr_view a)) @ snd (attr_view a) @ pad \<and>
    length (enc a) = align4 (4 + length (snd (attr_view a)))"
proof (cases a)
  case (Attr t d)
  then show ?thesis using align4_ge[of "4 + length d"] by simp
next
  case (Nest t as)
  then have l: "length (enc a) = 4 + length (snd (attr_view a))" by (simp add: Let_def)
  moreover have "align4 (4 + length (snd (attr_view a))) = 4 + length (snd (attr_view a))" by (rule align4_id) (use length_enc[of a] in \<open>simp only: l\<close>)
  ultimately show ?thesis using Nest by (intro exI[of _ "[]"]) (simp add: Let_def)
qed

lemma rta_parse_step:
  assumes "attr_fits a"
  shows "rta_parse (enc a @ r) = attr_view a # rta_parse r"
proof -
  obtain pad where e: "enc a = u16 (4 + length (snd (attr_view a))) @ u16 (fst (attr_view a)) @ snd (attr_view a) @ pad"
    and l: "length (enc a) = align4 (4 + length (snd (attr_view a)))" using enc_view by blast
  let ?l = "4 + length (snd (attr_view a))"
  have g: "get16 (enc a @ r) = ?l" unfolding e using assms by (simp add: get16_u16 attr_fits_def)
  have "get16 (drop 2 (enc a @ r)) = fst (attr_view a)" unfolding e using assms by (simp add: get16_u16 attr_fits_def)
  moreover have "drop 4 (take ?l (enc a @ r)) = snd (attr_view a)" unfolding e by simp
  moreover have "drop (align4 ?l) (enc a @ r) = r" using l by simp
  moreover have "length (enc a @ r) \<ge> ?l" using align4_ge[of ?l] l by simp
  ultimately show ?thesis using g by (subst rta_parse.simps) (simp add: prod_eq_iff)
qed

lemma rta_parse_enc: "list_all attr_fits as \<Longrightarrow> rta_parse (concat (map enc as)) = map attr_view as"
  by (induction "as") (simp_all add: rta_parse_step)

text \<open>
  C22: The filter request is exactly the message that \<^verbatim>\<open>tc filter add ... ingress prio p protocol all matchall
  action mirred egress redirect\<close> means: it fits its buffer, the 112 bytes sent begin with the
  header (length, type, flags, sequence number, interface, ingress parent, priority and
  protocol) and continue with the encoding of the attribute tree, and the kernel's loop over
  attributes reads each level of the tree back.
\<close>

theorem matchall_message_exact:
  "\<exists>n. matchall_request iface ifb prio = Some n \<and>
     sent_bytes sq n = tc_header 112 RTM_NEWTFILTER (unat sq) iface 0 HNC_TC_H_INGRESS_PARENT (filter_info prio) @ concat (map enc (filter_tree ifb)) \<and>
     length (sent_bytes sq n) = 112 \<and>
     (\<exists>opts acts act1 parms.
        rta_parse (drop 36 (sent_bytes sq n)) = [(TCA_KIND, cbytes ''matchall''), (TCA_OPTIONS, opts)] \<and>
        rta_parse opts = [(TCA_MATCHALL_ACT, acts)] \<and> rta_parse acts = [(1, act1)] \<and>
        rta_parse act1 = [(TCA_ACT_KIND, cbytes ''mirred''), (TCA_ACT_OPTIONS OR NLA_F_NESTED, parms)] \<and>
        rta_parse parms = [(TCA_MIRRED_PARMS, mirred_parms ifb)])"
proof -
  obtain n where n: "matchall_request iface ifb prio = Some n" "req_ok n"
    "content n = content (tc_request RTM_NEWTFILTER iface 0 HNC_TC_H_INGRESS_PARENT (filter_info prio)) @ concat (map enc (filter_tree ifb))"
    using matchall_ok by blast
  let ?parms = "[Attr TCA_MIRRED_PARMS (mirred_parms ifb)]"
  let ?act1 = "[Attr TCA_ACT_KIND (cbytes ''mirred''), Nest (TCA_ACT_OPTIONS OR NLA_F_NESTED) ?parms]"
  let ?acts = "[Nest 1 ?act1]" and ?bs = "\<lambda>as. concat (map enc as)"
  have lp: "length (?bs ?parms) = 32" by (simp add: mirred_parms_def align4_def)
  have la: "length (?bs ?act1) = 48" using lp by (simp add: cbytes_def align4_def Let_def)
  have lt: "length (?bs ?acts) = 52" "length (?bs [Nest TCA_MATCHALL_ACT ?acts]) = 56" using la by (simp_all add: Let_def)
  have ft: "length (?bs (filter_tree ifb)) = 76" using lt by (simp add: filter_tree_def cbytes_def align4_def Let_def)
  note nums = attr_fits_def TCA_KIND_def TCA_OPTIONS_def TCA_MATCHALL_ACT_def TCA_ACT_KIND_def TCA_ACT_OPTIONS_def TCA_MIRRED_PARMS_def NLA_F_NESTED_def
  have f: "list_all attr_fits ?parms" "list_all attr_fits ?act1" "list_all attr_fits ?acts" "list_all attr_fits [Nest TCA_MATCHALL_ACT ?acts]"
    "list_all attr_fits (filter_tree ifb)"
    using lp la lt by (simp_all add: nums filter_tree_def cbytes_def mirred_parms_def del: enc.simps concat.simps list.map)
  have s: "sent_bytes sq n = tc_header 112 RTM_NEWTFILTER (unat sq) iface 0 HNC_TC_H_INGRESS_PARENT (filter_info prio) @ ?bs (filter_tree ifb)"
    using stamped[OF n(2), of RTM_NEWTFILTER iface 0 HNC_TC_H_INGRESS_PARENT "filter_info prio" "?bs (filter_tree ifb)" sq] n(3) tc_request_ok ft by simp
  have h: "length (tc_header 112 RTM_NEWTFILTER (unat sq) iface 0 HNC_TC_H_INGRESS_PARENT (filter_info prio)) = 36" by (simp add: tc_header_def)
  have "rta_parse (drop 36 (sent_bytes sq n)) = [(TCA_KIND, cbytes ''matchall''), (TCA_OPTIONS, ?bs [Nest TCA_MATCHALL_ACT ?acts])]"
    unfolding s using h rta_parse_enc[OF f(5)] by (simp add: filter_tree_def del: enc.simps)
  moreover have "rta_parse (?bs [Nest TCA_MATCHALL_ACT ?acts]) = [(TCA_MATCHALL_ACT, ?bs ?acts)]" using rta_parse_enc[OF f(4)] by (simp del: enc.simps)
  moreover have "rta_parse (?bs ?acts) = [(1, ?bs ?act1)]" using rta_parse_enc[OF f(3)] by (simp del: enc.simps)
  moreover have "rta_parse (?bs ?act1) = [(TCA_ACT_KIND, cbytes ''mirred''), (TCA_ACT_OPTIONS OR NLA_F_NESTED, ?bs ?parms)]" using rta_parse_enc[OF f(2)] by (simp del: enc.simps)
  moreover have "rta_parse (?bs ?parms) = [(TCA_MIRRED_PARMS, mirred_parms ifb)]" using rta_parse_enc[OF f(1)] by (simp del: enc.simps)
  ultimately have "\<exists>opts acts act1 parms.
      rta_parse (drop 36 (sent_bytes sq n)) = [(TCA_KIND, cbytes ''matchall''), (TCA_OPTIONS, opts)] \<and>
      rta_parse opts = [(TCA_MATCHALL_ACT, acts)] \<and> rta_parse acts = [(1, act1)] \<and>
      rta_parse act1 = [(TCA_ACT_KIND, cbytes ''mirred''), (TCA_ACT_OPTIONS OR NLA_F_NESTED, parms)] \<and>
      rta_parse parms = [(TCA_MIRRED_PARMS, mirred_parms ifb)]" by blast
  moreover have "length (sent_bytes sq n) = 112" unfolding s length_append h ft by simp
  ultimately show ?thesis using n(1) s by blast
qed

section \<open>Acknowledgements and exit codes\<close>

text \<open>Datagrams without an answer to this request.\<close>

definition stray :: "32 word \<Rightarrow> recv_ret \<Rightarrow> bool" where
  "stray sq r \<longleftrightarrow> (case r of Rv_eintr \<Rightarrow> True | Rv_data hs \<Rightarrow> list_all (\<lambda>h. rp_seq h \<noteq> sq) hs | _ \<Rightarrow> False)"

definition acknowledged :: "32 word \<Rightarrow> recv_ret list \<Rightarrow> bool" where
  "acknowledged sq rs \<longleftrightarrow> (\<exists>rs1 hs1 h hs2 rs2. rs = rs1 @ Rv_data (hs1 @ h # hs2) # rs2 \<and> list_all (stray sq) rs1 \<and>
     list_all (\<lambda>h. rp_seq h \<noteq> sq) hs1 \<and> rp_seq h = sq \<and> rp_type h = NLMSG_ERROR \<and> rp_error h \<in> {0, - EEXIST})"

lemma scan_strays: "list_all (\<lambda>h. rp_seq h \<noteq> sq) hs1 \<Longrightarrow> scan_replies sq (hs1 @ hs) = scan_replies sq hs"
  by (induction hs1) auto

lemma recv_strays: "list_all (stray sq) rs1 \<Longrightarrow> recv_ack sq (rs1 @ rs) = recv_ack sq rs"
proof (induction rs1)
  case (Cons r rs1)
  then show ?case using scan_strays[of sq _ "[]"] by (cases r) (auto simp: stray_def)
qed simp

lemma recv_acknowledged: "acknowledged sq rs \<Longrightarrow> recv_ack sq rs = Some 0"
  by (auto simp: acknowledged_def recv_strays scan_strays)

text \<open>
  The exit code tells what was done.  For a call with an existing interface, an existing target and an
  open socket whose sends are complete: if the kernel acknowledges the discipline and the
  filter, or reports that they exist already, the tool exits with 0, whatever replies to other
  sequence numbers and interruptions come in between; a refused discipline gives 3 and
  the filter is not tried.  A missing interface gives 1, a missing target 2 and a priority
  that is not a number from 1 to 65535 gives 4, before anything is sent.
\<close>

lemma tc_main_codes:
  assumes "tc_index env iface \<noteq> 0" and "tc_index env ifb \<noteq> 0" and "tc_socket env"
    and "tc_sent1 env = Inr 48" and "tc_sent2 env = Inr 112"
  defines "sq \<equiv> rtnl_seed 0 (tc_time env) (tc_pid env)"
  shows "(acknowledged (sq + 1) (tc_recv1 env) \<and> acknowledged (sq + 2) (tc_recv2 env) \<longrightarrow> tc_ingress_main env [iface, ifb] = Some RC_OK) \<and>
    (\<forall>e > 0. recv_ack (sq + 1) (tc_recv1 env) = Some (- e) \<longrightarrow> tc_ingress_main env [iface, ifb] = Some RC_NETLINK_ERROR) \<and>
    (acknowledged (sq + 1) (tc_recv1 env) \<longrightarrow> (\<forall>e > 0. recv_ack (sq + 2) (tc_recv2 env) = Some (- e) \<longrightarrow> tc_ingress_main env [iface, ifb] = Some RC_NETLINK_ERROR)) \<and>
    tc_ingress_main (env\<lparr>tc_index := (tc_index env)(iface := 0)\<rparr>) [iface, ifb] = Some RC_IFACE_NOT_FOUND \<and>
    (iface \<noteq> ifb \<longrightarrow> tc_ingress_main (env\<lparr>tc_index := (tc_index env)(ifb := 0)\<rparr>) [iface, ifb] = Some RC_IFB_NOT_FOUND) \<and>
    (\<forall>p. prio_arg p = None \<longrightarrow> tc_ingress_main env [iface, ifb, p] = Some RC_USAGE)"
proof -
  have c: "\<exists>n. clsact_request (tc_index env iface) = Some n \<and> nlmsg_len n = 48"
  proof -
    have a: "align4 (4 + length (cbytes ''clsact'')) = 12" by (simp add: cbytes_def align4_def)
    let ?n = "tc_request RTM_NEWQDISC (tc_index env iface) HNC_TC_H_CLSACT_HANDLE TC_H_CLSACT 0"
    have l: "nlmsg_len ?n = 36" by (simp add: tc_request_def)
    then obtain n where n: "clsact_request (tc_index env iface) = Some n" "req_ok n" "content n = content ?n @ enc (Attr TCA_KIND (cbytes ''clsact''))"
      using addattr_l_ok[of ?n "cbytes ''clsact''" TCA_KIND] tc_request_ok a sizeof_req_num by (auto simp: clsact_request_def)
    have "length (enc (Attr TCA_KIND (cbytes ''clsact''))) = 12" by (simp add: cbytes_def align4_def)
    then have "nlmsg_len n = 48" using length_content[OF n(2)] n(3) tc_request_ok l by (simp add: length_content)
    then show ?thesis using n(1) by blast
  qed
  have m: "\<exists>n. matchall_request (tc_index env iface) (tc_index env ifb) 1 = Some n \<and> nlmsg_len n = 112"
  proof -
    obtain n where n: "matchall_request (tc_index env iface) (tc_index env ifb) 1 = Some n" "req_ok n"
      "content n = content (tc_request RTM_NEWTFILTER (tc_index env iface) 0 HNC_TC_H_INGRESS_PARENT (filter_info 1)) @ concat (map enc (filter_tree (tc_index env ifb)))"
      using matchall_ok by blast
    have "length (concat (map enc (filter_tree (tc_index env ifb)))) = 76" by (simp add: filter_tree_def cbytes_def mirred_parms_def align4_def Let_def)
    then have "nlmsg_len n = 112" using length_content[OF n(2)] n(3) tc_request_ok by simp
    then show ?thesis using n(1) by blast
  qed
  have i1: "install_clsact sq (tc_index env iface) (tc_sent1 env) (tc_recv1 env) = (recv_ack (sq + 1) (tc_recv1 env), sq + 1)"
    using c assms(4) by (auto simp: install_clsact_def rtnl_send_ack_def Let_def)
  have i2: "install_matchall_filter (sq + 1) (tc_index env iface) (tc_index env ifb) 1 (tc_sent2 env) (tc_recv2 env) = (recv_ack (sq + 2) (tc_recv2 env), sq + 2)"
    using m assms(5) by (auto simp: install_matchall_filter_def rtnl_send_ack_def Let_def add.assoc)
  note d = tc_ingress_main_def Let_def i1 i2 sq_def[symmetric]
  show ?thesis
    using assms(1-3) recv_acknowledged[of "sq + 1" "tc_recv1 env"] recv_acknowledged[of "sq + 2" "tc_recv2 env"] i1 i2
    by (auto simp: d)
qed

text \<open>A run that meets an interruption, a stale reply and an existing discipline.\<close>

definition demo_tc_env :: tc_env where
  "demo_tc_env =
     \<lparr>tc_index = (\<lambda>n. if n = ''wlan2'' then 31 else if n = ''ifb0'' then 7 else 0), tc_socket = True, tc_time = 5, tc_pid = 0,
      tc_sent1 = Inr 48,
      tc_recv1 = [Rv_eintr, Rv_data [\<lparr>rp_seq = 3, rp_type = NLMSG_ERROR, rp_error = -1\<rparr>, \<lparr>rp_seq = 6, rp_type = NLMSG_ERROR, rp_error = - EEXIST\<rparr>]],
      tc_sent2 = Inr 112,
      tc_recv2 = [Rv_data [\<lparr>rp_seq = 7, rp_type = NLMSG_ERROR, rp_error = 0\<rparr>]]\<rparr>"

lemma tc_main_codes_witness:
  "tc_ingress_main demo_tc_env [''wlan2'', ''ifb0''] = Some RC_OK \<and>
   tc_ingress_main (demo_tc_env\<lparr>tc_index := (tc_index demo_tc_env)(''ifb0'' := 0)\<rparr>) [''wlan2'', ''ifb0''] = Some RC_IFB_NOT_FOUND"
proof -
  let ?h = "\<lparr>rp_seq = (6 :: 32 word), rp_type = NLMSG_ERROR, rp_error = - EEXIST\<rparr>" and ?s = "\<lparr>rp_seq = (3 :: 32 word), rp_type = NLMSG_ERROR, rp_error = -1\<rparr>"
  have r1: "acknowledged 6 (tc_recv1 demo_tc_env)" unfolding acknowledged_def
    by (rule exI[of _ "[Rv_eintr]"], rule exI[of _ "[?s]"], rule exI[of _ ?h], rule exI[of _ "[]"], rule exI[of _ "[]"]) (simp add: demo_tc_env_def stray_def)
  have r2: "acknowledged 7 (tc_recv2 demo_tc_env)" unfolding acknowledged_def
    by (rule exI[of _ "[]"], rule exI[of _ "[]"], rule exI[of _ "\<lparr>rp_seq = 7, rp_type = NLMSG_ERROR, rp_error = 0\<rparr>"], rule exI[of _ "[]"], rule exI[of _ "[]"])
      (simp add: demo_tc_env_def)
  have q: "rtnl_seed 0 (tc_time demo_tc_env) (tc_pid demo_tc_env) = 5" by (simp add: rtnl_seed_def demo_tc_env_def)
  have e: "tc_index demo_tc_env ''wlan2'' \<noteq> 0" "tc_index demo_tc_env ''ifb0'' \<noteq> 0" "tc_socket demo_tc_env" "tc_sent1 demo_tc_env = Inr 48" "tc_sent2 demo_tc_env = Inr 112"
    by (simp_all add: demo_tc_env_def)
  show ?thesis using tc_main_codes[of demo_tc_env "''wlan2''" "''ifb0''", OF e] r1 r2 unfolding q by simp
qed

end
