(* ===== verification/Upstream.thy ===== *)
theory Upstream
  imports CText AdapterBpf
begin

text \<open>
  The detection of the upstream interface, \<^verbatim>\<open>daemon/hotspotd/upstream.c\<close>: the four tiers and their order.
  The tables of interfaces, the output of \<^verbatim>\<open>ip route get\<close>, the routing file and the two maps of the
  kernel are an environment.  \<^verbatim>\<open>BPF_MAP_GET_NEXT_KEY\<close> is a function of the key it is given
  (\<^const>\<open>None\<close>: the null pointer) that returns an error number or the next key.
\<close>

definition IFNAMSIZ :: nat where "IFNAMSIZ = 16"

record up_env =
  if_nametoindex :: "string \<Rightarrow> nat"
  if_indextoname :: "nat \<Rightarrow> string option"
  ip_route_output :: "string option"
  proc_net_route :: "string option"
  upstream4_open :: bool
  upstream4_next :: "nat list option \<Rightarrow> nat + nat list"
  upstream4_lookup :: "nat list \<Rightarrow> nat list option"
  limit_open :: bool
  limit_next :: "nat option \<Rightarrow> nat + nat"

text \<open>What a tier stores in its two results.\<close>

definition found_iface :: "nat \<Rightarrow> nat \<Rightarrow> string \<Rightarrow> int \<times> string" where
  "found_iface ifname_size idx name = (c_int (int idx), cbuf ifname_size name)"

section \<open>Tier 1: ip route get\<close>

definition vpn_iface :: "string \<Rightarrow> bool" where
  "vpn_iface iface \<longleftrightarrow> prefix ''tun'' iface \<or> prefix ''tap'' iface \<or> prefix ''ppp'' iface \<or> prefix ''wg'' iface \<or>
     prefix ''gre'' iface \<or> prefix ''ipsec'' iface"

definition ip_route_line :: "up_env \<Rightarrow> string \<Rightarrow> (nat \<times> string) option" where
  "ip_route_line env line =
     (case strstr '' dev '' line of
        None \<Rightarrow> None
      | Some dev \<Rightarrow>
          (let iface = takeWhile (\<lambda>c. \<not> c_isspace c) (take (IFNAMSIZ - 1) (drop 5 dev))
           in if iface = [] then None
              else if vpn_iface iface then None
              else if if_nametoindex env iface = 0 then None
              else Some (if_nametoindex env iface, iface)))"

text \<open>The loop over the lines: the first one that yields an interface.\<close>

fun first_some :: "('a \<Rightarrow> 'b option) \<Rightarrow> 'a list \<Rightarrow> 'b option" where
  "first_some f [] = None"
| "first_some f (x # xs) = (case f x of Some y \<Rightarrow> Some y | None \<Rightarrow> first_some f xs)"

definition upstream_detect_via_ip_route :: "up_env \<Rightarrow> nat \<Rightarrow> (int \<times> string) option" where
  "upstream_detect_via_ip_route env ifname_size =
     (if ifname_size < 2 then None
      else case ip_route_output env of
        None \<Rightarrow> None
      | Some out \<Rightarrow> map_option (\<lambda>(idx, name). found_iface ifname_size idx name) (first_some (ip_route_line env) (fgets_lines 510 out)))"

section \<open>Tier 2: the routing file\<close>

definition looks_like_uplink_iface :: "string \<Rightarrow> bool" where
  "looks_like_uplink_iface name =
     (if prefix ''wlan2'' name then False
      else if prefix ''ap'' name then False
      else if prefix ''swlan'' name then False
      else if prefix ''rmnet'' name then True
      else if prefix ''wwan'' name then True
      else if prefix ''eth'' name then True
      else if prefix ''ppp'' name then True
      else if prefix ''wlan0'' name then True
      else if prefix ''wlan1'' name then True
      else False)"

text \<open>
  \<^verbatim>\<open>%x\<close>: blanks, a sign, \<^verbatim>\<open>0x\<close> before a digit, digits; a number beyond 64 bits stays at their
  end, then the low 32 bits are kept.
\<close>

definition hex_digit_val :: "char \<Rightarrow> nat" where
  "hex_digit_val c = (if c_isdigit c then ord c - 48 else ord (c_tolower c) - 87)"

fun scan_hex :: "nat \<Rightarrow> string \<Rightarrow> nat" where
  "scan_hex acc [] = acc"
| "scan_hex acc (c # cs) = (if c_isxdigit c then scan_hex (16 * acc + hex_digit_val c) cs else acc)"

definition scan_x :: "string \<Rightarrow> nat option" where
  "scan_x s =
     (let t = dropWhile c_isspace s;
          u = (if t \<noteq> [] \<and> (hd t = CHR ''-'' \<or> hd t = CHR ''+'') then tl t else t);
          v = (if length u \<ge> 3 \<and> hd u = CHR ''0'' \<and> c_tolower (u ! 1) = CHR ''x'' \<and> c_isxdigit (u ! 2) then drop 2 u else u);
          m = min (scan_hex 0 v) (2 ^ 64 - 1)
      in if v = [] \<or> \<not> c_isxdigit (hd v) then None
         else Some (if hd t = CHR ''-'' then nat ((- int m) mod 2 ^ 32) else m mod 2 ^ 32))"

definition proc_route_line :: "up_env \<Rightarrow> string \<Rightarrow> (nat \<times> string) option" where
  "proc_route_line env line =
     (case scan_s 15 line of None \<Rightarrow> None | Some (iface, r1) \<Rightarrow>
     (case scan_s 15 r1 of None \<Rightarrow> None | Some (dest, r2) \<Rightarrow>
     (case scan_s (length r2) r2 of None \<Rightarrow> None | Some (gateway, r3) \<Rightarrow>
     (case scan_x r3 of None \<Rightarrow> None | Some flags \<Rightarrow>
        if even flags then None
        else if \<not> looks_like_uplink_iface iface then None
        else if if_nametoindex env iface = 0 then None
        else Some (if_nametoindex env iface, iface)))))"

definition upstream_detect_via_proc_route :: "up_env \<Rightarrow> nat \<Rightarrow> (int \<times> string) option" where
  "upstream_detect_via_proc_route env ifname_size =
     (if ifname_size < 2 then None
      else case proc_net_route env of
        None \<Rightarrow> None
      | Some s \<Rightarrow>
          (case fgets_lines 510 s of
             [] \<Rightarrow> None
           | header # ls \<Rightarrow> map_option (\<lambda>(idx, name). found_iface ifname_size idx name) (first_some (proc_route_line env) ls)))"

section \<open>Tier 3: the map of upstream flows\<close>

text \<open>The first key: after the zeroed buffer of 128 bytes, then after the null pointer.\<close>

definition upstream4_key :: "up_env \<Rightarrow> nat list option" where
  "upstream4_key env =
     (case upstream4_next env (Some (replicate 128 0)) of
        Inr k \<Rightarrow> Some k
      | Inl e \<Rightarrow> if e \<noteq> ENOENT then None else (case upstream4_next env None of Inl _ \<Rightarrow> None | Inr k \<Rightarrow> Some k))"

text \<open>The value is copied into a zeroed buffer; its first four bytes are the interface index.\<close>

definition value_oif :: "nat list \<Rightarrow> nat" where
  "value_oif v = (let b = (\<lambda>i. if i < length v then v ! i mod 256 else 0) in b 0 + 256 * b 1 + 65536 * b 2 + 16777216 * b 3)"

definition upstream_detect_via_bpf :: "up_env \<Rightarrow> nat \<Rightarrow> (int \<times> string) option" where
  "upstream_detect_via_bpf env ifname_size =
     (if ifname_size < 2 then None
      else if \<not> upstream4_open env then None
      else case upstream4_key env of
        None \<Rightarrow> None
      | Some next_key \<Rightarrow>
          (case upstream4_lookup env next_key of
             None \<Rightarrow> None
           | Some value \<Rightarrow>
               (let oif = value_oif value
                in if oif = 0 \<or> oif > 65535 then None
                   else case if_indextoname env oif of None \<Rightarrow> None | Some name \<Rightarrow> Some (found_iface ifname_size oif name))))"

section \<open>Tier 4: the limit map\<close>

text \<open>The loop that collects keys; \<open>prev\<close> is \<^const>\<open>None\<close> in the first turn, \<open>n\<close> is the room left in the array.\<close>

fun limit_keys :: "(nat option \<Rightarrow> nat + nat) \<Rightarrow> nat \<Rightarrow> nat option \<Rightarrow> nat list" where
  "limit_keys next 0 prev = []"
| "limit_keys next (Suc n) prev =
     (let r = (case prev of
                 None \<Rightarrow> (case next (Some 0) of Inl e \<Rightarrow> if e = ENOENT then next None else Inl e | Inr k \<Rightarrow> Inr k)
               | Some k \<Rightarrow> next (Some k))
      in case r of Inl _ \<Rightarrow> [] | Inr k \<Rightarrow> k # limit_keys next n (Some k))"

definition limit_viable :: "up_env \<Rightarrow> nat \<Rightarrow> (nat \<times> string) option" where
  "limit_viable env idx =
     (let wlan2_idx = if_nametoindex env ''wlan2''; ap0_idx = if_nametoindex env ''ap0''; swlan0_idx = if_nametoindex env ''swlan0''
      in if idx = 0 then None
         else if wlan2_idx \<noteq> 0 \<and> idx = wlan2_idx then None
         else if ap0_idx \<noteq> 0 \<and> idx = ap0_idx then None
         else if swlan0_idx \<noteq> 0 \<and> idx = swlan0_idx then None
         else case if_indextoname env idx of
           None \<Rightarrow> None
         | Some name \<Rightarrow>
             if prefix ''wlan2'' name \<or> prefix ''tun'' name \<or> prefix ''tap'' name \<or> prefix ''wg'' name \<or> prefix ''ppp'' name \<or>
                prefix ''ap'' name \<or> prefix ''swlan'' name \<or> prefix ''lo'' name then None
             else Some (idx, name))"

definition upstream_detect_via_limit_map :: "up_env \<Rightarrow> nat \<Rightarrow> (int \<times> string) option" where
  "upstream_detect_via_limit_map env ifname_size =
     (if ifname_size < 2 then None
      else if \<not> limit_open env then None
      else let ifindexes = limit_keys (limit_next env) 16 None
           in if ifindexes = [] then None
              else map_option (\<lambda>(idx, name). found_iface ifname_size idx name) (first_some (limit_viable env) ifindexes))"

section \<open>The order of the tiers\<close>

definition upstream_detect_primary :: "up_env \<Rightarrow> nat \<Rightarrow> (int \<times> string) option" where
  "upstream_detect_primary env ifname_size =
     (case upstream_detect_via_bpf env ifname_size of Some r \<Rightarrow> Some r | None \<Rightarrow>
     (case upstream_detect_via_limit_map env ifname_size of Some r \<Rightarrow> Some r | None \<Rightarrow>
     (case upstream_detect_via_ip_route env ifname_size of Some r \<Rightarrow> Some r | None \<Rightarrow>
      upstream_detect_via_proc_route env ifname_size)))"

section \<open>What is detected\<close>

text \<open>
  The two interface tables of the C library agree: an index above zero belongs to exactly one
  name, indices fit an \<^verbatim>\<open>int\<close> and names their buffer.
\<close>

definition if_tables :: "up_env \<Rightarrow> bool" where
  "if_tables env \<longleftrightarrow>
     (\<forall>n i. 0 < i \<longrightarrow> (if_nametoindex env n = i \<longleftrightarrow> if_indextoname env i = Some n)) \<and>
     (\<forall>n. if_nametoindex env n < 2 ^ 31 \<and> (if_nametoindex env n \<noteq> 0 \<longrightarrow> length n < IFNAMSIZ))"

definition tunnel :: "string \<Rightarrow> bool" where
  "tunnel n \<longleftrightarrow> prefix ''tun'' n \<or> prefix ''tap'' n \<or> prefix ''wg'' n"

lemma first_some_in: "first_some f xs = Some y \<Longrightarrow> \<exists>x \<in> set xs. f x = Some y"
  by (induction xs) (auto split: option.splits)

lemma found_iface_ok:
  assumes "if_tables env" and "0 < i" and "if_indextoname env i = Some n" and "IFNAMSIZ \<le> sz"
  shows "found_iface sz i n = (int i, n)"
proof -
  have i: "if_nametoindex env n = i" using assms(1-3) by (auto simp: if_tables_def)
  have "if_nametoindex env n < 2 ^ 31 \<and> (if_nametoindex env n \<noteq> 0 \<longrightarrow> length n < IFNAMSIZ)" using assms(1) unfolding if_tables_def by blast
  then have "i < 2 ^ 31" "length n < IFNAMSIZ" using i assms(2) by auto
  then show ?thesis using assms(4) by (simp add: found_iface_def c_int_def cbuf_def)
qed

text \<open>Two different first letters exclude each other as prefixes.\<close>

lemma uplink_no_tunnel: "looks_like_uplink_iface n \<Longrightarrow> \<not> tunnel n"
  by (cases n; cases "tl n"; cases "tl (tl n)") (auto simp: looks_like_uplink_iface_def tunnel_def split: if_splits)

lemma limit_viable_ok: "limit_viable env k = Some (i, n) \<Longrightarrow> 0 < i \<and> if_indextoname env i = Some n \<and> \<not> tunnel n"
  by (auto simp: limit_viable_def tunnel_def Let_def split: if_splits option.splits)

lemma named_ok: "if_tables env \<Longrightarrow> if_nametoindex env n \<noteq> 0 \<Longrightarrow> 0 < if_nametoindex env n \<and> if_indextoname env (if_nametoindex env n) = Some n"
  by (auto simp: if_tables_def)

lemma ip_route_line_ok: "if_tables env \<Longrightarrow> ip_route_line env l = Some (i, n) \<Longrightarrow> 0 < i \<and> if_indextoname env i = Some n \<and> \<not> tunnel n"
  by (auto simp: ip_route_line_def vpn_iface_def tunnel_def Let_def named_ok split: if_splits option.splits)

lemma proc_route_line_ok: "if_tables env \<Longrightarrow> proc_route_line env l = Some (i, n) \<Longrightarrow> 0 < i \<and> if_indextoname env i = Some n \<and> \<not> tunnel n"
  by (auto simp: proc_route_line_def named_ok uplink_no_tunnel split: if_splits option.splits)

text \<open>One lemma for the three tiers that run through a list of candidates.\<close>

lemma scan_ok:
  assumes "if_tables env" and "IFNAMSIZ \<le> sz"
    and "map_option (\<lambda>(idx, name). found_iface sz idx name) (first_some f xs) = Some (i, n)"
    and "\<And>x j m. f x = Some (j, m) \<Longrightarrow> 0 < j \<and> if_indextoname env j = Some m \<and> \<not> tunnel m"
  shows "0 < i \<and> if_indextoname env (nat i) = Some n \<and> \<not> tunnel n"
proof -
  obtain j m where f: "first_some f xs = Some (j, m)" and r: "found_iface sz j m = (i, n)" using assms(3) by (auto split: prod.splits)
  obtain x where "f x = Some (j, m)" using first_some_in[OF f] by blast
  then have jm: "0 < j \<and> if_indextoname env j = Some m \<and> \<not> tunnel m" by (rule assms(4))
  then show ?thesis using found_iface_ok[OF assms(1) _ _ assms(2)] r by auto
qed

lemma via_bpf_ok:
  assumes "if_tables env" and "IFNAMSIZ \<le> sz" and "upstream_detect_via_bpf env sz = Some (i, n)"
  shows "0 < i \<and> if_indextoname env (nat i) = Some n"
proof -
  have "\<exists>j m. 0 < j \<and> if_indextoname env j = Some m \<and> found_iface sz j m = (i, n)"
    using assms(3) by (auto simp: upstream_detect_via_bpf_def Let_def split: if_splits option.splits)
  then show ?thesis using found_iface_ok[OF assms(1) _ _ assms(2)] by fastforce
qed

lemma later_tiers_ok:
  assumes "if_tables env" and "IFNAMSIZ \<le> sz"
  shows "upstream_detect_via_limit_map env sz = Some (i, n) \<Longrightarrow> 0 < i \<and> if_indextoname env (nat i) = Some n \<and> \<not> tunnel n"
    and "upstream_detect_via_ip_route env sz = Some (i, n) \<Longrightarrow> 0 < i \<and> if_indextoname env (nat i) = Some n \<and> \<not> tunnel n"
    and "upstream_detect_via_proc_route env sz = Some (i, n) \<Longrightarrow> 0 < i \<and> if_indextoname env (nat i) = Some n \<and> \<not> tunnel n"
proof -
  note r = scan_ok[OF assms]
  show "0 < i \<and> if_indextoname env (nat i) = Some n \<and> \<not> tunnel n" if "upstream_detect_via_limit_map env sz = Some (i, n)"
    by (rule r[of "limit_viable env" "limit_keys (limit_next env) 16 None"])
      (use that in \<open>auto simp: upstream_detect_via_limit_map_def Let_def limit_viable_ok split: if_splits\<close>)
  show "0 < i \<and> if_indextoname env (nat i) = Some n \<and> \<not> tunnel n" if "upstream_detect_via_ip_route env sz = Some (i, n)"
    by (rule r[of "ip_route_line env" "fgets_lines 510 (the (ip_route_output env))"])
      (use that in \<open>auto simp: upstream_detect_via_ip_route_def ip_route_line_ok[OF assms(1)] split: if_splits option.splits\<close>)
  show "0 < i \<and> if_indextoname env (nat i) = Some n \<and> \<not> tunnel n" if "upstream_detect_via_proc_route env sz = Some (i, n)"
    by (rule r[of "proc_route_line env" "tl (fgets_lines 510 (the (proc_net_route env)))"])
      (use that in \<open>auto simp: upstream_detect_via_proc_route_def proc_route_line_ok[OF assms(1)] split: if_splits option.splits list.splits\<close>)
qed

lemma primary_ok:
  assumes "if_tables env" and "IFNAMSIZ \<le> sz" and "upstream_detect_primary env sz = Some (i, n)"
  shows "0 < i \<and> if_indextoname env (nat i) = Some n \<and> (tunnel n \<longrightarrow> upstream_detect_via_bpf env sz = Some (i, n))"
  using assms(3) via_bpf_ok[OF assms(1,2)] later_tiers_ok[OF assms(1,2)] by (auto simp: upstream_detect_primary_def split: option.splits)

text \<open>
  C11: Whatever the tiers read, a detected upstream is an interface that exists: the index is positive, it is the index
  of the reported name and the name is reported in full.  A tunnel (\<^verbatim>\<open>tun*\<close>, \<^verbatim>\<open>tap*\<close>, \<^verbatim>\<open>wg*\<close>) is
  reported only when the kernel's own map of tethered flows names it.
\<close>

theorem detected_upstream_exists:
  assumes "if_tables env" and "IFNAMSIZ \<le> sz" and "upstream_detect_primary env sz = Some (i, n)"
  shows "0 < i \<and> if_indextoname env (nat i) = Some n \<and> int (if_nametoindex env n) = i \<and>
    (tunnel n \<longrightarrow> upstream_detect_via_bpf env sz = Some (i, n))"
proof -
  note r = primary_ok[OF assms]
  then have "if_nametoindex env n = nat i" using assms(1) unfolding if_tables_def by simp
  with r show ?thesis by simp
qed

section \<open>The walk through the limit map\<close>

text \<open>
  How a hash map of the kernel answers \<^verbatim>\<open>BPF_MAP_GET_NEXT_KEY\<close>: the key behind the given one in the
  order of the buckets, \<^verbatim>\<open>ENOENT\<close> behind the last, and the first key for the null pointer and for a key that is
  not in the map.
\<close>

definition hash_walk :: "(nat option \<Rightarrow> nat + nat) \<Rightarrow> nat list \<Rightarrow> bool" where
  "hash_walk next keys \<longleftrightarrow> distinct keys \<and>
     next None = (case keys of [] \<Rightarrow> Inl ENOENT | k # _ \<Rightarrow> Inr k) \<and>
     (\<forall>k. k \<notin> set keys \<longrightarrow> next (Some k) = next None) \<and>
     (\<forall>i < length keys. next (Some (keys ! i)) = (if Suc i < length keys then Inr (keys ! Suc i) else Inl ENOENT))"

lemma limit_keys_after:
  assumes "hash_walk next keys" and "i < length keys"
  shows "limit_keys next n (Some (keys ! i)) = take n (drop (Suc i) keys)"
  using assms(2)
proof (induction n arbitrary: i)
  case (Suc n)
  have nx: "next (Some (keys ! i)) = (if Suc i < length keys then Inr (keys ! Suc i) else Inl ENOENT)"
    using assms(1) Suc.prems by (simp add: hash_walk_def)
  show ?case
  proof (cases "Suc i < length keys")
    case True
    then show ?thesis using nx Suc.IH[OF True] by (simp add: Cons_nth_drop_Suc[symmetric])
  qed (use nx in simp)
qed simp

lemma limit_keys_all:
  assumes "hash_walk next keys" and "0 \<notin> set keys"
  shows "limit_keys next n None = take n keys"
proof (cases n)
  case (Suc m)
  have z: "next (Some 0) = next None" using assms by (simp add: hash_walk_def)
  show ?thesis
  proof (cases keys)
    case Nil
    then have "next None = Inl ENOENT" using assms(1) by (simp add: hash_walk_def)
    then show ?thesis using z Suc Nil by simp
  next
    case (Cons k ks)
    then have "next None = Inr k" using assms(1) by (simp add: hash_walk_def)
    then show ?thesis using z Suc Cons limit_keys_after[OF assms(1), of 0 m] by simp
  qed
qed simp

text \<open>
  An interface that may be the upstream: it exists and is no downstream of the hotspot, no tunnel and not the loopback.
\<close>

definition uplink_name :: "string \<Rightarrow> bool" where
  "uplink_name n \<longleftrightarrow> \<not> list_ex (\<lambda>p. prefix p n) [''wlan2'', ''tun'', ''tap'', ''wg'', ''ppp'', ''ap'', ''swlan'', ''lo'']"

definition uplink :: "up_env \<Rightarrow> nat \<Rightarrow> bool" where
  "uplink env k \<longleftrightarrow> (case if_indextoname env k of None \<Rightarrow> False | Some n \<Rightarrow> uplink_name n)"

lemma limit_viable_uplink:
  assumes "if_tables env" and "k \<noteq> 0"
  shows "limit_viable env k = (if uplink env k then Some (k, the (if_indextoname env k)) else None)"
proof (cases "if_indextoname env k")
  case (Some n)
  have same: "m = n" if "if_nametoindex env m = k" for m using assms Some that by (auto simp: if_tables_def)
  have down: "\<not> uplink_name n" if "if_nametoindex env m = k" and "m \<in> {''wlan2'', ''ap0'', ''swlan0''}" for m
    using same[OF that(1)] that(2) by (auto simp: uplink_name_def)
  define D where "D \<longleftrightarrow> k = if_nametoindex env ''wlan2'' \<or> k = if_nametoindex env ''ap0'' \<or> k = if_nametoindex env ''swlan0''"
  have "D \<Longrightarrow> \<not> uplink_name n" using down by (auto simp: D_def)
  moreover have "limit_viable env k = (if D then None else if \<not> uplink_name n then None else Some (k, n))"
    using Some assms(2) by (simp add: limit_viable_def uplink_name_def D_def Let_def del: prefix_code)
  ultimately show ?thesis using Some by (simp add: uplink_def)
next
  case None
  then show ?thesis by (simp add: limit_viable_def uplink_def Let_def)
qed

text \<open>
  C24: On a kernel that walks its hash map as documented, the fourth tier visits the first sixteen keys of the limit map, each once,
  and reports the first of them that is an existing interface other than the hotspot's own, a tunnel or the
  loopback; it fails exactly when there is none.  The downstream test by index never differs from the one by name.
\<close>

theorem limit_map_tier_complete:
  assumes "if_tables env" and "hash_walk (limit_next env) keys" and "0 \<notin> set keys" and "limit_open env" and "IFNAMSIZ \<le> sz"
  shows "upstream_detect_via_limit_map env sz =
    map_option (\<lambda>k. (int k, the (if_indextoname env k))) (List.find (uplink env) (take 16 keys))"
proof -
  have k: "limit_keys (limit_next env) 16 None = take 16 keys" by (rule limit_keys_all[OF assms(2,3)])
  have "0 \<notin> set xs \<Longrightarrow> map_option (\<lambda>(idx, name). found_iface sz idx name) (first_some (limit_viable env) xs) =
      map_option (\<lambda>k. (int k, the (if_indextoname env k))) (List.find (uplink env) xs)" for xs
  proof (induction xs)
    case (Cons x xs)
    then have x: "0 < x" by simp
    have f: "uplink env x \<Longrightarrow> found_iface sz x (the (if_indextoname env x)) = (int x, the (if_indextoname env x))"
      using found_iface_ok[OF assms(1) x _ assms(5)] by (auto simp: uplink_def split: option.splits)
    show ?case using Cons x f by (simp add: limit_viable_uplink[OF assms(1)])
  qed simp
  from this[of "take 16 keys"] assms(3-5) k show ?thesis
    by (auto simp: upstream_detect_via_limit_map_def Let_def IFNAMSIZ_def dest: in_set_takeD)
qed

section \<open>A phone\<close>

text \<open>A hotspot \<^verbatim>\<open>wlan2\<close>, a modem interface, a point-to-point tunnel; the limit map holds the first two.\<close>

definition phone :: up_env where
  "phone = \<lparr>if_nametoindex = (\<lambda>n. if n = ''wlan2'' then 31 else if n = ''rmnet0'' then 7 else if n = ''ppp0'' then 9 else 0),
     if_indextoname = (\<lambda>i. if i = 31 then Some ''wlan2'' else if i = 7 then Some ''rmnet0'' else if i = 9 then Some ''ppp0'' else None),
     ip_route_output = Some (''8.8.8.8 dev ppp0 src 10.0.0.2'' @ [LF]),
     proc_net_route = Some (''Iface Destination Gateway Flags'' @ [LF] @ ''ppp0 00000000 00000000 0001'' @ [LF]),
     upstream4_open = False, upstream4_next = (\<lambda>_. Inl ENOENT), upstream4_lookup = (\<lambda>_. None),
     limit_open = True, limit_next = (\<lambda>k. if k = Some 31 then Inr 7 else if k = Some 7 then Inl ENOENT else Inr 31)\<rparr>"

lemma phone_tables: "if_tables phone"
  by (auto simp: if_tables_def phone_def IFNAMSIZ_def split: if_splits)

lemma phone_walk: "hash_walk (limit_next phone) [31, 7]"
  by (auto simp: hash_walk_def phone_def less_Suc_eq)

lemma phone_uplink: "uplink phone 7" "\<not> uplink phone 31"
  by (simp_all add: uplink_def uplink_name_def phone_def)

theorem limit_map_tier_complete_witness:
  "upstream_detect_via_limit_map phone 16 = Some (7, ''rmnet0'')"
  using limit_map_tier_complete[OF phone_tables phone_walk, of 16] phone_uplink by (simp add: phone_def IFNAMSIZ_def)

lemma phone_detects: "upstream_detect_primary phone 16 = Some (7, ''rmnet0'')"
proof -
  have "limit_viable phone 31 = None" "limit_viable phone 7 = Some (7, ''rmnet0'')"
    using phone_uplink limit_viable_uplink[OF phone_tables] by (simp_all add: phone_def)
  moreover have "limit_keys (limit_next phone) 16 None = [31, 7]" using limit_keys_all[OF phone_walk, of 16] by simp
  ultimately have "upstream_detect_via_limit_map phone 16 = Some (7, ''rmnet0'')"
    by (simp add: upstream_detect_via_limit_map_def found_iface_def c_int_def cbuf_def phone_def)
  then show ?thesis by (simp add: upstream_detect_primary_def upstream_detect_via_bpf_def phone_def)
qed

theorem detected_upstream_exists_witness:
  "upstream_detect_primary phone 16 = Some (7, ''rmnet0'') \<and> if_nametoindex phone ''rmnet0'' = 7"
  using detected_upstream_exists[OF phone_tables _ phone_detects] phone_detects by (simp add: IFNAMSIZ_def)

text \<open>
  The point-to-point tunnel that the first and the fourth tier refuse as a VPN is accepted by the second.
\<close>

lemma ppp_refused_then_accepted:
  "upstream_detect_via_ip_route phone 16 = None \<and> upstream_detect_primary (phone\<lparr>limit_open := False\<rparr>) 16 = Some (9, ''ppp0'')"
proof -
  let ?p = "phone\<lparr>limit_open := False\<rparr>"
  have lines: "fgets_lines 510 (l @ [LF]) = [cstr (l @ [LF])]" if "LF \<notin> set l" "length l \<le> 510" for l
    using fgets_lines_line[OF that, of "[]"] by simp
  have "ip_route_line e (cstr (''8.8.8.8 dev ppp0 src 10.0.0.2'' @ [LF])) = None" for e
    by (simp add: ip_route_line_def cstr_def vpn_iface_def c_isspace_def IFNAMSIZ_def)
  then have r: "upstream_detect_via_ip_route phone 16 = None" "upstream_detect_via_ip_route ?p 16 = None"
    using lines[of "''8.8.8.8 dev ppp0 src 10.0.0.2''"] by (simp_all add: upstream_detect_via_ip_route_def phone_def)
  have "proc_route_line ?p (cstr (''ppp0 00000000 00000000 0001'' @ [LF])) = Some (9, ''ppp0'')"
    by (simp add: proc_route_line_def cstr_def scan_s_def Let_def scan_x_def c_isspace_def c_isxdigit_def c_isdigit_def c_tolower_def c_isupper_def
        hex_digit_val_def looks_like_uplink_iface_def phone_def)
  moreover have "fgets_lines 510 (the (proc_net_route ?p)) = [cstr (''Iface Destination Gateway Flags'' @ [LF]), cstr (''ppp0 00000000 00000000 0001'' @ [LF])]"
    using fgets_lines_line[of "''Iface Destination Gateway Flags''" 510 "''ppp0 00000000 00000000 0001'' @ [LF]"] lines[of "''ppp0 00000000 00000000 0001''"]
    by (simp add: phone_def)
  ultimately have "upstream_detect_via_proc_route ?p 16 = Some (9, ''ppp0'')"
    by (simp add: upstream_detect_via_proc_route_def phone_def found_iface_def c_int_def cbuf_def)
  with r show ?thesis by (simp add: upstream_detect_primary_def upstream_detect_via_bpf_def upstream_detect_via_limit_map_def phone_def)
qed

end
