(* ===== verification/JsonFacts.thy ===== *)
theory JsonFacts
  imports JsonTool LsmGuard
begin

text \<open>
  How the structural check of the JSON editor runs over the pieces that the C code prints: quoted
  texts, keys, numbers and punctuation.  The equations rewrite a run over a printed object piece by
  piece, so that the files written by the daemon and by the platform probe are checked by simplification.
\<close>

named_theorems json_run

lemma punct_step:
  "valid_step (CHR '','') (False, False, d, seen) = Some (False, False, d, True)"
  "valid_step (CHR '':'') (False, False, d, seen) = Some (False, False, d, True)"
  "valid_step (CHR ''{'') (False, False, d, seen) = Some (False, False, d + 1, True)"
  "0 < d \<Longrightarrow> valid_step (CHR ''}'') (False, False, d, seen) = Some (False, False, d - 1, True)"
  by (simp_all add: valid_step_def c_isspace_def)

lemma valid_run_Cons_punct [json_run]:
  "valid_run (CHR '','' # r) (False, False, d, seen) = valid_run r (False, False, d, True)"
  "valid_run (CHR '':'' # r) (False, False, d, seen) = valid_run r (False, False, d, True)"
  "valid_run (CHR ''{'' # r) (False, False, d, seen) = valid_run r (False, False, d + 1, True)"
  "0 < d \<Longrightarrow> valid_run (CHR ''}'' # r) (False, False, d, seen) = valid_run r (False, False, d - 1, True)"
  by (simp_all only: valid_run.simps punct_step option.case)

lemma valid_run_qstr [json_run]: "str_body s \<Longrightarrow> valid_run (qstr s @ r) (False, False, d, seen) = valid_run r (False, False, d, True)"
  using valid_string[of s d seen] unfolding qstr_def by (simp only: valid_run_append[of "[DQ] @ s @ [DQ]" r] option.case)

lemma valid_run_qkey [json_run]: "str_body s \<Longrightarrow> valid_run (qkey s @ r) (False, False, d, seen) = valid_run r (False, False, d, True)"
proof -
  assume s: "str_body s"
  have "qkey s @ r = qstr s @ CHR '':'' # r" by (simp add: qkey_def qstr_def)
  then show ?thesis by (simp only: valid_run_qstr[OF s] valid_run_Cons_punct)
qed

text \<open>Characters that need no escape, and words outside strings.\<close>

definition plain_char :: "char \<Rightarrow> bool" where
  "plain_char c \<longleftrightarrow> c \<noteq> DQ \<and> c \<noteq> BSL \<and> 32 \<le> (ord c :: nat)"

definition word_char :: "char \<Rightarrow> bool" where
  "word_char c \<longleftrightarrow> c_isdigit c \<or> c = CHR ''-'' \<or> (0x61 \<le> ord c \<and> ord c \<le> (0x7A :: nat))"

lemma plain_body: "list_all plain_char s \<Longrightarrow> str_body s"
  by (induction s) (auto simp: plain_char_def intro: str_body_plain)

lemma plain_take: "list_all plain_char s \<Longrightarrow> list_all plain_char (cbuf n s)"
  by (auto simp: list_all_iff cbuf_def dest: in_set_takeD)

lemma word_step: "word_char c \<Longrightarrow> valid_step c (False, False, d, seen) = Some (False, False, d, True)"
proof -
  assume w: "word_char c"
  have "c \<noteq> DQ" "c \<noteq> CHR ''{''" "c \<noteq> CHR ''[''" "c \<noteq> CHR ''}''" "c \<noteq> CHR '']''" "\<not> c_isspace c"
    using w by (auto simp: word_char_def c_isdigit_def c_isspace_def)
  then show ?thesis by (simp add: valid_step_def)
qed

lemma word_run: "list_all word_char w \<Longrightarrow> w \<noteq> [] \<Longrightarrow> valid_run (w @ r) (False, False, d, seen) = valid_run r (False, False, d, True)"
proof (induction w arbitrary: seen)
  case (Cons c w)
  then show ?case by (cases "w = []") (simp_all add: word_step)
qed simp

lemma valid_run_dec_int [json_run]: "valid_run (dec_int i @ r) (False, False, d, seen) = valid_run r (False, False, d, True)"
  by (rule word_run) (use dec_int_chars dec_int_nonempty in \<open>auto simp: word_char_def list_all_iff\<close>)

lemma json_esc_body: "str_body s \<Longrightarrow> str_body (json_esc c @ s)"
proof -
  assume s: "str_body s"
  have h: "str_body (hex4 n @ s)" for n
  proof (intro str_body_append[OF plain_body s])
    have "list_all (\<lambda>k. plain_char (hexdigit k)) [0..<16]" by code_simp
    then have "plain_char (hexdigit k)" if "k < 16" for k using that by (auto simp: list_all_iff)
    then show "list_all plain_char (hex4 n)" by (simp add: hex4_def)
  qed
  show ?thesis using s h by (auto simp: json_esc_def intro: str_body_bsl str_body_plain)
qed

lemma json_escs_body: "str_body (json_escs s)"
  by (induction s) (simp_all add: json_esc_body)

lemma valid_json_run: "valid_run s (False, False, 0, False) = Some (False, False, 0, True) \<Longrightarrow> valid_json s = 0"
  by (simp add: valid_json_def)

end
