(* ===== verification/Platform.thy ===== *)
theory Platform
  imports JsonFacts "HOL-Library.Monad_Syntax"
begin

text \<open>
  The platform probe, \<^verbatim>\<open>daemon/hotspotd/platform.c\<close> and \<^verbatim>\<open>tools/platform_probe.c\<close>.  System properties, the kernel
  release, the files that exist and the result of opening the limit map are an environment.
  The property function of the C library copies the whole value with its terminator into the
  caller's buffer; a copy that does not fit is \<^const>\<open>None\<close>, the outcome in which C promises
  nothing.
\<close>

definition HNC_PLATFORM_STR_LEN :: nat where "HNC_PLATFORM_STR_LEN = 64"

datatype plat_soc_vendor_t = PLAT_SOC_UNKNOWN | PLAT_SOC_QCOM | PLAT_SOC_MTK | PLAT_SOC_SAMSUNG | PLAT_SOC_HISI | PLAT_SOC_GOOGLE | PLAT_SOC_OTHER

datatype plat_rom_t = PLAT_ROM_UNKNOWN | PLAT_ROM_AOSP | PLAT_ROM_COLOROS | PLAT_ROM_HYPEROS | PLAT_ROM_ONEUI | PLAT_ROM_EMUI
  | PLAT_ROM_HARMONY | PLAT_ROM_VIVO | PLAT_ROM_OTHER

record platform_info_t =
  soc_vendor :: plat_soc_vendor_t
  soc_vendor_raw :: string
  soc_model :: string
  soc_hardware :: string
  android_api :: int
  android_release :: string
  pi_rom :: plat_rom_t
  rom_name :: string
  rom_version :: string
  kernel_release :: string
  kernel_major :: int
  kernel_minor :: int
  kernel_patch :: int
  has_bpf_tethering :: bool
  has_bpf_tethering_partial :: bool
  has_mtk_ppe :: bool
  has_samsung_nss :: bool
  bpf_syscall_ok :: bool
  apex_connectivity_version :: int

definition platform0 :: platform_info_t where
  "platform0 = \<lparr>soc_vendor = PLAT_SOC_UNKNOWN, soc_vendor_raw = [], soc_model = [], soc_hardware = [], android_api = 0, android_release = [],
     pi_rom = PLAT_ROM_UNKNOWN, rom_name = [], rom_version = [], kernel_release = [], kernel_major = 0, kernel_minor = 0, kernel_patch = 0,
     has_bpf_tethering = False, has_bpf_tethering_partial = False, has_mtk_ppe = False, has_samsung_nss = False, bpf_syscall_ok = False,
     apex_connectivity_version = 0\<rparr>"

record plat_env =
  property :: "string \<Rightarrow> string"
  uname_release :: "string option"
  stat_ok :: "string \<Rightarrow> bool"
  obj_get_ok :: bool

section \<open>Properties\<close>

definition system_property_get :: "plat_env \<Rightarrow> string \<Rightarrow> nat \<Rightarrow> string option" where
  "system_property_get env name room = (if length (property env name) < room then Some (property env name) else None)"

definition prop_get :: "plat_env \<Rightarrow> string \<Rightarrow> nat \<Rightarrow> string option" where
  "prop_get env name dst_size = map_option (cbuf dst_size) (system_property_get env name 128)"

definition prop_exists :: "plat_env \<Rightarrow> string \<Rightarrow> bool option" where
  "prop_exists env name = map_option (\<lambda>v. v \<noteq> []) (system_property_get env name 8)"

definition prop_get_int :: "plat_env \<Rightarrow> string \<Rightarrow> int \<Rightarrow> int option" where
  "prop_get_int env name dflt = map_option (\<lambda>v. if v = [] then dflt else c_int (clamp_long (strtol10 v))) (system_property_get env name 32)"

section \<open>System on chip\<close>

definition qcom_codenames :: "string list" where
  "qcom_codenames = [''kona'', ''lahaina'', ''taro'', ''kalama'', ''pineapple'', ''sun'', ''msmnile'', ''sdm'', ''sm6'', ''sm7'', ''sm8'']"

definition classify_manuf :: "string \<Rightarrow> plat_soc_vendor_t option" where
  "classify_manuf manuf =
     (if manuf = [] then None
      else if strcasecmp_eq manuf ''QTI'' \<or> strcasecmp_eq manuf ''Qualcomm'' then Some PLAT_SOC_QCOM
      else if strcasecmp_eq manuf ''Mediatek'' then Some PLAT_SOC_MTK
      else if strcasecmp_eq manuf ''Samsung'' then Some PLAT_SOC_SAMSUNG
      else if strcasecmp_eq manuf ''HiSilicon'' then Some PLAT_SOC_HISI
      else if strcasecmp_eq manuf ''Google'' then Some PLAT_SOC_GOOGLE
      else None)"

definition classify_hw :: "string \<Rightarrow> plat_soc_vendor_t option" where
  "classify_hw hw =
     (if hw = [] then None
      else if ci_prefix ''qcom'' hw then Some PLAT_SOC_QCOM
      else if ci_prefix ''mt'' hw then Some PLAT_SOC_MTK
      else if ci_prefix ''exynos'' hw then Some PLAT_SOC_SAMSUNG
      else if ci_prefix ''kirin'' hw then Some PLAT_SOC_HISI
      else if ci_prefix ''gs'' hw then Some PLAT_SOC_GOOGLE
      else None)"

definition classify_board :: "string \<Rightarrow> plat_soc_vendor_t option" where
  "classify_board board =
     (if board = [] then None
      else if list_ex (\<lambda>n. ci_prefix n board) qcom_codenames then Some PLAT_SOC_QCOM
      else if ci_prefix ''mt'' board then Some PLAT_SOC_MTK
      else if ci_prefix ''exynos'' board then Some PLAT_SOC_SAMSUNG
      else None)"

definition classify_soc_vendor :: "string \<Rightarrow> string \<Rightarrow> string \<Rightarrow> plat_soc_vendor_t" where
  "classify_soc_vendor manuf hw board =
     (case classify_manuf manuf of Some v \<Rightarrow> v | None \<Rightarrow>
     (case classify_hw hw of Some v \<Rightarrow> v | None \<Rightarrow>
     (case classify_board board of Some v \<Rightarrow> v | None \<Rightarrow> PLAT_SOC_UNKNOWN)))"

definition probe_soc :: "plat_env \<Rightarrow> platform_info_t \<Rightarrow> platform_info_t option" where
  "probe_soc env g = do {
     manuf \<leftarrow> prop_get env ''ro.soc.manufacturer'' HNC_PLATFORM_STR_LEN;
     hw \<leftarrow> prop_get env ''ro.hardware'' HNC_PLATFORM_STR_LEN;
     board \<leftarrow> prop_get env ''ro.product.board'' HNC_PLATFORM_STR_LEN;
     model \<leftarrow> prop_get env ''ro.soc.model'' HNC_PLATFORM_STR_LEN;
     Some (g\<lparr>soc_vendor := classify_soc_vendor manuf hw board,
       soc_vendor_raw := cbuf HNC_PLATFORM_STR_LEN (if manuf \<noteq> [] then manuf else hw),
       soc_model := cbuf HNC_PLATFORM_STR_LEN (if model \<noteq> [] then model else board),
       soc_hardware := cbuf HNC_PLATFORM_STR_LEN hw\<rparr>) }"

section \<open>ROM\<close>

text \<open>A chain of \<^verbatim>\<open>||\<close> over the properties that mark a ROM.\<close>

fun any_exists :: "plat_env \<Rightarrow> string list \<Rightarrow> bool option" where
  "any_exists env [] = Some False"
| "any_exists env (n # ns) = (case prop_exists env n of None \<Rightarrow> None | Some True \<Rightarrow> Some True | Some False \<Rightarrow> any_exists env ns)"

definition rom_marks :: "(string list \<times> plat_rom_t) list" where
  "rom_marks =
     [([''ro.build.version.oplusrom'', ''ro.oplus.os.version_id''], PLAT_ROM_COLOROS),
      ([''ro.mi.os.version.code'', ''ro.miui.ui.version.name''], PLAT_ROM_HYPEROS),
      ([''ro.build.version.oneui'', ''sys.oneui.version''], PLAT_ROM_ONEUI),
      ([''ro.build.version.magic'', ''ro.huawei.harmonyos.version''], PLAT_ROM_HARMONY),
      ([''ro.build.version.emui''], PLAT_ROM_EMUI),
      ([''ro.vivo.os.version''], PLAT_ROM_VIVO)]"

definition classify_brand :: "plat_env \<Rightarrow> plat_rom_t option" where
  "classify_brand env = do {
     brand \<leftarrow> prop_get env ''ro.product.brand'' 64;
     Some (if strcasecmp_eq brand ''google'' \<or> strcasecmp_eq brand ''lineage'' \<or> strcasecmp_eq brand ''graphene''
           then PLAT_ROM_AOSP else PLAT_ROM_UNKNOWN) }"

fun classify_marks :: "plat_env \<Rightarrow> (string list \<times> plat_rom_t) list \<Rightarrow> plat_rom_t option" where
  "classify_marks env [] = classify_brand env"
| "classify_marks env ((ns, r) # ms) = (case any_exists env ns of None \<Rightarrow> None | Some True \<Rightarrow> Some r | Some False \<Rightarrow> classify_marks env ms)"

definition classify_rom :: "plat_env \<Rightarrow> plat_rom_t option" where
  "classify_rom env = classify_marks env rom_marks"

text \<open>The name of a ROM and the properties that hold its version, the second one if the first is empty.\<close>

fun rom_texts :: "plat_rom_t \<Rightarrow> string \<times> string \<times> string option" where
  "rom_texts PLAT_ROM_COLOROS = (''ColorOS'', ''ro.build.version.oplusrom'', Some ''ro.oplus.os.version_id'')"
| "rom_texts PLAT_ROM_HYPEROS = (''HyperOS'', ''ro.mi.os.version.name'', Some ''ro.miui.ui.version.name'')"
| "rom_texts PLAT_ROM_ONEUI = (''OneUI'', ''ro.build.version.oneui'', None)"
| "rom_texts PLAT_ROM_HARMONY = (''HarmonyOS'', ''ro.build.version.magic'', Some ''ro.huawei.harmonyos.version'')"
| "rom_texts PLAT_ROM_EMUI = (''EMUI'', ''ro.build.version.emui'', None)"
| "rom_texts PLAT_ROM_VIVO = (''OriginOS'', ''ro.vivo.os.version'', None)"
| "rom_texts PLAT_ROM_AOSP = (''AOSP'', ''ro.build.version.release'', None)"
| "rom_texts _ = (''unknown'', ''ro.build.version.release'', None)"

definition probe_rom :: "plat_env \<Rightarrow> platform_info_t \<Rightarrow> platform_info_t option" where
  "probe_rom env g = do {
     r \<leftarrow> classify_rom env;
     case rom_texts r of (name, first, second) \<Rightarrow> do {
       v1 \<leftarrow> prop_get env first HNC_PLATFORM_STR_LEN;
       v2 \<leftarrow> (case second of Some n \<Rightarrow> if v1 = [] then prop_get env n HNC_PLATFORM_STR_LEN else Some v1 | None \<Rightarrow> Some v1);
       Some (g\<lparr>pi_rom := r, rom_name := cbuf HNC_PLATFORM_STR_LEN name, rom_version := v2\<rparr>) } }"

section \<open>Android and kernel\<close>

definition probe_android :: "plat_env \<Rightarrow> platform_info_t \<Rightarrow> platform_info_t option" where
  "probe_android env g = do {
     api \<leftarrow> prop_get_int env ''ro.build.version.sdk'' 0;
     rel \<leftarrow> prop_get env ''ro.build.version.release'' 16;
     Some (g\<lparr>android_api := api, android_release := rel\<rparr>) }"

text \<open>\<^verbatim>\<open>sscanf(release, "%d.%d.%d", ...)\<close> into variables that start at zero: the numbers before the first mismatch.\<close>

fun scan_dotted :: "nat \<Rightarrow> string \<Rightarrow> int list" where
  "scan_dotted 0 s = []"
| "scan_dotted (Suc n) s =
     (case scan_d s of
        None \<Rightarrow> []
      | Some (v, r) \<Rightarrow> v # (case r of c # r' \<Rightarrow> if c = CHR ''.'' then scan_dotted n r' else [] | [] \<Rightarrow> []))"

definition kernel_version :: "string \<Rightarrow> int \<times> int \<times> int" where
  "kernel_version release = (case scan_dotted 3 release of [] \<Rightarrow> (0, 0, 0) | [a] \<Rightarrow> (a, 0, 0) | [a, b] \<Rightarrow> (a, b, 0) | a # b # c # _ \<Rightarrow> (a, b, c))"

definition probe_kernel :: "plat_env \<Rightarrow> platform_info_t \<Rightarrow> platform_info_t" where
  "probe_kernel env g =
     (case uname_release env of
        None \<Rightarrow> g\<lparr>kernel_release := cbuf HNC_PLATFORM_STR_LEN ''unknown''\<rparr>
      | Some release \<Rightarrow>
          (case kernel_version release of (maj, mnr, pat) \<Rightarrow>
             g\<lparr>kernel_release := cbuf HNC_PLATFORM_STR_LEN release, kernel_major := maj, kernel_minor := mnr, kernel_patch := pat\<rparr>))"

section \<open>Offload subsystems\<close>

definition probe_offload :: "plat_env \<Rightarrow> platform_info_t \<Rightarrow> platform_info_t" where
  "probe_offload env g =
     (let has_tether_dir = stat_ok env ''/sys/fs/bpf/tethering'';
          has_limit_map = stat_ok env BPF_LIMIT_MAP
      in g\<lparr>has_bpf_tethering := has_limit_map,
           has_bpf_tethering_partial := has_tether_dir \<and> \<not> has_limit_map,
           has_mtk_ppe := stat_ok env ''/sys/kernel/debug/hnat'' \<or> stat_ok env ''/proc/sys/net/nf_conntrack_hnat_offload'' \<or>
             stat_ok env ''/sys/module/mtk_ppe'' \<or> stat_ok env ''/sys/module/mtk_hnat'',
           has_samsung_nss := False,
           bpf_syscall_ok := has_limit_map \<and> obj_get_ok env\<rparr>)"

definition probe_apex :: "plat_env \<Rightarrow> platform_info_t \<Rightarrow> platform_info_t" where
  "probe_apex env g = g\<lparr>apex_connectivity_version := if stat_ok env ''/apex/com.android.tethering'' then - 1 else 0\<rparr>"

definition platform_probe :: "plat_env \<Rightarrow> platform_info_t option" where
  "platform_probe env = do {
     g1 \<leftarrow> probe_soc env platform0;
     g2 \<leftarrow> probe_android env g1;
     g3 \<leftarrow> probe_rom env g2;
     Some (probe_apex env (probe_offload env (probe_kernel env g3))) }"

section \<open>Text\<close>

fun platform_soc_vendor_str :: "plat_soc_vendor_t \<Rightarrow> string" where
  "platform_soc_vendor_str PLAT_SOC_UNKNOWN = ''unknown''"
| "platform_soc_vendor_str PLAT_SOC_QCOM = ''qcom''"
| "platform_soc_vendor_str PLAT_SOC_MTK = ''mtk''"
| "platform_soc_vendor_str PLAT_SOC_SAMSUNG = ''samsung''"
| "platform_soc_vendor_str PLAT_SOC_HISI = ''hisi''"
| "platform_soc_vendor_str PLAT_SOC_GOOGLE = ''google''"
| "platform_soc_vendor_str PLAT_SOC_OTHER = ''other''"

fun platform_rom_str :: "plat_rom_t \<Rightarrow> string" where
  "platform_rom_str PLAT_ROM_UNKNOWN = ''unknown''"
| "platform_rom_str PLAT_ROM_AOSP = ''aosp''"
| "platform_rom_str PLAT_ROM_COLOROS = ''coloros''"
| "platform_rom_str PLAT_ROM_HYPEROS = ''hyperos''"
| "platform_rom_str PLAT_ROM_ONEUI = ''oneui''"
| "platform_rom_str PLAT_ROM_EMUI = ''emui''"
| "platform_rom_str PLAT_ROM_HARMONY = ''harmony''"
| "platform_rom_str PLAT_ROM_VIVO = ''vivo''"
| "platform_rom_str PLAT_ROM_OTHER = ''other''"

definition tf :: "bool \<Rightarrow> string" where "tf b = (if b then ''true'' else ''false'')"

definition platform_text :: "platform_info_t \<Rightarrow> string" where
  "platform_text g =
     ''{'' @ qkey ''soc'' @ ''{'' @ qkey ''vendor'' @ qstr (platform_soc_vendor_str (soc_vendor g)) @ '','' @
       qkey ''model'' @ qstr (soc_model g) @ '','' @ qkey ''hardware'' @ qstr (soc_hardware g) @ '','' @ qkey ''raw'' @ qstr (soc_vendor_raw g) @ ''},'' @
     qkey ''android'' @ ''{'' @ qkey ''api'' @ dec_int (android_api g) @ '','' @ qkey ''release'' @ qstr (android_release g) @ ''},'' @
     qkey ''rom'' @ ''{'' @ qkey ''id'' @ qstr (platform_rom_str (pi_rom g)) @ '','' @ qkey ''name'' @ qstr (rom_name g) @ '','' @
       qkey ''version'' @ qstr (rom_version g) @ ''},'' @
     qkey ''kernel'' @ ''{'' @ qkey ''release'' @ qstr (kernel_release g) @ '','' @ qkey ''major'' @ dec_int (kernel_major g) @ '','' @
       qkey ''minor'' @ dec_int (kernel_minor g) @ '','' @ qkey ''patch'' @ dec_int (kernel_patch g) @ ''},'' @
     qkey ''offload'' @ ''{'' @ qkey ''bpf_tethering'' @ tf (has_bpf_tethering g) @ '','' @
       qkey ''bpf_tethering_partial'' @ tf (has_bpf_tethering_partial g) @ '','' @ qkey ''mtk_ppe'' @ tf (has_mtk_ppe g) @ '','' @
       qkey ''samsung_nss'' @ tf (has_samsung_nss g) @ '','' @ qkey ''bpf_syscall_ok'' @ tf (bpf_syscall_ok g) @ ''},'' @
     qkey ''apex_connectivity'' @ dec_int (apex_connectivity_version g) @ ''}''"

text \<open>The result and the buffer; a text that does not fit is cut and reported.\<close>

definition platform_dump_json :: "platform_info_t \<Rightarrow> nat \<Rightarrow> int \<times> string" where
  "platform_dump_json g buf_size =
     (if buf_size = 0 then (- 1, [])
      else if length (platform_text g) \<ge> buf_size then (- 1, cbuf buf_size (platform_text g))
      else (int (length (platform_text g)), platform_text g))"

section \<open>Where the probe leaves its buffers\<close>

definition markers :: "string list" where
  "markers = concat (map fst rom_marks)"

text \<open>The first property of a list that is set.\<close>

definition first_set :: "plat_env \<Rightarrow> string list \<Rightarrow> string option" where
  "first_set env ns = List.find (\<lambda>n. property env n \<noteq> []) ns"

lemma any_exists_first:
  "any_exists env ns = (case first_set env ns of None \<Rightarrow> Some False | Some n \<Rightarrow> if length (property env n) < 8 then Some True else None)"
  by (induction ns) (auto simp: first_set_def prop_exists_def system_property_get_def)

lemma first_set_append: "first_set env (ns @ ms) = (case first_set env ns of None \<Rightarrow> first_set env ms | Some n \<Rightarrow> Some n)"
  by (induction ns) (simp_all add: first_set_def)

text \<open>What Android guarantees of property values (\<^verbatim>\<open>PROP_VALUE_MAX\<close>), and a version number that is a number.\<close>

definition android_props :: "plat_env \<Rightarrow> bool" where
  "android_props env \<longleftrightarrow> (\<forall>n. length (property env n) < 92) \<and> length (property env ''ro.build.version.sdk'') < 32"

lemma prop_get_ok: "android_props env \<Longrightarrow> prop_get env n k = Some (cbuf k (property env n))"
proof -
  assume a: "android_props env"
  then have "length (property env n) < 128" unfolding android_props_def by (metis less_trans numeral_less_iff semiring_norm(76,78,80,81))
  then show ?thesis by (simp add: prop_get_def system_property_get_def)
qed

lemma classify_marks_None:
  assumes "android_props env"
  shows "classify_marks env ms = None \<longleftrightarrow>
    (case first_set env (concat (map fst ms)) of None \<Rightarrow> False | Some n \<Rightarrow> 8 \<le> length (property env n))"
proof (induction ms)
  case Nil
  then show ?case using assms by (simp add: classify_brand_def prop_get_ok first_set_def)
next
  case (Cons m ms)
  then show ?case by (cases m) (auto simp: any_exists_first first_set_append split: option.splits bool.splits)
qed

lemma probe_rom_None: "android_props env \<Longrightarrow> probe_rom env g = None \<longleftrightarrow> classify_rom env = None"
  by (cases "classify_rom env") (auto simp: probe_rom_def prop_get_ok split: prod.split option.split)

lemma probe_soc_Some: "android_props env \<Longrightarrow> \<exists>g'. probe_soc env g = Some g'"
  by (simp add: probe_soc_def prop_get_ok)

lemma probe_android_Some: "android_props env \<Longrightarrow> \<exists>g'. probe_android env g = Some g'"
  by (simp add: probe_android_def prop_get_ok) (simp add: prop_get_int_def system_property_get_def android_props_def)

lemma probe_None_iff:
  assumes "android_props env"
  shows "platform_probe env = None \<longleftrightarrow> classify_rom env = None"
proof -
  obtain g1 where g1: "probe_soc env platform0 = Some g1" using probe_soc_Some[OF assms] by blast
  obtain g2 where g2: "probe_android env g1 = Some g2" using probe_android_Some[OF assms] by blast
  have "platform_probe env = None \<longleftrightarrow> probe_rom env g2 = None" using g1 g2 by (cases "probe_rom env g2") (simp_all add: platform_probe_def)
  then show ?thesis by (simp add: probe_rom_None[OF assms])
qed

text \<open>
  C38: The probe of the ROM writes past an eight-byte buffer exactly when the first marker property that is set has eight or
  more characters, which Android allows (values have up to 91); no other step of the probe leaves its buffers.
\<close>

theorem probe_overrun_iff:
  assumes "android_props env"
  shows "platform_probe env = None \<longleftrightarrow>
    (case first_set env markers of None \<Rightarrow> False | Some n \<Rightarrow> 8 \<le> length (property env n))"
  using classify_marks_None[OF assms, of rom_marks] by (simp add: probe_None_iff[OF assms] classify_rom_def markers_def)

definition demo_props :: plat_env where
  "demo_props = \<lparr>property = (\<lambda>n. if n = ''ro.build.version.oplusrom'' then ''V16.0.0.1'' else []), uname_release = Some ''6.6.102-android16'',
     stat_ok = (\<lambda>_. True), obj_get_ok = True\<rparr>"

theorem probe_overrun_iff_witness: "platform_probe demo_props = None"
proof -
  have "android_props demo_props" by (simp add: android_props_def demo_props_def)
  moreover have "first_set demo_props markers = Some ''ro.build.version.oplusrom''" by (simp add: first_set_def markers_def rom_marks_def demo_props_def)
  ultimately show ?thesis using probe_overrun_iff[of demo_props] by (simp add: demo_props_def)
qed

section \<open>The platform file\<close>

definition field_ok :: "string \<Rightarrow> bool" where
  "field_ok s \<longleftrightarrow> length s < 64 \<and> list_all plain_char s"

definition int_ok :: "int \<Rightarrow> bool" where
  "int_ok i \<longleftrightarrow> - (2 ^ 31) \<le> i \<and> i < 2 ^ 31"

definition info_ok :: "platform_info_t \<Rightarrow> bool" where
  "info_ok g \<longleftrightarrow> list_all field_ok [soc_vendor_raw g, soc_model g, soc_hardware g, android_release g, rom_name g, rom_version g, kernel_release g] \<and>
     list_all int_ok [android_api g, kernel_major g, kernel_minor g, kernel_patch g, apex_connectivity_version g]"

text \<open>An environment without characters that JSON would have to escape.\<close>

definition plain_env :: "plat_env \<Rightarrow> bool" where
  "plain_env env \<longleftrightarrow> (\<forall>n. list_all plain_char (property env n)) \<and> (case uname_release env of None \<Rightarrow> True | Some r \<Rightarrow> list_all plain_char r)"

lemma field_ok_cbuf: "list_all plain_char s \<Longrightarrow> n \<le> 64 \<Longrightarrow> 0 < n \<Longrightarrow> field_ok (cbuf n s)"
  by (auto simp: field_ok_def plain_take)

lemma int_ok_c_int [simp]: "int_ok (c_int v)"
  using c_int_range by (simp add: int_ok_def)

lemma scan_dotted_ok: "list_all int_ok (scan_dotted n s)"
  by (induction n s rule: scan_dotted.induct) (auto simp: scan_d_def split: option.splits list.splits)

lemma kernel_version_ok: "kernel_version r = (a, b, c) \<Longrightarrow> int_ok a \<and> int_ok b \<and> int_ok c"
  using scan_dotted_ok[of 3 r] by (auto simp: kernel_version_def int_ok_def split: list.splits)

lemma prop_get_plain: "plain_env env \<Longrightarrow> prop_get env n k = Some v \<Longrightarrow> 0 < k \<Longrightarrow> k \<le> 64 \<Longrightarrow> field_ok v"
  by (auto simp: prop_get_def system_property_get_def plain_env_def intro!: field_ok_cbuf split: if_splits)

lemma prop_get_field: "plain_env env \<Longrightarrow> prop_get env n 64 = Some v \<Longrightarrow> field_ok v" "plain_env env \<Longrightarrow> prop_get env n 16 = Some v \<Longrightarrow> field_ok v"
  by (simp_all add: prop_get_plain[of env n 64] prop_get_plain[of env n 16])

lemma field_again: "field_ok v \<Longrightarrow> field_ok (cbuf 64 v)"
  by (simp add: field_ok_def plain_take)

lemma probe_soc_ok: "plain_env env \<Longrightarrow> info_ok g \<Longrightarrow> probe_soc env g = Some g' \<Longrightarrow> info_ok g'"
  by (auto simp: probe_soc_def info_ok_def HNC_PLATFORM_STR_LEN_def intro!: field_again intro: prop_get_field split: Option.bind_splits)

lemma probe_android_ok: "plain_env env \<Longrightarrow> info_ok g \<Longrightarrow> probe_android env g = Some g' \<Longrightarrow> info_ok g'"
  by (auto simp: probe_android_def info_ok_def prop_get_int_def int_ok_def[of 0] intro: prop_get_field split: Option.bind_splits)

lemma rom_name_ok: "field_ok (cbuf 64 (fst (rom_texts r)))"
  by (cases r) (simp_all add: field_ok_def plain_char_def cbuf_def)

lemma probe_rom_ok:
  assumes "plain_env env" and "info_ok g" and "probe_rom env g = Some g'"
  shows "info_ok g'"
proof -
  obtain r name first second where r: "classify_rom env = Some r" "rom_texts r = (name, first, second)"
    using assms(3) by (cases "classify_rom env") (auto simp: probe_rom_def split: prod.splits)
  have "field_ok (cbuf 64 name)" using rom_name_ok[of r] r(2) by simp
  then show ?thesis using assms r
    by (auto simp: probe_rom_def info_ok_def HNC_PLATFORM_STR_LEN_def intro: prop_get_field split: Option.bind_splits option.splits if_splits)
qed

lemma probe_rest_ok: "plain_env env \<Longrightarrow> info_ok g \<Longrightarrow> info_ok (probe_apex env (probe_offload env (probe_kernel env g)))"
proof -
  assume e: "plain_env env" and g: "info_ok g"
  have "field_ok (cbuf 64 ''unknown'')" by (simp add: field_ok_def plain_char_def cbuf_def)
  then have "info_ok (probe_kernel env g)" using e g kernel_version_ok
    by (auto simp: probe_kernel_def info_ok_def plain_env_def HNC_PLATFORM_STR_LEN_def intro!: field_ok_cbuf split: option.splits prod.splits)
  then show ?thesis by (simp add: probe_apex_def probe_offload_def info_ok_def int_ok_def Let_def)
qed

lemma platform_probe_ok: "plain_env env \<Longrightarrow> platform_probe env = Some g \<Longrightarrow> info_ok g"
proof -
  assume e: "plain_env env" and p: "platform_probe env = Some g"
  have "info_ok platform0" by (simp add: info_ok_def platform0_def field_ok_def int_ok_def)
  with e p show ?thesis unfolding platform_probe_def
    by (auto split: Option.bind_splits dest: probe_soc_ok probe_android_ok probe_rom_ok intro: probe_rest_ok)
qed

lemma vendor_text: "list_all plain_char (platform_soc_vendor_str v)" "length (platform_soc_vendor_str v) \<le> 7"
  by (cases v; simp add: plain_char_def)+

lemma rom_text: "list_all plain_char (platform_rom_str r)" "length (platform_rom_str r) \<le> 7"
  by (cases r; simp add: plain_char_def)+

lemma valid_run_tf [json_run]: "valid_run (tf b @ r) (False, False, d, seen) = valid_run r (False, False, d, True)"
  by (rule word_run) (simp_all add: tf_def word_char_def)

lemma length_quoted [simp]: "length (qkey s) = length s + 3" "length (qstr s) = length s + 2"
  by (simp_all add: qkey_def qstr_def)

lemma platform_text_valid:
  assumes "info_ok g"
  shows "valid_json (platform_text g) = 0"
proof (rule valid_json_run)
  have f: "str_body (soc_vendor_raw g)" "str_body (soc_model g)" "str_body (soc_hardware g)" "str_body (android_release g)" "str_body (rom_name g)"
    "str_body (rom_version g)" "str_body (kernel_release g)"
    using assms by (simp_all add: info_ok_def field_ok_def plain_body)
  note k = plain_body[OF vendor_text(1)] plain_body[OF rom_text(1)]
  show "valid_run (platform_text g) (False, False, 0, False) = Some (False, False, 0, True)"
    unfolding platform_text_def by (simp add: json_run f k plain_body plain_char_def del: valid_run.simps(2))
qed

lemma platform_text_short:
  assumes "info_ok g"
  shows "length (platform_text g) < 1024"
proof -
  have f: "length (soc_vendor_raw g) < 64" "length (soc_model g) < 64" "length (soc_hardware g) < 64" "length (android_release g) < 64" "length (rom_name g) < 64"
    "length (rom_version g) < 64" "length (kernel_release g) < 64"
    using assms by (simp_all add: info_ok_def field_ok_def)
  have i: "length (dec_int (android_api g)) \<le> 11" "length (dec_int (kernel_major g)) \<le> 11" "length (dec_int (kernel_minor g)) \<le> 11"
    "length (dec_int (kernel_patch g)) \<le> 11" "length (dec_int (apex_connectivity_version g)) \<le> 11"
    using assms by (auto simp: info_ok_def int_ok_def intro!: length_dec_int)
  have t: "length (tf b) \<le> 5" for b by (simp add: tf_def)
  show ?thesis using f i t[of "has_bpf_tethering g"] t[of "has_bpf_tethering_partial g"] t[of "has_mtk_ppe g"] t[of "has_samsung_nss g"]
      t[of "bpf_syscall_ok g"] vendor_text(2)[of "soc_vendor g"] rom_text(2)[of "pi_rom g"]
    unfolding platform_text_def by simp
qed

section \<open>The probe program\<close>

definition yes_no :: "bool \<Rightarrow> string" where "yes_no b = (if b then ''yes'' else ''no'')"

definition row :: "string \<Rightarrow> string \<Rightarrow> string" where "row k v = ''  '' @ k @ v @ [LF]"

text \<open>\<^verbatim>\<open>%-8s\<close>: padded on the right.\<close>

definition pad_right :: "nat \<Rightarrow> string \<Rightarrow> string" where "pad_right n s = s @ replicate (n - length s) (CHR '' '')"

fun probe_matrix :: "'w offload_adapter_t list \<Rightarrow> 'w \<Rightarrow> nat \<Rightarrow> string" where
  "probe_matrix [] w i = []"
| "probe_matrix (ad # ads) w i =
     ''  ['' @ dec_nat i @ ''] '' @ pad_right 8 (ad_name ad) @ '' probe='' @
       (if (case ad_probe ad of Some p \<Rightarrow> p w | None \<Rightarrow> - 1) = 0 then ''MATCH'' else ''no'') @ [LF] @ probe_matrix ads w (i + 1)"

definition print_pretty :: "'w offload_adapter_t list \<Rightarrow> 'w \<Rightarrow> platform_info_t \<Rightarrow> string" where
  "print_pretty adapters w g =
     ''=== HNC v5.0 Platform Probe ==='' @ [LF, LF] @
     ''SoC'' @ [LF] @ row ''vendor    : '' (platform_soc_vendor_str (soc_vendor g)) @ row ''raw       : '' (soc_vendor_raw g) @
       row ''model     : '' (soc_model g) @ row ''hardware  : '' (soc_hardware g) @ [LF] @
     ''Android'' @ [LF] @ row ''api       : '' (dec_int (android_api g)) @ row ''release   : '' (android_release g) @ [LF] @
     ''ROM'' @ [LF] @ row ''id        : '' (platform_rom_str (pi_rom g)) @ row ''name      : '' (rom_name g) @ row ''version   : '' (rom_version g) @ [LF] @
     ''Kernel'' @ [LF] @ row ''release   : '' (kernel_release g) @
       row ''parsed    : '' (dec_int (kernel_major g) @ ''.'' @ dec_int (kernel_minor g) @ ''.'' @ dec_int (kernel_patch g)) @ [LF] @
     ''Offload subsystems'' @ [LF] @ row ''bpf_tethering         : '' (yes_no (has_bpf_tethering g)) @
       row ''bpf_tethering_partial : '' (yes_no (has_bpf_tethering_partial g)) @ row ''mtk_ppe               : '' (yes_no (has_mtk_ppe g)) @
       row ''samsung_nss           : '' (yes_no (has_samsung_nss g)) @ row ''bpf_syscall_ok        : '' (yes_no (bpf_syscall_ok g)) @ [LF] @
     ''APEX'' @ [LF] @
       (if apex_connectivity_version g = - 1 then row ''connectivity : '' ''present (version not parsed)''
        else if apex_connectivity_version g = 0 then row ''connectivity : '' ''absent''
        else row ''connectivity : v'' (dec_int (apex_connectivity_version g))) @ [LF] @
     ''Adapter selection'' @ [LF] @
       (case fst (offload_select_adapter adapters w None) of
          Some a \<Rightarrow> row ''selected : '' (ad_name a @ '' (type='' @ offload_type_str (ad_type a) @ '' gran='' @ offload_gran_str (ad_granularity a) @ '')'')
        | None \<Rightarrow> row ''selected : '' ''<none>'') @ [LF] @
     ''Adapter probe matrix'' @ [LF] @ probe_matrix adapters w 0"

text \<open>The options: \<^const>\<open>None\<close> after a request for help, else whether the long form is wanted.\<close>

fun probe_args :: "bool \<Rightarrow> string list \<Rightarrow> bool option" where
  "probe_args pretty [] = Some pretty"
| "probe_args pretty (a # as) =
     (if a = ''--pretty'' \<or> a = ''-p'' then probe_args True as
      else if a = ''--help'' \<or> a = ''-h'' then None
      else probe_args pretty as)"

text \<open>The exit code and what is printed on the standard output.\<close>

definition platform_probe_main :: "'w offload_adapter_t list \<Rightarrow> 'w \<Rightarrow> plat_env \<Rightarrow> string list \<Rightarrow> (int \<times> string) option" where
  "platform_probe_main adapters w env args =
     (case probe_args False args of
        None \<Rightarrow> Some (0, [])
      | Some pretty \<Rightarrow> do {
          g \<leftarrow> platform_probe env;
          Some (if pretty then (0, print_pretty adapters w g)
                else case platform_dump_json g 4096 of
                  (n, buf) \<Rightarrow> if n < 0 then (1, []) else (0, take (nat n) buf @ [LF])) })"

text \<open>
  C35: On a device whose properties need no escaping, the probe program exits with 0 and prints the platform
  description in full (its buffer is never too small), and what it prints passes the structural check of the JSON
  editor.
\<close>

theorem platform_file_valid:
  assumes "plain_env env" and "platform_probe env = Some g"
  shows "platform_probe_main adapters w env [] = Some (0, platform_text g @ [LF]) \<and> length (platform_text g) < 1024 \<and>
    valid_json (platform_text g) = 0"
proof -
  have g: "info_ok g" by (rule platform_probe_ok[OF assms])
  show ?thesis using platform_text_short[OF g] platform_text_valid[OF g] assms(2) by (simp add: platform_probe_main_def platform_dump_json_def)
qed

theorem platform_file_valid_witness:
  "list_ex (\<lambda>r. case r of Some (c, t) \<Rightarrow> c = 0 \<and> valid_json (butlast t) = 0 | None \<Rightarrow> False)
     [platform_probe_main [adapter_null :: unit offload_adapter_t] () (demo_props\<lparr>property := (\<lambda>n. if n = ''ro.mi.os.version.code'' then ''816'' else [])\<rparr>) []]"
proof -
  let ?e = "demo_props\<lparr>property := (\<lambda>n. if n = ''ro.mi.os.version.code'' then ''816'' else [])\<rparr>"
  have "android_props ?e" by (simp add: android_props_def demo_props_def)
  moreover have "classify_rom ?e = Some PLAT_ROM_HYPEROS"
    by (simp add: classify_rom_def rom_marks_def prop_exists_def system_property_get_def demo_props_def)
  ultimately obtain g where g: "platform_probe ?e = Some g" using probe_None_iff[of ?e] by (cases "platform_probe ?e") auto
  have "plain_env ?e" by (simp add: plain_env_def demo_props_def plain_char_def)
  from platform_file_valid[OF this g, of "[adapter_null :: unit offload_adapter_t]" "()"] show ?thesis by simp
qed

text \<open>The version of a kernel release is read back from its text.\<close>

lemma kernel_version_text:
  assumes "a < 2 ^ 31" and "b < 2 ^ 31" and "c < 2 ^ 31" and "r = [] \<or> \<not> c_isdigit (hd r)"
  shows "kernel_version (dec_nat a @ ''.'' @ dec_nat b @ ''.'' @ dec_nat c @ r) = (int a, int b, int c)"
proof -
  have d: "scan_d (dec_nat n @ x) = Some (int n, x)" if "n < 2 ^ 31" "x = [] \<or> \<not> c_isdigit (hd x)" for n x
  proof -
    have h: "dec_nat n \<noteq> []" "c_isdigit (hd (dec_nat n))" using dec_nat_nonempty[of n] dec_nat_digits[of n] by (simp_all add: hd_in_set)
    then have "\<not> c_isspace (hd (dec_nat n))" "hd (dec_nat n) \<noteq> CHR ''-''" "hd (dec_nat n) \<noteq> CHR ''+''" by (auto simp: c_isspace_def c_isdigit_def)
    moreover have "dropWhile c_isspace (dec_nat n @ x) = dec_nat n @ x" using h calculation(1) by (cases "dec_nat n") simp_all
    moreover have "scan_dec 0 (dec_nat n @ x) = (n, x)" using that(2) scan_dec_nat scan_dec_nat_sep by (cases x) simp_all
    ultimately have "scan_ld (dec_nat n @ x) = Some (clamp_long (int n), x)" using h by (simp add: scan_ld_def Let_def)
    then show ?thesis using that(1) by (simp add: scan_d_def clamp_long_id c_int_id)
  qed
  have "\<not> c_isdigit (CHR ''.'')" by (simp add: c_isdigit_def)
  then show ?thesis using d[OF assms(1), of "''.'' @ dec_nat b @ ''.'' @ dec_nat c @ r"] d[OF assms(2), of "''.'' @ dec_nat c @ r"] d[OF assms(3,4)]
    by (simp add: kernel_version_def numeral_3_eq_3)
qed

end
