(* ===== verification/DevicesJson.thy ===== *)
theory DevicesJson
  imports JsonFacts HotspotdFacts
begin

text \<open>
  The device file that the daemon writes, read with the structural check of the JSON editor that
  the module's scripts apply to it.
\<close>

text \<open>The fields of an entry that are printed without escaping.\<close>

definition plain_dev :: "Device \<Rightarrow> bool" where
  "plain_dev d \<longleftrightarrow> list_all (list_all plain_char) [dv_mac d, dv_ip d, dv_iface d, dv_hostname_src d]"

lemma device_json_run:
  assumes "dev_ok d" and "plain_dev d"
  shows "valid_run (device_json bl d @ r) (False, False, 1, seen) = valid_run r (False, False, 1, True)"
proof -
  have p: "str_body (dv_mac d)" "str_body (dv_ip d)" "str_body (dv_iface d)" "str_body (dv_hostname_src d)"
    using assms(2) by (simp_all add: plain_dev_def plain_body)
  show ?thesis using p json_escs_body
    by (simp add: device_json_def hostname_escape_fits[OF assms(1)] json_run plain_body plain_char_def Let_def del: valid_run.simps(2))
qed

lemma devices_loop_run:
  assumes "list_all (\<lambda>d. dv_active d \<longrightarrow> dev_ok d \<and> plain_dev d) ds"
  shows "valid_run (devices_loop bl first ds @ ''}'') (False, False, 1, True) = Some (False, False, 0, True)"
  using assms
proof (induction ds arbitrary: first)
  case Nil
  then show ?case by (simp add: json_run del: valid_run.simps(2))
next
  case (Cons d ds)
  then show ?case by (cases "dv_active d") (simp_all add: json_run device_json_run del: valid_run.simps(2))
qed

lemma devices_text_valid:
  assumes "list_all (\<lambda>d. dv_active d \<longrightarrow> dev_ok d \<and> plain_dev d) ds"
  shows "valid_json (''{'' @ devices_loop bl True ds @ ''}'') = 0"
  using devices_loop_run[OF assms] by (intro valid_json_run) (simp add: json_run del: valid_run.simps(2))

text \<open>The counters change nothing that is printed as text.\<close>

definition plain_active :: "Device \<Rightarrow> bool" where
  "plain_active d \<longleftrightarrow> (dv_active d \<longrightarrow> plain_dev d)"

lemma plain_active_counters [simp]: "plain_active (d\<lparr>dv_rx_bytes := a, dv_tx_bytes := b\<rparr>) = plain_active d"
  by (simp add: plain_active_def plain_dev_def)

lemma stats_line_plain: "list_all plain_active g \<Longrightarrow> list_all plain_active (stats_line l g)"
  by (auto simp: stats_line_def split: option.split prod.split intro!: list_all_update dest!: find_index_Some) (simp add: list_all_length)

lemma stats_lines_plain: "list_all plain_active g \<Longrightarrow> list_all plain_active (fold stats_line ls g)"
  by (induction ls arbitrary: g) (simp_all add: stats_line_plain)

lemma update_traffic_plain: "list_all plain_active (g_devs (d_tab st)) \<Longrightarrow> list_all plain_active (g_devs (d_tab (update_traffic_stats env st)))"
  by (simp add: update_traffic_stats_def Let_def stats_lines_plain split: option.split)

text \<open>
  Whatever the host names of the devices contain (quotes, backslashes, control characters, broken UTF-8), the device file that any reachable state of the
  daemon writes passes the structural check of the JSON editor, as long as the addresses,
  interfaces and name sources of the active entries are plain text and the file is written whole.
\<close>

lemma devices_file_valid:
  assumes "daemon_reach adapters y json st" and "te_tmp_ok env" and "te_rename_ok env" and "te_disk env = None"
    and "list_all plain_active (g_devs (d_tab st))"
  shows "\<exists>t. devices_json (write_json env st) = Some t \<and> valid_json t = 0"
proof -
  let ?g = "g_devs (d_tab (update_traffic_stats env st))"
  have "devs_inv ?g" using reach_tab_ok[OF assms(1)] by (simp add: tab_ok_def update_traffic_inv)
  then have "list_all (\<lambda>d. dv_active d \<longrightarrow> dev_ok d \<and> plain_dev d) ?g"
    using update_traffic_plain[OF assms(5), of env] by (auto simp: devs_inv_def list_all_iff plain_active_def)
  then show ?thesis using assms(2-4) devices_text_valid by (simp add: write_json_def Let_def)
qed

text \<open>A daemon whose only device has a quote and a backslash in its name.\<close>

definition hostile_boot :: "pinned_maps bpf_world daemon" where
  "hostile_boot = hotspotd_boot (g_adapters [adapter_bpf demo_kernel])
     (demo_boot_env\<lparr>be_tick := (be_tick demo_boot_env)\<lparr>te_io := quiet_io\<lparr>io_names := Some (names_json [(''aa:bb:cc:00:11:22'', ''a'' @ [DQ, BSL])])\<rparr>\<rparr>\<rparr>) demo_sys0 None"
lemma hostile_name: "map dv_hostname (filter dv_active (g_devs (d_tab hostile_boot))) = [''a'' @ [DQ, BSL]]"
  by code_simp

lemma hostile_plain: "list_all plain_active (g_devs (d_tab hostile_boot))"
  by code_simp

lemma devices_file_valid_witness:
  "\<exists>t. devices_json (write_json (demo_tick 1000 None) hostile_boot) = Some t \<and> valid_json t = 0"
proof -
  have "daemon_reach (g_adapters [adapter_bpf demo_kernel]) demo_sys0 None hostile_boot" unfolding hostile_boot_def by (rule daemon_reach.boot)
  from devices_file_valid[OF this _ _ _ hostile_plain, of "demo_tick 1000 None"] show ?thesis by (simp add: demo_tick_def)
qed

end
