(* ===== verification/IpcTool.thy ===== *)
theory IpcTool
  imports CText
begin

text \<open>
  The control client, \<^verbatim>\<open>daemon/hotspotd/tools/hnc_ipc.c\<close>: the command is built from the arguments or read from the
  standard input, sent over the socket, and the answer is copied to the standard output.  The
  environment holds the variables, the standard input and what the peer does.
\<close>

definition DEFAULT_SOCK_PATH :: string where "DEFAULT_SOCK_PATH = ''/data/local/hnc/run/hotspotd.sock''"
definition IPC_DEFAULT_TIMEOUT :: int where "IPC_DEFAULT_TIMEOUT = 3"
definition CMD_BUF_SIZE :: nat where "CMD_BUF_SIZE = 1024"
definition RESP_BUF_SIZE :: nat where "RESP_BUF_SIZE = 65536"

section \<open>The command\<close>

fun join_args :: "nat \<Rightarrow> bool \<Rightarrow> string list \<Rightarrow> string \<Rightarrow> string option" where
  "join_args out_size first [] out = Some out"
| "join_args out_size first (a # as) out =
     (let s = (if first then [] else '' '') @ a
      in if length out + length s \<ge> out_size then None else join_args out_size False as (out @ s))"

definition build_cmd_from_argv :: "string list \<Rightarrow> nat \<Rightarrow> string option" where
  "build_cmd_from_argv args out_size =
     (case join_args out_size True args [] of
        None \<Rightarrow> None
      | Some out \<Rightarrow> if length out + 1 \<ge> out_size then None else Some (out @ [LF]))"

definition read_cmd_from_stdin :: "string \<Rightarrow> nat \<Rightarrow> string option" where
  "read_cmd_from_stdin input out_size =
     (let out = cstr (fst (fgets (out_size - 1) input))
      in if input = [] then None
         else if out = [] then None
         else if last out \<noteq> LF then (if length out + 1 \<ge> out_size then None else Some (out @ [LF]))
         else Some out)"

section \<open>The exchange\<close>

datatype ipc_ret = Ir_eintr | Ir_error | Ir_eof | Ir_data string

record ipc_env =
  ipc_stdin :: string
  ipc_timeout_var :: "string option"
  ipc_sock_var :: "string option"
  ipc_socket_ok :: bool
  ipc_connect_ok :: "string \<Rightarrow> bool"
  ipc_sent :: "string \<Rightarrow> nat option"
  ipc_replies :: "string \<Rightarrow> ipc_ret list"

text \<open>The receive loop; when the list ends the receive timeout has passed.\<close>

fun recv_all :: "ipc_ret list \<Rightarrow> string \<Rightarrow> string" where
  "recv_all [] buf = buf"
| "recv_all (r # rs) buf =
     (if length buf \<ge> RESP_BUF_SIZE then buf
      else case r of
        Ir_eintr \<Rightarrow> recv_all rs buf
      | Ir_error \<Rightarrow> buf
      | Ir_eof \<Rightarrow> buf
      | Ir_data s \<Rightarrow> if s = [] then buf else recv_all rs (buf @ take (RESP_BUF_SIZE - length buf) s))"

definition ipc_timeout :: "string option \<Rightarrow> int" where
  "ipc_timeout var = (case var of None \<Rightarrow> IPC_DEFAULT_TIMEOUT
     | Some s \<Rightarrow> (let v = c_int (clamp_long (strtol10 s)) in if v > 0 \<and> v < 300 then v else IPC_DEFAULT_TIMEOUT))"

definition ipc_sock_path :: "string option \<Rightarrow> string" where
  "ipc_sock_path var = take 107 (case var of None \<Rightarrow> DEFAULT_SOCK_PATH | Some s \<Rightarrow> if s = [] then DEFAULT_SOCK_PATH else s)"

text \<open>
  The exit code, the standard output and the bytes that were sent: \<open>ipc_sent\<close> is how many bytes of the command \<^verbatim>\<open>send\<close> takes
  (\<^const>\<open>None\<close>: it fails).  A short send is not noticed; the peer then answers to the beginning of the command.
\<close>

definition hnc_ipc_main :: "ipc_env \<Rightarrow> string list \<Rightarrow> int \<times> string \<times> string option" where
  "hnc_ipc_main env args =
     (if args = [] then (1, [], None)
      else case (if args = [''-''] then read_cmd_from_stdin (ipc_stdin env) CMD_BUF_SIZE else build_cmd_from_argv args CMD_BUF_SIZE) of
        None \<Rightarrow> (1, [], None)
      | Some cmd \<Rightarrow>
          if \<not> ipc_socket_ok env then (2, [], None)
          else if \<not> ipc_connect_ok env (ipc_sock_path (ipc_sock_var env)) then (3, [], None)
          else case ipc_sent env cmd of
            None \<Rightarrow> (4, [], None)
          | Some sent \<Rightarrow>
              (let cmd' = take sent cmd; buf = recv_all (ipc_replies env cmd') []
               in if buf = [] then (5, [], Some cmd')
                  else (0, buf @ (if last buf \<noteq> LF then [LF] else []), Some cmd')))"

section \<open>Facts\<close>

text \<open>The words of a command, one blank between them.\<close>

definition spaced :: "string list \<Rightarrow> string" where
  "spaced as = concat (map (\<lambda>a. CHR '' '' # a) as)"

definition words_text :: "string list \<Rightarrow> string" where
  "words_text args = (case args of [] \<Rightarrow> [] | a # as \<Rightarrow> a @ spaced as)"

lemma join_args_spaced:
  "join_args n False as out = (if as \<noteq> [] \<and> length out + length (spaced as) \<ge> n then None else Some (out @ spaced as))"
proof (induction "as" arbitrary: out)
  case (Cons a as)
  then show ?case by (cases "as = []") (simp_all add: Let_def spaced_def)
qed (simp add: spaced_def)

text \<open>
  The argument form sends the words joined by blanks with a line feed, and only refuses
  a command that does not fit its buffer with the terminator.
\<close>

lemma build_cmd_text:
  assumes "args \<noteq> []"
  shows "build_cmd_from_argv args n = (if length (words_text args) + 1 < n then Some (words_text args @ [LF]) else None)"
proof (cases args)
  case (Cons a as)
  then show ?thesis by (cases "as = []") (auto simp: build_cmd_from_argv_def words_text_def join_args_spaced spaced_def Let_def)
qed (use assms in simp)

definition reply_text :: "ipc_ret \<Rightarrow> string" where
  "reply_text r = (case r of Ir_data s \<Rightarrow> s | _ \<Rightarrow> [])"

definition piece :: "ipc_ret \<Rightarrow> bool" where
  "piece r \<longleftrightarrow> (case r of Ir_data s \<Rightarrow> s \<noteq> [] | Ir_eintr \<Rightarrow> True | _ \<Rightarrow> False)"

lemma recv_all_complete:
  assumes "list_all piece rs" and "length buf + length (concat (map reply_text rs)) \<le> RESP_BUF_SIZE"
  shows "recv_all (rs @ [Ir_eof]) buf = buf @ concat (map reply_text rs)"
  using assms
proof (induction rs arbitrary: buf)
  case (Cons r rs)
  show ?case
  proof (cases "length buf \<ge> RESP_BUF_SIZE")
    case True
    then have "length (concat (map reply_text (r # rs))) = 0" using Cons.prems(2) by linarith
    then have "concat (map reply_text (r # rs)) = []" by (simp only: length_0_conv)
    then show ?thesis using True by (simp only: append_Cons recv_all.simps append_Nil2 if_True)
  next
    case False
    then show ?thesis using Cons by (cases r) (auto simp: reply_text_def piece_def)
  qed
qed simp

text \<open>
  C34: The client delivers its command and the whole answer: with a reachable daemon and a \<^verbatim>\<open>send\<close> that takes the command at once, the words of the command line are sent joined by single
  blanks and ended by a line feed, and when the peer answers with any pieces of at most
  64 KiB in all, interrupted any number of times, and closes, the exit code is 0 and the
  output is the answer, ended by a line feed; without any answer the exit code is 5.
\<close>

theorem ipc_exchange_complete:
  assumes "args \<noteq> []" and "args \<noteq> [''-'']" and "length (words_text args) + 1 < CMD_BUF_SIZE"
    and "ipc_socket_ok env" and "ipc_connect_ok env (ipc_sock_path (ipc_sock_var env))"
    and "ipc_sent env (words_text args @ [LF]) = Some (length (words_text args @ [LF]))"
    and "ipc_replies env (words_text args @ [LF]) = rs @ [Ir_eof]"
    and "list_all piece rs" and "answer = concat (map reply_text rs)" and "length answer \<le> RESP_BUF_SIZE"
  shows "hnc_ipc_main env args =
    (if answer = [] then 5 else 0, if answer = [] then [] else answer @ (if last answer \<noteq> LF then [LF] else []), Some (words_text args @ [LF]))"
proof -
  have "recv_all (rs @ [Ir_eof]) [] = answer" using recv_all_complete[OF assms(8), of "[]"] assms(9,10) by simp
  then show ?thesis using assms(1-7) by (simp add: hnc_ipc_main_def build_cmd_text Let_def)
qed

theorem ipc_exchange_complete_witness:
  "hnc_ipc_main \<lparr>ipc_stdin = [], ipc_timeout_var = None, ipc_sock_var = None, ipc_socket_ok = True, ipc_connect_ok = (\<lambda>p. p = DEFAULT_SOCK_PATH),
       ipc_sent = (\<lambda>c. Some (length c)), ipc_replies = (\<lambda>_. [Ir_data ''pong'', Ir_eintr, Ir_data [LF], Ir_eof])\<rparr> [''PING'', ''x''] =
     (0, ''pong'' @ [LF], Some (''PING x'' @ [LF]))"
  using ipc_exchange_complete[of "[''PING'', ''x'']" "\<lparr>ipc_stdin = [], ipc_timeout_var = None, ipc_sock_var = None, ipc_socket_ok = True,
      ipc_connect_ok = (\<lambda>p. p = DEFAULT_SOCK_PATH), ipc_sent = (\<lambda>c. Some (length c)), ipc_replies = (\<lambda>_. [Ir_data ''pong'', Ir_eintr, Ir_data [LF], Ir_eof])\<rparr>"
      "[Ir_data ''pong'', Ir_eintr, Ir_data [LF]]" "''pong'' @ [LF]"]
  by (simp add: CMD_BUF_SIZE_def RESP_BUF_SIZE_def ipc_sock_path_def DEFAULT_SOCK_PATH_def words_text_def spaced_def piece_def reply_text_def)

text \<open>An answer beyond the buffer is cut without notice: the exit code is still 0.\<close>

lemma ipc_long_answer_cut:
  assumes "args \<noteq> []" and "args \<noteq> [''-'']" and "length (words_text args) + 1 < CMD_BUF_SIZE"
    and "ipc_socket_ok env" and "ipc_connect_ok env (ipc_sock_path (ipc_sock_var env))"
    and "ipc_sent env (words_text args @ [LF]) = Some (length (words_text args @ [LF]))"
    and "ipc_replies env (words_text args @ [LF]) = [Ir_data s, Ir_eof]" and "RESP_BUF_SIZE < length s"
  shows "fst (hnc_ipc_main env args) = 0 \<and> length (fst (snd (hnc_ipc_main env args))) \<le> Suc RESP_BUF_SIZE"
proof -
  have "s \<noteq> []" using assms(8) by auto
  then have "recv_all [Ir_data s, Ir_eof] [] = take RESP_BUF_SIZE s" by (simp add: RESP_BUF_SIZE_def)
  moreover have "take RESP_BUF_SIZE s \<noteq> []" using \<open>s \<noteq> []\<close> by (simp add: RESP_BUF_SIZE_def)
  ultimately show ?thesis using assms by (simp add: hnc_ipc_main_def build_cmd_text Let_def)
qed

end
