(* ===== verification/OffloadCtl.thy ===== *)
theory OffloadCtl
  imports Platform Upstream
begin

text \<open>
  The rescue tool \<^verbatim>\<open>daemon/hotspotd/tools/offload_ctl.c\<close>, which drives the adapters without the daemon.  A run gives the exit code, what
  it prints on the standard output and the world after it; \<^const>\<open>None\<close> is a run that leaves a
  buffer in the platform probe or calls a missing operation.
\<close>

type_synonym 'w run = "(int \<times> string \<times> 'w) option"

fun offload_err_num :: "offload_err_t \<Rightarrow> int" where
  "offload_err_num OFFLOAD_OK = 0"
| "offload_err_num OFFLOAD_ENOTSUP = 1"
| "offload_err_num OFFLOAD_EPERM = 2"
| "offload_err_num OFFLOAD_EINVAL = 3"
| "offload_err_num OFFLOAD_ENOENT = 4"
| "offload_err_num OFFLOAD_EAGAIN = 5"
| "offload_err_num OFFLOAD_EINTERNAL = 99"

definition parse_ifindex :: "up_env \<Rightarrow> string \<Rightarrow> int" where
  "parse_ifindex ifs s =
     (if s = [] then 0
      else if list_all c_isdigit s then c_int (clamp_long (strtol10 s))
      else c_int (int (if_nametoindex ifs s)))"

fun ctl_matrix :: "'w offload_adapter_t list \<Rightarrow> 'w \<Rightarrow> nat \<Rightarrow> string" where
  "ctl_matrix [] w i = []"
| "ctl_matrix (a # as) w i =
     ''  ['' @ dec_nat i @ ''] '' @ pad_right 8 (ad_name a) @ '' type='' @ pad_right 10 (offload_type_str (ad_type a)) @
       '' gran='' @ pad_right 12 (offload_gran_str (ad_granularity a)) @ '' probe='' @
       (if (case ad_probe a of Some p \<Rightarrow> p w | None \<Rightarrow> - 1) = 0 then ''MATCH'' else ''no'') @ [LF] @ ctl_matrix as w (i + 1)"

definition bit_text :: "bool \<Rightarrow> string" where "bit_text b = (if b then ''1'' else ''0'')"

definition do_probe :: "plat_env \<Rightarrow> 'w offload_adapter_t list \<Rightarrow> 'w \<Rightarrow> 'w run" where
  "do_probe env adapters w = do {
     g \<leftarrow> platform_probe env;
     Some (0,
       ''Platform: vendor='' @ platform_soc_vendor_str (soc_vendor g) @ '' rom='' @ platform_rom_str (pi_rom g) @ '' api='' @ dec_int (android_api g) @
         '' kernel='' @ kernel_release g @ [LF] @
       ''Offload presence: bpf='' @ bit_text (has_bpf_tethering g) @ '' mtk_ppe='' @ bit_text (has_mtk_ppe g) @ '' nss='' @ bit_text (has_samsung_nss g) @
         '' bpf_syscall_ok='' @ bit_text (bpf_syscall_ok g) @ [LF] @
       [LF] @ ''Adapter probe matrix:'' @ [LF] @ ctl_matrix adapters w 0 @
       [LF] @ ''Selected: '' @ (case fst (offload_select_adapter adapters w None) of Some a \<Rightarrow> ad_name a | None \<Rightarrow> ''(none)'') @ [LF], w) }"

text \<open>Probe, election and start of the adapter: the exit code of a failed preparation or the adapter, and the world.\<close>

definition prep_adapter :: "plat_env \<Rightarrow> 'w offload_adapter_t list \<Rightarrow> 'w \<Rightarrow> ((int + 'w offload_adapter_t) \<times> 'w) option" where
  "prep_adapter env adapters w = do {
     g \<leftarrow> platform_probe env;
     Some (case fst (offload_select_adapter adapters w None) of
        None \<Rightarrow> (Inl 1, w)
      | Some a \<Rightarrow> (case ad_init a w of (e, w1) \<Rightarrow> (if e \<noteq> OFFLOAD_OK then Inl (offload_err_num e) else Inr a, w1))) }"

definition ctl_shutdown :: "'w offload_adapter_t \<Rightarrow> 'w \<Rightarrow> 'w option" where
  "ctl_shutdown a w = map_option (\<lambda>f. f w) (ad_shutdown a)"

text \<open>A command body between preparation and shutdown: it returns the exit code, its output and the world.\<close>

definition with_adapter ::
  "plat_env \<Rightarrow> 'w offload_adapter_t list \<Rightarrow> ('w offload_adapter_t \<Rightarrow> 'w \<Rightarrow> 'w run) \<Rightarrow> 'w \<Rightarrow> 'w run" where
  "with_adapter env adapters body w = do {
     p \<leftarrow> prep_adapter env adapters w;
     (case p of
        (Inl rc, w1) \<Rightarrow> Some (rc, [], w1)
      | (Inr a, w1) \<Rightarrow> do { r \<leftarrow> body a w1; case r of (rc, out, w2) \<Rightarrow> do { w3 \<leftarrow> ctl_shutdown a w2; Some (rc, out, w3) } }) }"

definition do_self_check :: "plat_env \<Rightarrow> 'w offload_adapter_t list \<Rightarrow> 'w \<Rightarrow> 'w run" where
  "do_self_check env adapters = with_adapter env adapters (\<lambda>a w.
     case (case ad_self_check a of Some f \<Rightarrow> f w | None \<Rightarrow> (OFFLOAD_OK, w)) of
       (e, w1) \<Rightarrow> Some (offload_err_num e, ''self_check: adapter='' @ ad_name a @ '' result='' @ offload_err_str e @ [LF], w1))"

fun disabled_rows :: "up_env \<Rightarrow> nat \<Rightarrow> int list \<Rightarrow> string" where
  "disabled_rows ifs i [] = []"
| "disabled_rows ifs i (x # xs) =
     ''    ['' @ dec_nat i @ ''] ifindex='' @ dec_int x @ '' ('' @ (case if_indextoname ifs (nat (x mod 2 ^ 32)) of Some n \<Rightarrow> n | None \<Rightarrow> ''?'') @ '')'' @ [LF] @
       disabled_rows ifs (i + 1) xs"

definition status_text :: "up_env \<Rightarrow> 'w offload_adapter_t \<Rightarrow> offload_status_t \<Rightarrow> string" where
  "status_text ifs a st =
     ''Adapter'' @ [LF] @ row ''name           : '' (ad_name a) @ row ''type           : '' (offload_type_str (ad_type a)) @
       row ''granularity    : '' (offload_gran_str (ad_granularity a)) @ [LF] @
     ''Status (cached, last refresh '' @ dec_int (os_last_refresh_ts st) @ '')'' @ [LF] @
       row ''active         : '' (yes_no (os_active st)) @ row ''delta_bytes    : '' (dec_nat (unat (os_last_delta_bytes st))) @
       row ''global_disable : '' (yes_no (os_globally_disabled st)) @
       row ''per-upstream disable count : '' (dec_nat (os_disabled_upstream_count st)) @
       disabled_rows ifs 0 (take (os_disabled_upstream_count st) (os_disabled_upstream_ifindex st))"

definition status_body :: "up_env \<Rightarrow> 'w offload_adapter_t \<Rightarrow> 'w \<Rightarrow> 'w run" where
  "status_body ifs a w = Some (0, status_text ifs a (case ad_status a of Some f \<Rightarrow> f w | None \<Rightarrow> os_zero), w)"

definition do_status :: "plat_env \<Rightarrow> up_env \<Rightarrow> 'w offload_adapter_t list \<Rightarrow> 'w \<Rightarrow> 'w run" where
  "do_status env ifs adapters = with_adapter env adapters (status_body ifs)"

definition do_refresh :: "plat_env \<Rightarrow> 'w offload_adapter_t list \<Rightarrow> 'w \<Rightarrow> 'w run" where
  "do_refresh env adapters = with_adapter env adapters (\<lambda>a w.
     case ad_refresh_active a of
       None \<Rightarrow> Some (1, [], w)
     | Some f \<Rightarrow>
         (case f w of (e, w1) \<Rightarrow>
            if e \<noteq> OFFLOAD_OK then Some (offload_err_num e, [], w1)
            else (case ad_status a of
                    None \<Rightarrow> None
                  | Some status \<Rightarrow>
                      (let st = status w1
                       in Some (0, ''active='' @ bit_text (os_active st) @ '' delta_bytes='' @ dec_nat (unat (os_last_delta_bytes st)) @ '' refresh_ts='' @
                            dec_int (os_last_refresh_ts st) @ [LF], w1)))))"

definition disable_body :: "int \<Rightarrow> 'w offload_adapter_t \<Rightarrow> 'w \<Rightarrow> 'w run" where
  "disable_body ifindex a w =
     (if offload_gran_num (ad_granularity a) < offload_gran_num OFFLOAD_GRAN_PER_UPSTREAM then Some (offload_err_num OFFLOAD_ENOTSUP, [], w)
      else case ad_disable_upstream a of
        None \<Rightarrow> Some (offload_err_num OFFLOAD_ENOTSUP, [], w)
      | Some f \<Rightarrow> (case f ifindex w of (e, w1) \<Rightarrow>
          Some (offload_err_num e, ''disable_upstream('' @ dec_int ifindex @ ''): '' @ offload_err_str e @ [LF], w1)))"

definition do_disable_upstream :: "plat_env \<Rightarrow> up_env \<Rightarrow> 'w offload_adapter_t list \<Rightarrow> string \<Rightarrow> 'w \<Rightarrow> 'w run" where
  "do_disable_upstream env ifs adapters arg w =
     (if parse_ifindex ifs arg \<le> 0 then Some (offload_err_num OFFLOAD_EINVAL, [], w)
      else with_adapter env adapters (disable_body (parse_ifindex ifs arg)) w)"

definition restore_body :: "int \<Rightarrow> 'w offload_adapter_t \<Rightarrow> 'w \<Rightarrow> 'w run" where
  "restore_body ifindex a w =
     (case ad_restore_upstream a of
        None \<Rightarrow> Some (offload_err_num OFFLOAD_ENOTSUP, [], w)
      | Some f \<Rightarrow> (case f ifindex w of (e, w1) \<Rightarrow>
          Some (offload_err_num e, ''restore_upstream('' @ dec_int ifindex @ ''): '' @ offload_err_str e @ [LF], w1)))"

definition do_restore_upstream :: "plat_env \<Rightarrow> up_env \<Rightarrow> 'w offload_adapter_t list \<Rightarrow> string \<Rightarrow> 'w \<Rightarrow> 'w run" where
  "do_restore_upstream env ifs adapters arg w =
     (if parse_ifindex ifs arg \<le> 0 then Some (offload_err_num OFFLOAD_EINVAL, [], w)
      else with_adapter env adapters (restore_body (parse_ifindex ifs arg)) w)"

definition do_disable_global :: "plat_env \<Rightarrow> 'w offload_adapter_t list \<Rightarrow> 'w \<Rightarrow> 'w run" where
  "do_disable_global env adapters = with_adapter env adapters (\<lambda>a w.
     case ad_disable_global a of
       None \<Rightarrow> Some (offload_err_num OFFLOAD_ENOTSUP, [], w)
     | Some f \<Rightarrow> (case f w of (e, w1) \<Rightarrow> Some (offload_err_num e, ''disable_global: '' @ offload_err_str e @ [LF], w1)))"

definition do_restore_global :: "plat_env \<Rightarrow> 'w offload_adapter_t list \<Rightarrow> 'w \<Rightarrow> 'w run" where
  "do_restore_global env adapters = with_adapter env adapters (\<lambda>a w.
     case ad_restore_global a of
       None \<Rightarrow> Some (offload_err_num OFFLOAD_ENOTSUP, [], w)
     | Some f \<Rightarrow> (case f w of (e, w1) \<Rightarrow> Some (offload_err_num e, ''restore_global: '' @ offload_err_str e @ [LF], w1)))"

definition offload_ctl_main :: "plat_env \<Rightarrow> up_env \<Rightarrow> 'w offload_adapter_t list \<Rightarrow> string list \<Rightarrow> 'w \<Rightarrow> 'w run" where
  "offload_ctl_main env ifs adapters args w =
     (case args of
        [] \<Rightarrow> Some (1, [], w)
      | cmd # rest \<Rightarrow>
          if cmd = ''probe'' then do_probe env adapters w
          else if cmd = ''self_check'' then do_self_check env adapters w
          else if cmd = ''status'' then do_status env ifs adapters w
          else if cmd = ''refresh'' then do_refresh env adapters w
          else if cmd = ''disable_global'' then do_disable_global env adapters w
          else if cmd = ''restore_global'' then do_restore_global env adapters w
          else if cmd = ''disable_upstream'' then (case rest of [] \<Rightarrow> Some (offload_err_num OFFLOAD_EINVAL, [], w) | a # _ \<Rightarrow> do_disable_upstream env ifs adapters a w)
          else if cmd = ''restore_upstream'' then (case rest of [] \<Rightarrow> Some (offload_err_num OFFLOAD_EINVAL, [], w) | a # _ \<Rightarrow> do_restore_upstream env ifs adapters a w)
          else if cmd = ''-h'' \<or> cmd = ''--help'' then Some (0, [], w)
          else Some (1, [], w))"

section \<open>The tool on a phone with the BPF adapter\<close>

lemma init_same:
  assumes "kernel_maps K V" and "bpf_init K (bpf_state0, k) = (e, w')"
  shows "same_maps V (bpf_state0, k) w' \<and> fds_ok V w'"
proof -
  have z: "fds_ok V (bpf_state0, k)" by (rule demo_state_ok)
  obtain r w1 where r: "ensure_limit_fd K (bpf_state0, k) = (r, w1)" by (rule prod.exhaust)
  have w1: "same_maps V (bpf_state0, k) w1" "fds_ok V w1" using ensure_limit_same[OF assms(1) r] z by (auto simp: keeps_fds_def)
  obtain r2 s2 k2 where r2: "ensure_stats_fd K w1 = (r2, s2, k2)" by (rule prod_cases3)
  have s2: "same_maps V (bpf_state0, k) (s2, k2)" "fds_ok V (s2, k2)" using ensure_stats_same[OF assms(1) r2] w1 same_maps_trans by blast+
  obtain r3 k3 where r3: "k_obj_get K BPF_ERROR_MAP k2 = (r3, k3)" by (rule prod.exhaust)
  show ?thesis
  proof (cases r)
    case (Some x)
    then show ?thesis using assms(2) r w1 by (auto simp: bpf_init_def bpf_state0_def)
  next
    case None
    then have "w' = (s2\<lparr>fd_error := (case r3 of Inl _ \<Rightarrow> - 1 | Inr fd \<Rightarrow> fd), initialized := True\<rparr>, k3)"
      using assms(2) r r2 r3 by (simp add: bpf_init_def) (simp add: bpf_state0_def)
    then show ?thesis using s2 obj_get_error_fds[OF assms(1) s2(2) r3] kernel_obj_get[OF assms(1) r3] by (simp add: same_maps_def same_sets_def)
  qed
qed

lemma shutdown_same: "kernel_maps K V \<Longrightarrow> v_map V (snd (bpf_shutdown K w)) = v_map V (snd w)"
  using close_fd_table[of K V] by (auto simp: bpf_shutdown_def split: prod.splits)

definition bpf_phone :: "'k bpf_kernel \<Rightarrow> 'k \<Rightarrow> bool" where
  "bpf_phone K k \<longleftrightarrow> k_stat K BPF_LIMIT_MAP k"

lemma bpf_elected: "bpf_phone K k \<Longrightarrow> fst (offload_select_adapter (g_adapters [adapter_bpf K]) (s, k) None) = Some (adapter_bpf K)"
  by (simp add: offload_select_adapter_def g_adapters_def adapter_bpf_def bpf_probe_def bpf_phone_def)

text \<open>
  A run of a command on a fresh process: either the adapter could not be started and nothing was
  written, or the body ran on a started adapter and the shutdown kept what it wrote.
\<close>

lemma with_bpf:
  assumes "kernel_maps K V" and "bpf_phone K k"
    and "with_adapter env (g_adapters [adapter_bpf K]) body (bpf_state0, k) = Some (rc, out, w')"
  shows "(rc \<noteq> 0 \<and> v_map V (snd w') = v_map V k) \<or>
    (\<exists>w1 w2. same_sets bpf_state0 (fst w1) \<and> fds_ok V w1 \<and> v_map V (snd w1) = v_map V k \<and> body (adapter_bpf K) w1 = Some (rc, out, w2) \<and> v_map V (snd w') = v_map V (snd w2))"
proof -
  obtain e w1 where i: "bpf_init K (bpf_state0, k) = (e, w1)" by (rule prod.exhaust)
  obtain g where g: "platform_probe env = Some g" using assms(3) by (cases "platform_probe env") (simp_all add: with_adapter_def prep_adapter_def)
  have p: "prep_adapter env (g_adapters [adapter_bpf K]) (bpf_state0, k) =
      Some (if e \<noteq> OFFLOAD_OK then Inl (offload_err_num e) else Inr (adapter_bpf K), w1)"
    using g i bpf_elected[OF assms(2), of bpf_state0] by (simp add: prep_adapter_def) (simp add: adapter_bpf_def)
  show ?thesis
  proof (cases "e = OFFLOAD_OK")
    case False
    then have "offload_err_num e \<noteq> 0" by (cases e) simp_all
    then show ?thesis using False p assms(3) init_same[OF assms(1) i] by (auto simp: with_adapter_def same_maps_def)
  next
    case True
    then obtain w2 where b: "body (adapter_bpf K) w1 = Some (rc, out, w2)" "w' = bpf_shutdown K w2"
      using p assms(3) by (cases "body (adapter_bpf K) w1") (auto simp: with_adapter_def ctl_shutdown_def adapter_bpf_def)
    then have "same_sets bpf_state0 (fst w1) \<and> fds_ok V w1 \<and> v_map V (snd w1) = v_map V k \<and> body (adapter_bpf K) w1 = Some (rc, out, w2) \<and> v_map V (snd w') = v_map V (snd w2)"
      using init_same[OF assms(1) i] shutdown_same[OF assms(1), of w2] by (simp add: same_maps_def)
    then show ?thesis by blast
  qed
qed

lemma err_num_0 [simp]: "offload_err_num e = 0 \<longleftrightarrow> e = OFFLOAD_OK"
  by (cases e) simp_all

lemma with_bpf_op:
  assumes "kernel_maps K V" and "bpf_phone K k"
    and "with_adapter env (g_adapters [adapter_bpf K]) body (bpf_state0, k) = Some (rc, out, w')"
    and b: "\<And>w. body (adapter_bpf K) w = (case f w of (e, w2) \<Rightarrow> Some (offload_err_num e, txt e, w2))"
  obtains "rc \<noteq> 0" "v_map V (snd w') = v_map V k"
    | w1 w2 e where "fds_ok V w1" "v_map V (snd w1) = v_map V k" "f w1 = (e, w2)" "rc = offload_err_num e" "v_map V (snd w') = v_map V (snd w2)"
proof -
  consider "rc \<noteq> 0 \<and> v_map V (snd w') = v_map V k"
    | w1 w2 where "fds_ok V w1" "v_map V (snd w1) = v_map V k" "body (adapter_bpf K) w1 = Some (rc, out, w2)" "v_map V (snd w') = v_map V (snd w2)"
    using with_bpf[OF assms(1-3)] by blast
  then show thesis
  proof cases
    case 1
    then show thesis using that(1) by blast
  next
    case (2 w1 w2)
    obtain e w3 where "f w1 = (e, w3)" by (rule prod.exhaust)
    then show thesis using 2 b[of w1] that(2)[of w1 e w3] by simp
  qed
qed

lemma bpf_bodies:
  "disable_body i (adapter_bpf K) w = (case bpf_disable_upstream K i w of (e, w1) \<Rightarrow>
     Some (offload_err_num e, ''disable_upstream('' @ dec_int i @ ''): '' @ offload_err_str e @ [LF], w1))"
  "restore_body i (adapter_bpf K) w = (case bpf_restore_upstream K i w of (e, w1) \<Rightarrow>
     Some (offload_err_num e, ''restore_upstream('' @ dec_int i @ ''): '' @ offload_err_str e @ [LF], w1))"
  by (simp_all add: disable_body_def restore_body_def adapter_bpf_def)

lemma ctl_disable_effect:
  assumes "kernel_maps K V" and "bpf_phone K k"
    and "offload_ctl_main env ifs (g_adapters [adapter_bpf K]) [''disable_upstream'', a] (bpf_state0, k) = Some (rc, out, w')"
  shows "if rc = 0 then 0 < parse_ifindex ifs a \<and> v_map V (snd w') = maps_with V k (nat (parse_ifindex ifs a)) (Some 0) else v_map V (snd w') = v_map V k"
proof (cases "parse_ifindex ifs a \<le> 0")
  case True
  then show ?thesis using assms(3) by (auto simp: offload_ctl_main_def do_disable_upstream_def)
next
  case False
  then have r: "with_adapter env (g_adapters [adapter_bpf K]) (disable_body (parse_ifindex ifs a)) (bpf_state0, k) = Some (rc, out, w')"
    using assms(3) by (simp add: offload_ctl_main_def do_disable_upstream_def)
  show ?thesis
  proof (rule with_bpf_op[OF assms(1,2) r bpf_bodies(1)])
    fix w1 w2 e
    assume w: "fds_ok V w1" "v_map V (snd w1) = v_map V k" "bpf_disable_upstream K (parse_ifindex ifs a) w1 = (e, w2)" "rc = offload_err_num e" "v_map V (snd w') = v_map V (snd w2)"
    show ?thesis using disable_upstream_effect[OF assms(1) fds_limit_ok[OF w(1)] w(3)] w by (cases "e = OFFLOAD_OK") (simp_all add: same_maps_def)
  qed simp
qed

lemma ctl_restore_effect:
  assumes "kernel_maps K V" and "bpf_phone K k"
    and "offload_ctl_main env ifs (g_adapters [adapter_bpf K]) [''restore_upstream'', a] (bpf_state0, k) = Some (rc, out, w')"
  shows "if rc = 0 then 0 < parse_ifindex ifs a \<and>
      v_map V (snd w') = (if nat (parse_ifindex ifs a) \<in> dom (limit_map V k) then maps_with V k (nat (parse_ifindex ifs a)) (Some BPF_LIMIT_NONE) else v_map V k) else v_map V (snd w') = v_map V k"
proof (cases "parse_ifindex ifs a \<le> 0")
  case True
  then show ?thesis using assms(3) by (auto simp: offload_ctl_main_def do_restore_upstream_def)
next
  case False
  then have r: "with_adapter env (g_adapters [adapter_bpf K]) (restore_body (parse_ifindex ifs a)) (bpf_state0, k) = Some (rc, out, w')"
    using assms(3) by (simp add: offload_ctl_main_def do_restore_upstream_def)
  show ?thesis
  proof (rule with_bpf_op[OF assms(1,2) r bpf_bodies(2)])
    fix w1 w2 e
    assume w: "fds_ok V w1" "v_map V (snd w1) = v_map V k" "bpf_restore_upstream K (parse_ifindex ifs a) w1 = (e, w2)" "rc = offload_err_num e" "v_map V (snd w') = v_map V (snd w2)"
    show ?thesis using restore_upstream_effect[OF assms(1) fds_limit_ok[OF w(1)] w(3)] w by (cases "e = OFFLOAD_OK") (simp_all add: same_maps_def)
  qed simp
qed

text \<open>
  C33: The rescue tool undoes itself: on a phone with the BPF adapter, a successful \<^verbatim>\<open>disable_upstream\<close> sets the entry of the named interface in the map pinned as the tethering
  limit map to 0 and leaves every other entry and every other pinned map alone, a successful \<^verbatim>\<open>restore_upstream\<close> by a
  later process that finds the maps like that sets it to no limit again, and a run of the first command that exits with
  another code leaves every map as it was.
\<close>

theorem ctl_disable_restore:
  assumes "kernel_maps K V" and "bpf_phone K k" and "bpf_phone K k'" and "v_map V k' = v_map V k1"
    and "offload_ctl_main env ifs (g_adapters [adapter_bpf K]) [''disable_upstream'', a] (bpf_state0, k) = Some (rc1, out1, (s1, k1))"
    and "offload_ctl_main env ifs (g_adapters [adapter_bpf K]) [''restore_upstream'', a] (bpf_state0, k') = Some (rc2, out2, (s2, k2))"
  shows "(\<forall>path. path \<noteq> BPF_LIMIT_MAP \<longrightarrow> v_map V k1 path = v_map V k path \<and> v_map V k2 path = v_map V k path) \<and>
    (if rc1 = 0 then 0 < parse_ifindex ifs a \<and> limit_map V k1 = (limit_map V k)(nat (parse_ifindex ifs a) \<mapsto> 0) else limit_map V k1 = limit_map V k) \<and>
    (rc1 = 0 \<and> rc2 = 0 \<longrightarrow> limit_map V k2 = (limit_map V k)(nat (parse_ifindex ifs a) \<mapsto> BPF_LIMIT_NONE))"
  using ctl_disable_effect[OF assms(1,2,5)] ctl_restore_effect[OF assms(1,3,6)] assms(4) by (auto split: if_splits)

lemma probe_demo: "\<exists>g. platform_probe (demo_props\<lparr>property := (\<lambda>_. [])\<rparr>) = Some g"
proof -
  let ?e = "demo_props\<lparr>property := (\<lambda>_. [])\<rparr>"
  have "android_props ?e" by (simp add: android_props_def)
  moreover have "classify_rom ?e \<noteq> None"
    by (simp add: classify_rom_def rom_marks_def prop_exists_def system_property_get_def classify_brand_def prop_get_def)
  ultimately show ?thesis using probe_None_iff[of ?e] by (cases "platform_probe ?e") auto
qed

definition demo_ctl :: "string list \<Rightarrow> (nat \<Rightarrow> 64 word option) \<Rightarrow> pinned_maps bpf_world run" where
  "demo_ctl args m = offload_ctl_main (demo_props\<lparr>property := (\<lambda>_. [])\<rparr>) phone (g_adapters [adapter_bpf demo_kernel]) args (bpf_state0, demo_maps m)"

lemma demo_phone: "bpf_phone demo_kernel k"
  by (simp add: bpf_phone_def demo_kernel_def)

lemma phone_index: "parse_ifindex phone ''rmnet0'' = 7"
  by (simp add: parse_ifindex_def c_isdigit_def phone_def c_int_def)

abbreviation demo_started :: bpf_state where
  "demo_started \<equiv> bpf_state0\<lparr>initialized := True, fd_limit := 3, fd_stats := 4, fd_error := 5\<rparr>"

lemma demo_init: "bpf_init demo_kernel (bpf_state0, demo_maps m) = (OFFLOAD_OK, (demo_started, demo_open m))"
  by (simp add: bpf_init_def ensure_stats_fd_def demo_calls demo_open_def)

lemma demo_with:
  assumes "body (adapter_bpf demo_kernel) (demo_started, demo_open m) = Some (0, out, w2)"
  shows "with_adapter (demo_props\<lparr>property := (\<lambda>_. [])\<rparr>) (g_adapters [adapter_bpf demo_kernel]) body (bpf_state0, demo_maps m) =
    Some (0, out, bpf_shutdown demo_kernel w2)"
proof -
  obtain g where g: "platform_probe (demo_props\<lparr>property := (\<lambda>_. [])\<rparr>) = Some g" using probe_demo by blast
  have p: "prep_adapter (demo_props\<lparr>property := (\<lambda>_. [])\<rparr>) (g_adapters [adapter_bpf demo_kernel]) (bpf_state0, demo_maps m) =
      Some (Inr (adapter_bpf demo_kernel), (demo_started, demo_open m))"
    using g demo_init[of m] bpf_elected[OF demo_phone, of bpf_state0 "demo_maps m"] by (simp add: prep_adapter_def) (simp add: adapter_bpf_def)
  have "ctl_shutdown (adapter_bpf demo_kernel) w2 = Some (bpf_shutdown demo_kernel w2)" by (simp add: ctl_shutdown_def adapter_bpf_def)
  then show ?thesis using p assms by (simp add: with_adapter_def)
qed

lemma seven: "dec_int 7 = ''7''"
  by code_simp

lemma demo_ok:
  "fst (bpf_disable_upstream demo_kernel 7 (demo_started, demo_open [7 \<mapsto> BPF_LIMIT_NONE])) = OFFLOAD_OK"
  "fst (bpf_restore_upstream demo_kernel 7 (demo_started, demo_open [7 \<mapsto> 0])) = OFFLOAD_OK"
  by (simp_all add: demo_calls demo_open_def)

lemma demo_runs:
  "\<exists>s k. demo_ctl [''disable_upstream'', ''rmnet0''] [7 \<mapsto> BPF_LIMIT_NONE] = Some (0, ''disable_upstream(7): OK'' @ [LF], (s, k))"
  "\<exists>s k. demo_ctl [''restore_upstream'', ''rmnet0''] [7 \<mapsto> 0] = Some (0, ''restore_upstream(7): OK'' @ [LF], (s, k))"
proof -
  obtain w1 where w1: "bpf_disable_upstream demo_kernel 7 (demo_started, demo_open [7 \<mapsto> BPF_LIMIT_NONE]) = (OFFLOAD_OK, w1)"
    using demo_ok(1) by (metis prod.collapse)
  then have "disable_body 7 (adapter_bpf demo_kernel) (demo_started, demo_open [7 \<mapsto> BPF_LIMIT_NONE]) = Some (0, ''disable_upstream(7): OK'' @ [LF], w1)"
    by (simp add: bpf_bodies seven)
  from demo_with[of "disable_body 7", OF this] show "\<exists>s k. demo_ctl [''disable_upstream'', ''rmnet0''] [7 \<mapsto> BPF_LIMIT_NONE] = Some (0, ''disable_upstream(7): OK'' @ [LF], (s, k))"
    by (cases "bpf_shutdown demo_kernel w1") (simp add: demo_ctl_def offload_ctl_main_def do_disable_upstream_def phone_index)
  obtain w2 where w2: "bpf_restore_upstream demo_kernel 7 (demo_started, demo_open [7 \<mapsto> 0]) = (OFFLOAD_OK, w2)"
    using demo_ok(2) by (metis prod.collapse)
  then have "restore_body 7 (adapter_bpf demo_kernel) (demo_started, demo_open [7 \<mapsto> 0]) = Some (0, ''restore_upstream(7): OK'' @ [LF], w2)"
    by (simp add: bpf_bodies seven)
  from demo_with[of "restore_body 7", OF this] show "\<exists>s k. demo_ctl [''restore_upstream'', ''rmnet0''] [7 \<mapsto> 0] = Some (0, ''restore_upstream(7): OK'' @ [LF], (s, k))"
    by (cases "bpf_shutdown demo_kernel w2") (simp add: demo_ctl_def offload_ctl_main_def do_restore_upstream_def phone_index)
qed

theorem ctl_disable_restore_witness:
  "\<exists>s1 k1 s2 k2. demo_ctl [''disable_upstream'', ''rmnet0''] [7 \<mapsto> BPF_LIMIT_NONE] = Some (0, ''disable_upstream(7): OK'' @ [LF], (s1, k1)) \<and>
     pm_maps k1 BPF_LIMIT_MAP 7 = Some 0 \<and>
     demo_ctl [''restore_upstream'', ''rmnet0''] [7 \<mapsto> 0] = Some (0, ''restore_upstream(7): OK'' @ [LF], (s2, k2)) \<and>
     pm_maps k2 BPF_LIMIT_MAP 7 = Some BPF_LIMIT_NONE"
proof -
  obtain s1 k1 where r1: "demo_ctl [''disable_upstream'', ''rmnet0''] [7 \<mapsto> BPF_LIMIT_NONE] = Some (0, ''disable_upstream(7): OK'' @ [LF], (s1, k1))"
    using demo_runs(1) by blast
  obtain s2 k2 where r2: "demo_ctl [''restore_upstream'', ''rmnet0''] [7 \<mapsto> 0] = Some (0, ''restore_upstream(7): OK'' @ [LF], (s2, k2))"
    using demo_runs(2) by blast
  have "v_map demo_view k1 = maps_with demo_view (demo_maps [7 \<mapsto> BPF_LIMIT_NONE]) 7 (Some 0)"
    using ctl_disable_effect[OF demo_kernel_maps demo_phone r1[unfolded demo_ctl_def]] by (simp add: phone_index)
  then have m: "v_map demo_view (demo_maps [7 \<mapsto> 0]) = v_map demo_view k1" by (simp add: demo_maps_def fun_eq_iff)
  from ctl_disable_restore[OF demo_kernel_maps demo_phone demo_phone m r1[unfolded demo_ctl_def] r2[unfolded demo_ctl_def]] r1 r2
  show ?thesis by (auto simp: phone_index)
qed

text \<open>
  The status command looks at the adapter of its own fresh process: it reports no disabled upstream whatever
  the daemon has written into the map.
\<close>

lemma ctl_status_blind:
  assumes "kernel_maps K V" and "bpf_phone K k" and "offload_ctl_main env ifs (g_adapters [adapter_bpf K]) [''status''] (bpf_state0, k) = Some (0, out, w')"
  shows "\<exists>a. out = a @ row ''per-upstream disable count : '' ''0''"
proof -
  have r: "with_adapter env (g_adapters [adapter_bpf K]) (status_body ifs) (bpf_state0, k) = Some (0, out, w')"
    using assms(3) by (simp add: offload_ctl_main_def do_status_def)
  obtain w1 w2 where w1: "same_sets bpf_state0 (fst w1)" and b: "status_body ifs (adapter_bpf K) w1 = Some (0, out, w2)"
    using with_bpf[OF assms(1,2) r] by blast
  have "ad_status (adapter_bpf K) = Some bpf_status" by (simp add: adapter_bpf_def)
  then have o: "out = status_text ifs (adapter_bpf K) (bpf_status w1)" using b by (auto simp: status_body_def)
  have "os_disabled_upstream_count (bpf_status w1) = 0" using w1 by (simp add: bpf_status_def same_sets_def bpf_state0_def Let_def)
  moreover have "dec_nat 0 = ''0''" by code_simp
  ultimately have "out = (''Adapter'' @ [LF] @ row ''name           : '' (ad_name (adapter_bpf K)) @ row ''type           : '' (offload_type_str (ad_type (adapter_bpf K))) @
       row ''granularity    : '' (offload_gran_str (ad_granularity (adapter_bpf K))) @ [LF] @
     ''Status (cached, last refresh '' @ dec_int (os_last_refresh_ts (bpf_status w1)) @ '')'' @ [LF] @
       row ''active         : '' (yes_no (os_active (bpf_status w1))) @ row ''delta_bytes    : '' (dec_nat (unat (os_last_delta_bytes (bpf_status w1)))) @
       row ''global_disable : '' (yes_no (os_globally_disabled (bpf_status w1)))) @ row ''per-upstream disable count : '' ''0''"
    using o by (simp add: status_text_def)
  then show ?thesis by blast
qed

end
