(* ===== verification/ChildIo.thy ===== *)
theory ChildIo
  imports HotspotdLoop MdnsResolve
begin

text \<open>
  The child processes behind two steps of the host name chains of \<^verbatim>\<open>daemon/hotspotd/hotspotd.c\<close>:
  \<^verbatim>\<open>try_mdns_resolve\<close>, which runs the program of \<^verbatim>\<open>daemon/hotspotd/mdns_resolve.c\<close> and reads its
  output from a pipe, and \<^verbatim>\<open>try_ns_dhcp_resolve\<close>, which runs \<^verbatim>\<open>dumpsys\<close> under a time limit.  The
  results of \<^verbatim>\<open>read\<close>, \<^verbatim>\<open>select\<close> and \<^verbatim>\<open>waitpid\<close> are scripts; the end of a script means that the
  call has not returned.  Every run also gives the list of the calls that take or give back a
  resource.  The functions are shown to refine the ones of the device table, whose argument is
  the text that was read.
\<close>

section \<open>Calls\<close>

datatype read_ret = Rd_data string | Rd_eof | Rd_eintr | Rd_again | Rd_error

datatype child_wait = Cw_eintr | Cw_error | Cw_exit int | Cw_signal int

datatype proc_call = Opened_pipe | Forked | Closed_write | Closed_read | Killed | Reaped

text \<open>\<^verbatim>\<open>do { w = waitpid(...); } while (w < 0 && errno == EINTR)\<close>: what it returns, and whether the child is gone.\<close>

fun wait_retry :: "child_wait list \<Rightarrow> (int \<times> bool) option" where
  "wait_retry [] = None"
| "wait_retry (Cw_eintr # ws) = wait_retry ws"
| "wait_retry (Cw_error # ws) = Some (- 1, False)"
| "wait_retry (Cw_exit rc # ws) = Some (rc, True)"
| "wait_retry (Cw_signal s # ws) = Some (- 1, True)"

section \<open>The mDNS helper\<close>

text \<open>The blocking read loop, with room for \<open>cap\<close> bytes.\<close>

fun pipe_read :: "nat \<Rightarrow> string \<Rightarrow> read_ret list \<Rightarrow> string option" where
  "pipe_read cap acc [] = (if cap \<le> length acc then Some acc else None)"
| "pipe_read cap acc (r # rs) =
     (if cap \<le> length acc then Some acc
      else case r of
        Rd_data b \<Rightarrow> pipe_read cap (acc @ take (cap - length acc) b) rs
      | Rd_eof \<Rightarrow> Some acc
      | Rd_eintr \<Rightarrow> pipe_read cap acc rs
      | Rd_again \<Rightarrow> Some acc
      | Rd_error \<Rightarrow> Some acc)"

text \<open>
  \<^verbatim>\<open>inet_pton(AF_INET, s, ...) == 1\<close>: exactly the four decimal numbers up to 255 without leading
  zeros, separated by dots.
\<close>

definition inet_pton_ok :: "string \<Rightarrow> bool" where
  "inet_pton_ok s = (case scan_quad s of
       None \<Rightarrow> False
     | Some (a, b, c, d) \<Rightarrow> a \<le> 255 \<and> b \<le> 255 \<and> c \<le> 255 \<and> d \<le> 255 \<and> s = quad_text a b c d)"

record child_env =
  ce_exec_ok :: bool
  ce_pipe_ok :: bool
  ce_fork_ok :: bool
  ce_reads :: "read_ret list"
  ce_waits :: "child_wait list"

text \<open>The name if there is one, and the calls; \<^const>\<open>None\<close> while a call has not returned.\<close>

definition run_mdns_helper :: "child_env \<Rightarrow> string \<Rightarrow> nat \<Rightarrow> (string option \<times> proc_call list) option" where
  "run_mdns_helper env ip outlen =
     (if \<not> ce_exec_ok env then Some (None, [])
      else if outlen = 0 then Some (None, [])
      else if \<not> inet_pton_ok ip then Some (None, [])
      else if \<not> ce_pipe_ok env then Some (None, [])
      else if \<not> ce_fork_ok env then Some (None, [Opened_pipe, Closed_read, Closed_write])
      else case pipe_read (outlen - 1) [] (ce_reads env) of
        None \<Rightarrow> None
      | Some output \<Rightarrow>
          (case wait_retry (ce_waits env) of
             None \<Rightarrow> None
           | Some (rc, gone) \<Rightarrow>
               (let out = rstrip (\<lambda>c. c = LF \<or> c = CR) (cstr output);
                    calls = [Opened_pipe, Forked, Closed_write, Closed_read] @ (if gone then [Reaped] else [])
                in if rc \<noteq> 0 then Some (None, calls)
                   else Some (if out \<noteq> [] then Some out else None, calls))))"

section \<open>The program mdns\_resolve\<close>

definition MDNS_MULTICAST :: string where "MDNS_MULTICAST = ''224.0.0.251''"

text \<open>The whole program: its standard output and its exit code.\<close>

definition mdns_program :: "query_env \<Rightarrow> query_env \<Rightarrow> string list \<Rightarrow> string \<times> int" where
  "mdns_program unicast multicast args =
     (case mdns_args args (DEFAULT_TIMEOUT, None) of
        None \<Rightarrow> ([], 1)
      | Some (timeout_ms, None) \<Rightarrow> ([], 1)
      | Some (timeout_ms, Some ip) \<Rightarrow>
          (case mdns_main inet_pton_ok (unicast\<lparr>qe_pton_ok := inet_pton_ok ip\<rparr>) (multicast\<lparr>qe_pton_ok := inet_pton_ok MDNS_MULTICAST\<rparr>) ip timeout_ms of
             Some hostname \<Rightarrow> (hostname @ [LF], 0)
           | None \<Rightarrow> ([], 1)))"

section \<open>The dump of the DHCP events\<close>

definition BUF_CAP :: nat where "BUF_CAP = 32 * 1024"
definition TIMEOUT_MS :: int where "TIMEOUT_MS = 500"

text \<open>What \<^verbatim>\<open>select\<close> returned, with the result of the \<^verbatim>\<open>read\<close> that follows when the pipe is readable.\<close>

datatype dump_sel = Ds_eintr | Ds_error | Ds_timeout | Ds_ready read_ret

text \<open>
  The loop: each turn has the clock in microseconds and the outcome of \<^verbatim>\<open>select\<close>.  The result is
  the buffer and whether the child was killed.
\<close>

fun dump_read :: "int \<Rightarrow> string \<Rightarrow> (int \<times> dump_sel) list \<Rightarrow> (string \<times> bool) option" where
  "dump_read deadline_us buf [] = (if BUF_CAP - 1 \<le> length buf then Some (buf, False) else None)"
| "dump_read deadline_us buf ((now_us, s) # ts) =
     (if BUF_CAP - 1 \<le> length buf then Some (buf, False)
      else if deadline_us - now_us \<le> 0 then Some (buf, True)
      else case s of
        Ds_eintr \<Rightarrow> dump_read deadline_us buf ts
      | Ds_error \<Rightarrow> Some (buf, False)
      | Ds_timeout \<Rightarrow> Some (buf, True)
      | Ds_ready r \<Rightarrow>
          (case r of
             Rd_data b \<Rightarrow> dump_read deadline_us (buf @ take (BUF_CAP - length buf - 1) b) ts
           | Rd_eof \<Rightarrow> Some (buf, False)
           | Rd_again \<Rightarrow> dump_read deadline_us buf ts
           | Rd_eintr \<Rightarrow> Some (buf, False)
           | Rd_error \<Rightarrow> Some (buf, False)))"

text \<open>\<open>du_waits\<close>: what \<^verbatim>\<open>waitpid\<close> returns, depending on whether the child has been sent \<^verbatim>\<open>SIGKILL\<close> before.\<close>

record dump_env =
  du_pipe_ok :: bool
  du_fork_ok :: bool
  du_malloc_ok :: bool
  du_start_us :: int
  du_turns :: "(int \<times> dump_sel) list"
  du_waits :: "bool \<Rightarrow> child_wait list"

definition run_dumpsys :: "dump_env \<Rightarrow> string \<Rightarrow> nat \<Rightarrow> (string option \<times> proc_call list) option" where
  "run_dumpsys env mac outlen =
     (if mac = [] \<or> outlen = 0 then Some (None, [])
      else if \<not> dhcp_mac_ok mac then Some (None, [])
      else if \<not> du_pipe_ok env then Some (None, [])
      else if \<not> du_fork_ok env then Some (None, [Opened_pipe, Closed_read, Closed_write])
      else if \<not> du_malloc_ok env then
        (case wait_retry (du_waits env True) of
           None \<Rightarrow> None
         | Some (_, gone) \<Rightarrow> Some (None, [Opened_pipe, Forked, Closed_write, Closed_read, Killed] @ (if gone then [Reaped] else [])))
      else case dump_read (du_start_us env + TIMEOUT_MS * 1000) [] (du_turns env) of
        None \<Rightarrow> None
      | Some (buffer, killed) \<Rightarrow>
          (case du_waits env killed of
             [] \<Rightarrow> None
           | w # _ \<Rightarrow>
               (let latest = dhcp_latest mac (strtok_lines (cstr buffer));
                    gone = (case w of Cw_exit _ \<Rightarrow> True | Cw_signal _ \<Rightarrow> True | _ \<Rightarrow> False);
                    calls = [Opened_pipe, Forked, Closed_write] @ (if killed then [Killed] else []) @ [Closed_read] @ (if gone then [Reaped] else [])
                in Some (if latest \<noteq> [] then Some (cbuf outlen latest) else None, calls))))"

section \<open>The read loops\<close>

text \<open>All the bytes that the calls of a script give.\<close>

fun given :: "read_ret list \<Rightarrow> string" where
  "given [] = []"
| "given (Rd_data b # rs) = b @ given rs"
| "given (r # rs) = given rs"

lemma take_prefix_exact:
  assumes "prefix (acc @ take n b) out" and "length out \<le> length acc + n" and "n < length b"
  shows "prefix out (acc @ b @ r)"
proof -
  have "length (acc @ take n b) = length acc + n" using assms(3) by simp
  then have "out = acc @ take n b" using assms(1,2) by (auto simp: prefix_def)
  then show ?thesis by (metis append_assoc append_take_drop_id prefixI)
qed

lemma pipe_read_prefix:
  assumes "pipe_read cap acc rs = Some out" and "length acc \<le> cap"
  shows "prefix acc out \<and> prefix out (acc @ given rs) \<and> length out \<le> cap"
  using assms
proof (induction cap acc rs rule: pipe_read.induct)
  case (2 cap acc r rs)
  show ?case
  proof (cases r)
    case (Rd_data b)
    show ?thesis
    proof (cases "cap \<le> length acc")
      case False
      let ?acc = "acc @ take (cap - length acc) b"
      have IH: "prefix ?acc out" "prefix out (?acc @ given rs)" "length out \<le> cap" using 2 Rd_data False by simp_all
      have "prefix out (acc @ b @ given rs)"
        using IH False take_prefix_exact[OF IH(1)] by (cases "length b \<le> cap - length acc") simp_all
      then show ?thesis using IH Rd_data by (auto dest: append_prefixD)
    qed (use 2 in auto)
  qed (use 2 in \<open>auto split: if_splits\<close>)
qed (auto split: if_splits)

lemma pipe_read_full:
  assumes "set rs \<subseteq> range Rd_data \<union> {Rd_eintr}"
  shows "pipe_read cap [] (rs @ [Rd_eof]) = Some (take cap (given rs))"
proof -
  have "pipe_read cap acc (rs @ [Rd_eof]) = Some (acc @ take (cap - length acc) (given rs))" if "length acc \<le> cap" for acc
    using that assms
  proof (induction rs arbitrary: acc)
    case (Cons r rs)
    show ?case
    proof (cases r)
      case (Rd_data b)
      have "pipe_read cap (acc @ take (cap - length acc) b) (rs @ [Rd_eof]) =
        Some ((acc @ take (cap - length acc) b) @ take (cap - length (acc @ take (cap - length acc) b)) (given rs))"
        using Cons.prems by (intro Cons.IH) auto
      then show ?thesis using Cons.prems Rd_data by (cases "cap \<le> length acc") (simp_all add: diff_diff_add min_def)
    qed (use Cons in auto)
  qed simp
  from this[of "[]"] show ?thesis by simp
qed

text \<open>The bytes that the turns of the dump give.\<close>

fun dump_given :: "(int \<times> dump_sel) list \<Rightarrow> string" where
  "dump_given [] = []"
| "dump_given ((t, Ds_ready (Rd_data b)) # ts) = b @ dump_given ts"
| "dump_given (_ # ts) = dump_given ts"

lemma dump_read_prefix:
  assumes "dump_read dl buf ts = Some (out, killed)" and "length buf \<le> BUF_CAP - 1"
  shows "prefix buf out \<and> prefix out (buf @ dump_given ts) \<and> length out \<le> BUF_CAP - 1"
  using assms
proof (induction ts arbitrary: buf)
  case (Cons t ts)
  obtain now s where t: "t = (now, s)" by fastforce
  show ?case
  proof (cases "\<exists>b. s = Ds_ready (Rd_data b)")
    case True
    then obtain b where b: "s = Ds_ready (Rd_data b)" by blast
    show ?thesis
    proof (cases "BUF_CAP - 1 \<le> length buf \<or> dl - now \<le> 0")
      case False
      let ?n = "BUF_CAP - length buf - 1"
      have r: "dump_read dl (buf @ take ?n b) ts = Some (out, killed)" using Cons.prems(1) False by (simp add: t b)
      have IH: "prefix (buf @ take ?n b) out" "prefix out ((buf @ take ?n b) @ dump_given ts)" "length out \<le> BUF_CAP - 1"
        using Cons.IH[OF r] False by auto
      have "prefix out (buf @ b @ dump_given ts)"
        using IH False take_prefix_exact[OF IH(1)] by (cases "length b \<le> ?n") simp_all
      then show ?thesis using IH by (auto simp: t b dest: append_prefixD)
    qed (use Cons.prems in \<open>auto simp: t b split: if_splits\<close>)
  next
    case False
    then have "dump_given (t # ts) = dump_given ts" by (cases s rule: dump_sel.exhaust; auto simp: t split: read_ret.splits) (metis dump_given.simps(6-9) read_ret.exhaust)
    then show ?thesis using Cons False by (auto simp: t split: if_splits dump_sel.splits read_ret.splits)
  qed
qed (auto split: if_splits)

text \<open>The loop does not look behind a turn at which the time is up, at its head or in \<^verbatim>\<open>select\<close>.\<close>

lemma dump_read_deadline:
  assumes "dl \<le> now \<or> s = Ds_timeout" and "dump_read dl buf used = None"
  shows "\<exists>out. dump_read dl buf (used @ (now, s) # rest) = Some (out, True) \<and> dump_read dl buf (used @ [(now, Ds_timeout)]) = Some (out, True)"
  using assms
proof (induction used arbitrary: buf)
  case Nil
  then show ?case by (auto split: if_splits)
next
  case (Cons t used)
  then show ?case by (cases t) (auto split: dump_sel.splits read_ret.splits if_splits)
qed

section \<open>Refinement of the name chains\<close>

text \<open>
  A run of the helper gives what the host name chain of the device table assumes of it: the text is
  what was read from the pipe, and the exit code that of \<^verbatim>\<open>waitpid\<close>.
\<close>

lemma mdns_helper_refines:
  assumes "run_mdns_helper env ip outlen = Some (r, calls)"
  shows "\<exists>child. r = try_mdns_resolve (ce_exec_ok env) inet_pton_ok (\<lambda>_. child) ip outlen \<and>
    (\<forall>text rc. child = Some (text, rc) \<longrightarrow> prefix text (given (ce_reads env)) \<and> length text < outlen)"
proof -
  consider (early) "\<not> (ce_exec_ok env \<and> outlen \<noteq> 0 \<and> inet_pton_ok ip \<and> ce_pipe_ok env \<and> ce_fork_ok env)"
    | (run) outp rc gone where "ce_exec_ok env" "outlen \<noteq> 0" "inet_pton_ok ip" "ce_pipe_ok env" "ce_fork_ok env"
      "pipe_read (outlen - 1) [] (ce_reads env) = Some outp" "wait_retry (ce_waits env) = Some (rc, gone)"
    using assms by (auto simp: run_mdns_helper_def split: if_splits option.splits)
  then show ?thesis
  proof cases
    case early
    then have "r = None" using assms by (auto simp: run_mdns_helper_def split: if_splits)
    then show ?thesis by (intro exI[of _ None]) (simp add: try_mdns_resolve_def)
  next
    case run
    have o: "prefix outp (given (ce_reads env))" "length outp \<le> outlen - 1" using pipe_read_prefix[OF run(6)] by simp_all
    have "r = try_mdns_resolve (ce_exec_ok env) inet_pton_ok (\<lambda>_. Some (outp, rc)) ip outlen"
      using assms run o(2) by (auto simp: run_mdns_helper_def try_mdns_resolve_def Let_def split: if_splits)
    with o run(2) show ?thesis by (intro exI[of _ "Some (outp, rc)"]) auto
  qed
qed

definition read_dump :: "dump_env \<Rightarrow> string option" where
  "read_dump env = (if du_pipe_ok env \<and> du_fork_ok env \<and> du_malloc_ok env
     then map_option fst (dump_read (du_start_us env + TIMEOUT_MS * 1000) [] (du_turns env)) else None)"

lemma dumpsys_refines:
  assumes "run_dumpsys env mac outlen = Some (r, calls)"
  shows "r = try_ns_dhcp_resolve (read_dump env) mac outlen"
proof (cases "mac = [] \<or> outlen = 0 \<or> \<not> dhcp_mac_ok mac \<or> \<not> du_pipe_ok env \<or> \<not> du_fork_ok env \<or> \<not> du_malloc_ok env")
  case True
  then show ?thesis using assms by (auto simp: run_dumpsys_def try_ns_dhcp_resolve_def read_dump_def split: if_splits option.splits)
next
  case False
  then obtain buffer killed where b: "dump_read (du_start_us env + TIMEOUT_MS * 1000) [] (du_turns env) = Some (buffer, killed)"
    using assms by (auto simp: run_dumpsys_def split: option.splits)
  have "length buffer \<le> 32 * 1024 - 1" using dump_read_prefix[OF b] by (simp add: BUF_CAP_def)
  then have "take (32 * 1024 - 1) buffer = buffer" by simp
  then show ?thesis using assms False b
    by (auto simp: run_dumpsys_def try_ns_dhcp_resolve_def read_dump_def Let_def split: list.splits)
qed

text \<open>Every pipe end is closed once and a started child is collected.\<close>

definition calls_balanced :: "proc_call list \<Rightarrow> bool" where
  "calls_balanced calls \<longleftrightarrow> distinct calls \<and> (Opened_pipe \<in> set calls \<longleftrightarrow> Closed_read \<in> set calls) \<and>
     (Opened_pipe \<in> set calls \<longleftrightarrow> Closed_write \<in> set calls) \<and> (Forked \<in> set calls \<longleftrightarrow> Reaped \<in> set calls)"

definition child_ends :: "child_wait \<Rightarrow> bool" where
  "child_ends w \<longleftrightarrow> (\<exists>v. w = Cw_exit v \<or> w = Cw_signal v)"

lemma wait_retry_ends: "child_ends w \<Longrightarrow> wait_retry (w # ws) = Some (case w of Cw_exit rc \<Rightarrow> rc | _ \<Rightarrow> - 1, True)"
  by (auto simp: child_ends_def)

text \<open>
  C20: A \<^verbatim>\<open>dumpsys\<close> that does not finish is ended at the time limit of half a second.  Let the read loop be still running after some turns and then either
  come round at or after the limit or have \<^verbatim>\<open>select\<close> report that the rest of the time has passed.  Then it ends there, whatever the pipe would deliver later, and the child that was started has been killed; so the run
  returns even if the child would never have ended by itself: only a killed child is assumed to be
  collected by \<^verbatim>\<open>waitpid\<close>.  No pipe end and no child is left behind, and the answer is
  the one that the name chain of the device table gives for the bytes that were read before the limit.
\<close>

theorem dumpsys_time_limit:
  assumes "du_turns env = used @ (now_us, s) # later" and "dump_read (du_start_us env + 500000) [] used = None" and "du_start_us env + 500000 \<le> now_us \<or> s = Ds_timeout"
    and "du_waits env True = w # ws" and "child_ends w"
  shows "\<exists>r calls. calls_balanced calls \<and> (Forked \<in> set calls \<longrightarrow> Killed \<in> set calls) \<and>
    (\<forall>unkilled later'. run_dumpsys (env\<lparr>du_waits := (du_waits env)(False := unkilled), du_turns := used @ (now_us, s) # later'\<rparr>) mac outlen = Some (r, calls)) \<and>
    r = try_ns_dhcp_resolve (read_dump env) mac outlen \<and>
    (\<forall>text. read_dump env = Some text \<longrightarrow> prefix text (dump_given used) \<and> length text < 32768)"
proof -
  let ?dl = "du_start_us env + TIMEOUT_MS * 1000"
  have dl: "?dl \<le> now_us \<or> s = Ds_timeout" "dump_read ?dl [] used = None" using assms(2,3) by (simp_all add: TIMEOUT_MS_def)
  obtain out where d: "dump_read ?dl [] (used @ [(now_us, Ds_timeout)]) = Some (out, True)" using dump_read_deadline[OF dl] by blast
  then have e: "dump_read ?dl [] (used @ (now_us, s) # l) = Some (out, True)" for l using dump_read_deadline[OF dl, of l] by auto
  have g: "dump_given (used @ [(now_us, Ds_timeout)]) = dump_given used"
    by (induction used rule: dump_given.induct) simp_all
  have "prefix out (dump_given used)" "length out < 32768"
    using dump_read_prefix[OF d] unfolding g by (simp_all add: BUF_CAP_def)
  then have t: "\<forall>text. read_dump env = Some text \<longrightarrow> prefix text (dump_given used) \<and> length text < 32768"
    using e assms(1) by (simp add: read_dump_def)
  have same: "run_dumpsys (env\<lparr>du_waits := (du_waits env)(False := u), du_turns := used @ (now_us, s) # l\<rparr>) mac outlen = run_dumpsys env mac outlen" for u l
    using e assms(1) by (simp add: run_dumpsys_def)
  have "\<exists>r calls. run_dumpsys env mac outlen = Some (r, calls) \<and> calls_balanced calls \<and> (Forked \<in> set calls \<longrightarrow> Killed \<in> set calls)"
    using assms(1,4,5) e[of later] wait_retry_ends[OF assms(5), of ws]
    by (auto simp: run_dumpsys_def Let_def calls_balanced_def child_ends_def)
  then show ?thesis using same t dumpsys_refines by metis
qed

text \<open>A child that would hang for ever when it is not killed.\<close>

definition slow_dump :: dump_env where
  "slow_dump = \<lparr>du_pipe_ok = True, du_fork_ok = True, du_malloc_ok = True, du_start_us = 1000000,
     du_turns = [(1000000, Ds_ready (Rd_data (''hwAddr: 02:00:00:00:00:01, hostname: Mi-10'' @ [LF]))), (1400000, Ds_eintr), (1500000, Ds_ready (Rd_data ''late''))],
     du_waits = (\<lambda>killed. if killed then [Cw_signal 9] else [])\<rparr>"

theorem dumpsys_time_limit_witness:
  "\<exists>calls. run_dumpsys slow_dump ''02:00:00:00:00:01'' 64 = Some (Some ''Mi-10'', calls) \<and> calls_balanced calls"
proof -
  let ?t = "''hwAddr: 02:00:00:00:00:01, hostname: Mi-10'' @ [LF]"
  have r: "read_dump slow_dump = Some ?t" by (simp add: read_dump_def slow_dump_def BUF_CAP_def TIMEOUT_MS_def)
  have "dhcp_mac_ok ''02:00:00:00:00:01''" "dhcp_latest ''02:00:00:00:00:01'' (strtok_lines (cstr ?t)) = ''Mi-10''" by code_simp+
  then have v: "try_ns_dhcp_resolve (read_dump slow_dump) ''02:00:00:00:00:01'' 64 = Some ''Mi-10''"
    unfolding r by (simp add: try_ns_dhcp_resolve_def)
  have u: "dump_read (du_start_us slow_dump + 500000) [] (take 2 (du_turns slow_dump)) = None" by (simp add: slow_dump_def BUF_CAP_def)
  have s: "slow_dump\<lparr>du_waits := (du_waits slow_dump)(False := []), du_turns := take 2 (du_turns slow_dump) @ [(1500000, Ds_ready (Rd_data ''late''))]\<rparr> = slow_dump"
    by (simp add: slow_dump_def fun_eq_iff)
  obtain calls where "calls_balanced calls" and c: "\<forall>unkilled later'. run_dumpsys (slow_dump\<lparr>du_waits := (du_waits slow_dump)(False := unkilled),
      du_turns := take 2 (du_turns slow_dump) @ (1500000, Ds_ready (Rd_data ''late'')) # later'\<rparr>) ''02:00:00:00:00:01'' 64 = Some (Some ''Mi-10'', calls)"
    using dumpsys_time_limit[of slow_dump "take 2 (du_turns slow_dump)" 1500000 "Ds_ready (Rd_data ''late'')" "[]" "Cw_signal 9" "[]" "''02:00:00:00:00:01''" 64] u
    unfolding v by (auto simp: slow_dump_def child_ends_def)
  with c[rule_format, of "[]" "[]", unfolded s] show ?thesis by blast
qed

text \<open>
  The limit covers the loop only: when it ends because the buffer is full, at the end of the output or at an error,
  the child is not killed, and the call that collects it has no limit.
\<close>

lemma dumpsys_unkilled:
  assumes "dump_read (du_start_us env + TIMEOUT_MS * 1000) [] (du_turns env) = Some (buffer, False)" and "du_malloc_ok env"
  shows "(\<forall>r calls. run_dumpsys env mac outlen = Some (r, calls) \<longrightarrow> Killed \<notin> set calls) \<and>
    (dhcp_mac_ok mac \<and> outlen \<noteq> 0 \<and> du_pipe_ok env \<and> du_fork_ok env \<longrightarrow> run_dumpsys (env\<lparr>du_waits := (du_waits env)(False := [])\<rparr>) mac outlen = None)"
  using assms by (auto simp: run_dumpsys_def Let_def dhcp_mac_ok_def split: list.splits if_splits)

end
