(* ===== verification/MdnsPath.thy ===== *)
theory MdnsPath
  imports ChildIo
begin

text \<open>
  The way of an mDNS answer through four parts of the system: the packet is read by the program
  \<^verbatim>\<open>mdns_resolve\<close>, its output by \<^verbatim>\<open>try_mdns_resolve\<close> of the daemon, the name goes through the result
  ring of the mDNS worker, and a round of the main loop enters it into the device table.
\<close>

section \<open>The program\<close>

lemma inet_pton_quad:
  assumes "a \<le> 255" and "b \<le> 255" and "c \<le> 255" and "d \<le> 255"
  shows "inet_pton_ok (quad_text a b c d)"
  using assms by (simp add: inet_pton_ok_def scan_quad_text)

text \<open>The accepted addresses are exactly the dotted quads.\<close>

lemma inet_pton_iff: "inet_pton_ok s \<longleftrightarrow> (\<exists>a b c d. a \<le> 255 \<and> b \<le> 255 \<and> c \<le> 255 \<and> d \<le> 255 \<and> s = quad_text a b c d)"
  by (auto simp: inet_pton_quad) (auto simp: inet_pton_ok_def split: option.splits prod.splits)

text \<open>A packet that the receive loop passes over.\<close>

definition passed_over :: "int \<Rightarrow> string \<Rightarrow> int \<times> string option \<Rightarrow> bool" where
  "passed_over timeout_ms x ev = (case ev of (t, p) \<Rightarrow> t < timeout_ms \<and>
     (case p of None \<Rightarrow> False | Some q \<Rightarrow> length q < 12 \<or> parse_response q MAX_NAME_LEN (Some x) = None))"

lemma recv_loop_skips:
  assumes "list_all (passed_over timeout_ms x) noise"
  shows "recv_loop timeout_ms MAX_NAME_LEN (Some x) (noise @ evs) = recv_loop timeout_ms MAX_NAME_LEN (Some x) evs"
  using assms by (induction noise) (auto simp: passed_over_def split: option.splits)

lemma hd_quad: "c_isdigit (hd (quad_text a b c d))"
  using dec_nat_digits[of a] dec_int_nonempty[of "int a"] by (cases "dec_nat a") (auto simp: quad_text_def dec_int_def)

lemma mdns_args_quad: "mdns_args [''-t'', ''800'', quad_text a b c d] (DEFAULT_TIMEOUT, None) = Some (800, Some (quad_text a b c d))"
proof -
  have "strtol10 ''800'' = 800" by code_simp
  moreover have "quad_text a b c d \<noteq> []" by (simp add: quad_text_def)
  then obtain e s where e: "quad_text a b c d = e # s" by (cases "quad_text a b c d") auto
  moreover have "e \<noteq> CHR ''-''" using hd_quad[of a b c d] e by (auto simp: c_isdigit_def)
  ultimately show ?thesis by (simp add: cget_def)
qed

text \<open>An answer as a responder sends it: a PTR record of the asked name with a usable host name.\<close>

definition good_answer :: "nat \<Rightarrow> nat \<Rightarrow> nat \<Rightarrow> nat \<Rightarrow> string list \<Rightarrow> string list \<Rightarrow> bool" where
  "good_answer a b c d rls hls \<longleftrightarrow> list_all label_ok rls \<and> list_all label_ok hls \<and> length (dotted hls) < 255 \<and>
     nulfree (dotted rls) \<and> nulfree (dotted hls) \<and> strcasecmp_eq (dotted rls) (rev_name a b c d)"

lemma length_rev_name:
  assumes "a \<le> 255" and "b \<le> 255" and "c \<le> 255" and "d \<le> 255"
  shows "length (rev_name a b c d) < 63" and "rev_name a b c d \<noteq> []"
  using assms length_dec_octet[of a] length_dec_octet[of b] length_dec_octet[of c] length_dec_octet[of d]
  by (simp_all add: rev_name_def)

lemma parse_good_answer:
  assumes "good_answer a b c d rls hls" and "a \<le> 255" and "b \<le> 255" and "c \<le> 255" and "d \<le> 255" and "length txid = 2" and "length class_ttl = 6"
  shows "parse_response (ptr_response txid class_ttl rls hls) MAX_NAME_LEN (Some (rev_name a b c d)) = Some (dotted hls)"
proof -
  have "length (dotted rls) = length (rev_name a b c d)" using assms(1) by (auto simp: good_answer_def dest: strcasecmp_eq_length)
  then have l: "length (dotted rls) < 255" using length_rev_name(1)[OF assms(2-5)] by simp
  show ?thesis
  proof (rule parse_ptr_response)
    show "length (wire hls) < 65536" using assms(1) length_wire[of hls] by (cases "hls = []") (auto simp: good_answer_def)
  qed (use assms l in \<open>auto simp: good_answer_def MAX_NAME_LEN_def\<close>)
qed

lemma mdns_program_prints:
  assumes "a \<le> 255" and "b \<le> 255" and "c \<le> 255" and "d \<le> 255"
    and "qe_socket_ok unicast" and "qe_send_ok unicast"
    and "qe_events unicast = noise @ (t, Some (ptr_response txid class_ttl rls hls)) # evs" and "t < 400"
    and "list_all (passed_over 400 (rev_name a b c d)) noise"
    and "good_answer a b c d rls hls" and "length txid = 2" and "length class_ttl = 6" and "strip_local_suffix (dotted hls) \<noteq> []"
  shows "mdns_program unicast multicast [''-t'', ''800'', quad_text a b c d] = (strip_local_suffix (dotted hls) @ [LF], 0)"
proof -
  let ?ip = "quad_text a b c d" and ?x = "rev_name a b c d" and ?u = "unicast\<lparr>qe_pton_ok := True\<rparr>"
  obtain q where q: "build_query ?ip MAX_PKT (nat (qe_time unicast mod 65536)) = Some q"
    using build_query_correct[OF assms(1-4), of MAX_PKT] by (auto simp: MAX_PKT_def)
  have x: "cbuf 64 ?x = ?x" "?x \<noteq> []" using length_rev_name[OF assms(1-4)] by simp_all
  have "12 \<le> length (ptr_response txid class_ttl rls hls)" using assms(11) by (simp add: ptr_response_def)
  then have r: "recv_loop 400 MAX_NAME_LEN (Some ?x) (qe_events unicast) = Some (dotted hls)"
    using recv_loop_skips[OF assms(9)] parse_good_answer[OF assms(10,1-4,11,12)] assms(7,8) by simp
  have "try_query ?u ?ip 400 MAX_NAME_LEN = Some (dotted hls)"
    using q x r assms(5,6) by (simp add: try_query_def scan_quad_text[OF assms(1-4)] Let_def)
  then show ?thesis using assms(13) inet_pton_quad[OF assms(1-4)] by (simp add: mdns_program_def mdns_args_quad mdns_main_def Let_def del: mdns_args.simps)
qed

section \<open>The helper of the daemon\<close>

text \<open>The calls of the parent when the child writes a text, in any pieces, and exits.\<close>

definition child_run :: "string \<times> int \<Rightarrow> child_env \<Rightarrow> bool" where
  "child_run res env \<longleftrightarrow> ce_exec_ok env \<and> ce_pipe_ok env \<and> ce_fork_ok env \<and>
     (\<exists>rs. ce_reads env = rs @ [Rd_eof] \<and> set rs \<subseteq> range Rd_data \<union> {Rd_eintr} \<and> given rs = fst res) \<and>
     (\<exists>k ws. ce_waits env = replicate k Cw_eintr @ Cw_exit (snd res) # ws)"

lemma helper_name:
  assumes "child_run (h @ [LF], 0) env" and "inet_pton_ok ip" and "h \<noteq> []" and "last h \<noteq> LF" and "last h \<noteq> CR" and "nulfree h" and "length h < outlen"
  shows "\<exists>calls. run_mdns_helper env ip outlen = Some (Some h, calls) \<and> calls_balanced calls"
proof -
  obtain rs k ws where r: "ce_exec_ok env" "ce_pipe_ok env" "ce_fork_ok env" "ce_reads env = rs @ [Rd_eof]" "set rs \<subseteq> range Rd_data \<union> {Rd_eintr}" "given rs = h @ [LF]"
    "ce_waits env = replicate k Cw_eintr @ Cw_exit 0 # ws"
    using assms(1) by (auto simp: child_run_def)
  have w: "wait_retry (ce_waits env) = Some (0, True)" unfolding r(7) by (induction k) simp_all
  have p: "pipe_read (outlen - 1) [] (ce_reads env) = Some (take (outlen - 1) (h @ [LF]))" using pipe_read_full[OF r(5)] r(4,6) by simp
  obtain e h' where e: "rev h = e # h'" using assms(3) by (cases "rev h") auto
  then have h: "h = rev h' @ [e]" by (metis rev.simps(2) rev_rev_ident)
  then have "e \<noteq> LF" "e \<noteq> CR" using assms(4,5) by simp_all
  then have s: "rstrip (\<lambda>c. c = LF \<or> c = CR) h = h" "rstrip (\<lambda>c. c = LF \<or> c = CR) (h @ [LF]) = h"
    unfolding h by (simp_all add: rstrip_def)
  have "cstr h = h" "cstr (h @ [LF]) = h @ [LF]" using assms(6) by (auto simp: nulfree_def cstr_def takeWhile_append intro!: takeWhile_eq_all_conv[THEN iffD2])
  moreover have "take (outlen - 1) (h @ [LF]) = h \<or> take (outlen - 1) (h @ [LF]) = h @ [LF]"
    using assms(7) by (cases "length h = outlen - 1") auto
  ultimately have "rstrip (\<lambda>c. c = LF \<or> c = CR) (cstr (take (outlen - 1) (h @ [LF]))) = h" using s by auto
  then show ?thesis using r(1-3) w p assms(2,3,7) by (simp add: run_mdns_helper_def Let_def calls_balanced_def)
qed

section \<open>The worker and the main loop\<close>

text \<open>The function the daemon hands to the worker: the helper, with the run of the child for each address.\<close>

definition helper_fn :: "(string \<Rightarrow> child_env) \<Rightarrow> hnc_mdns_resolve_fn" where
  "helper_fn child ip mac = (case run_mdns_helper (child ip) ip HNC_MDNS_HOSTNAME_LEN of Some (r, _) \<Rightarrow> r | None \<Rightarrow> None)"

lemma process_pending_other:
  assumes "pick_pending (io_now io) (g_devs (d_tab st)) \<noteq> Some i"
  shows "find_device mac (g_devs (d_tab (process_pending_mdns io st))) = find_device mac (g_devs (d_tab st))"
    and "g_devs (d_tab (process_pending_mdns io st)) ! i = g_devs (d_tab st) ! i"
proof -
  consider "process_pending_mdns io st = st"
    | j e where "j \<noteq> i" and "dv_mac e = dv_mac (g_devs (d_tab st) ! j)" and "dv_active e = dv_active (g_devs (d_tab st) ! j)"
        and "g_devs (d_tab (process_pending_mdns io st)) = (g_devs (d_tab st))[j := e]"
  proof (cases "pick_pending (io_now io) (g_devs (d_tab st))")
    case (Some j)
    obtain hn src c where "resolve_hostname_dhcp_only io (dt_ov (d_tab st)) (dt_cache (d_tab st)) (dv_mac (g_devs (d_tab st) ! j)) HN_LEN 32 = (hn, src, c)"
      by (rule prod_cases3)
    with Some assms show ?thesis by (intro that(2)) (simp_all add: process_pending_mdns_def Let_def)
  qed (use that(1) in \<open>simp add: process_pending_mdns_def Let_def\<close>)
  then have "find_device mac (g_devs (d_tab (process_pending_mdns io st))) = find_device mac (g_devs (d_tab st)) \<and>
    g_devs (d_tab (process_pending_mdns io st)) ! i = g_devs (d_tab st) ! i"
    by cases (simp_all add: find_device_edit)
  then show "find_device mac (g_devs (d_tab (process_pending_mdns io st))) = find_device mac (g_devs (d_tab st))"
    "g_devs (d_tab (process_pending_mdns io st)) ! i = g_devs (d_tab st) ! i" by simp_all
qed

lemma find_device_bound: "find_device mac g = Some i \<Longrightarrow> i < length g"
  unfolding find_device_def by (induction g arbitrary: i) (auto split: if_splits)

lemma find_device_active: "find_device mac g = Some i \<Longrightarrow> dv_active (g ! i)"
  using find_index_Some[of "dev_hit mac" g i] by (simp add: find_device_def dev_hit_def)

text \<open>The expiry check leaves a device alone that was seen in the last 90 seconds, and the delayed write leaves the table outstanding or in the file.\<close>

lemma offline_keeps_seen:
  assumes "i < length (g_devs (d_tab st))" and "now - dv_last_seen (g_devs (d_tab st) ! i) \<le> 90"
  shows "g_devs (d_tab (offline_check now st)) ! i = g_devs (d_tab st) ! i"
  using assms by (simp add: offline_check_def silent_def OFFLINE_THRESHOLD_def Let_def)

lemma offline_dirty: "g_dirty st \<Longrightarrow> g_dirty (offline_check now st)"
  by (simp add: offline_check_def Let_def)

lemma debounce_pending_or_written:
  assumes "g_dirty st" and "te_disk env = None"
  shows "g_dirty (debounce env st) \<or> (\<exists>bl. devices_json (debounce env st) = Some (HotspotdFacts.devices_text bl (g_devs (d_tab (debounce env st)))))"
proof -
  have "g_dirty (write_json env u) \<or> (\<exists>bl. devices_json (write_json env u) = Some (HotspotdFacts.devices_text bl (g_devs (d_tab (write_json env u)))))"
    if "g_dirty u" for u :: "'a daemon"
    using that assms(2) by (auto simp: write_json_def HotspotdFacts.devices_text_def Let_def simp del: write_json_fields)
  then show ?thesis using assms(1) by (auto simp: debounce_def Let_def)
qed

text \<open>A single result for a pending device is entered by the round that finds it.\<close>

lemma tick_enters_name:
  assumes "\<not> g_need_scan st" and "worker_ok (dt_worker (d_tab st))" and "results (dt_worker (d_tab st)) = [r]" and "mr_success r"
    and "find_device (mr_mac r) (g_devs (d_tab st)) = Some i"
    and "dv_hostname_src (g_devs (d_tab st) ! i) = ''pending''" and "pick_pending (te_now env) (g_devs (d_tab st)) \<noteq> Some i"
    and "te_now env - dv_last_seen (g_devs (d_tab st) ! i) \<le> 90" and "te_disk env = None"
  defines "d \<equiv> g_devs (d_tab (tick env st)) ! i"
  shows "dv_hostname d = cbuf HN_LEN (mr_hostname r) \<and> dv_hostname_src d = ''mdns'' \<and> dv_active d \<and> dv_mac d = dv_mac (g_devs (d_tab st) ! i) \<and>
    i < length (g_devs (d_tab (tick env st))) \<and>
    (g_dirty (tick env st) \<or> (\<exists>bl. devices_json (tick env st) = Some (HotspotdFacts.devices_text bl (g_devs (d_tab (tick env st))))))"
proof -
  let ?f = "\<lambda>d. (dv_hostname d, dv_hostname_src d, dv_active d, dv_mac d)"
  define st2 where "st2 = process_pending_mdns (te_io env) st"
  define st3 where "st3 = drain_mdns (te_now env) st2"
  define st4 where "st4 = offline_check (te_now env) st3"
  note o = process_pending_other[OF assms(7), folded st2_def]
  have w2: "dt_worker (d_tab st2) = dt_worker (d_tab st)" by (simp add: st2_def)
  have l2: "i < length (g_devs (d_tab st2))" using find_device_bound[OF assms(5)]
    by (auto simp: st2_def process_pending_mdns_def Let_def split: option.split prod.split)
  obtain out wk where d: "hnc_mdns_worker_drain_results (int HNC_MDNS_QUEUE_SIZE) (dt_worker (d_tab st2)) = (out, wk)" by (rule prod.exhaust)
  have "out = take (nat (int HNC_MDNS_QUEUE_SIZE)) (results (dt_worker (d_tab st2)))" using drain_cases[OF _ d] assms(2) unfolding w2 by blast
  then have "out = [r]" unfolding w2 assms(3) by (simp add: HNC_MDNS_QUEUE_SIZE_def)
  then have g3: "g_devs (d_tab st3) = (g_devs (d_tab st2))[i := (g_devs (d_tab st2) ! i)\<lparr>dv_hostname := cbuf HN_LEN (mr_hostname r), dv_hostname_src := cbuf HN_SRC_LEN ''mdns''\<rparr>]"
    and d3: "g_dirty st3" using assms(4-6) o by (simp_all add: st3_def drain_mdns_def d apply_result_def Let_def)
  have n: "?f (g_devs (d_tab st3) ! i) = (cbuf HN_LEN (mr_hostname r), ''mdns'', True, dv_mac (g_devs (d_tab st) ! i))"
    "i < length (g_devs (d_tab st3))" "dv_last_seen (g_devs (d_tab st3) ! i) = dv_last_seen (g_devs (d_tab st) ! i)"
    using l2 o find_device_active[OF assms(5)] by (simp_all add: g3 HN_SRC_LEN_def)
  have n4: "g_devs (d_tab st4) ! i = g_devs (d_tab st3) ! i" unfolding st4_def using n assms(8) by (intro offline_keeps_seen) simp_all
  have l4: "i < length (g_devs (d_tab st4))" using n(2) by (simp add: st4_def offline_check_def Let_def)
  have t: "tick env st = debounce env st4" using assms(1) by (simp add: tick_def Let_def st4_def st3_def st2_def)
  then have m: "map ?f (g_devs (d_tab (tick env st))) = map ?f (g_devs (d_tab st4))" by (simp add: debounce_keeps[where f = ?f])
  have l: "i < length (g_devs (d_tab (tick env st)))" using map_eq_imp_length_eq[OF m] l4 by simp
  have "?f d = map ?f (g_devs (d_tab (tick env st))) ! i" using l by (simp add: d_def)
  also have "\<dots> = ?f (g_devs (d_tab st4) ! i)" unfolding m using l4 by simp
  finally have "?f d = (cbuf HN_LEN (mr_hostname r), ''mdns'', True, dv_mac (g_devs (d_tab st) ! i))" using n(1) n4 by simp
  moreover have "g_dirty st4" unfolding st4_def by (rule offline_dirty[OF d3])
  ultimately show ?thesis using debounce_pending_or_written[OF _ assms(9), of st4] l t by simp
qed

text \<open>
  C10: An mDNS answer finds its way from the network into the device table.  The worker takes the lookup
  of a pending device and runs the helper program; the device answers within the time of the unicast
  query with a PTR record for its reversed address, possibly after other packets that do not match;
  the program prints the host name without its domain, and the daemon reads the output, in whatever pieces it
  comes.  If the device has been pending for less than a second when the next round of the main loop begins (later, the answer
  is discarded) and was last seen at most 90 seconds before, that round leaves the device active in the table, under its address, with that name and the source
  \<^verbatim>\<open>mdns\<close>, and \<^verbatim>\<open>devices.json\<close> is either still to be written or already renders that table (when the disk takes it whole).
\<close>

theorem mdns_answer_reaches_table:
  assumes "a \<le> 255" and "b \<le> 255" and "c \<le> 255" and "d \<le> 255"
    and "qe_socket_ok unicast" and "qe_send_ok unicast" and "t < 400"
    and "qe_events unicast = noise @ (t, Some (ptr_response txid class_ttl rls hls)) # evs"
    and "list_all (passed_over 400 (rev_name a b c d)) noise"
    and "good_answer a b c d rls hls" and "length txid = 2" and "length class_ttl = 6"
    and "h = strip_local_suffix (dotted hls)" and "h \<noteq> []" and "last h \<noteq> LF" and "last h \<noteq> CR" and "length h < 64"
    and "child_run (mdns_program unicast multicast [''-t'', ''800'', quad_text a b c d]) (child (quad_text a b c d))"
    and "worker_ok wk" and "results wk = []" and "worker_take wk = (Take_task task, wk')" and "g_resolve_fn wk = Some (helper_fn child)"
    and "mt_ip task = quad_text a b c d" and "length (mt_mac task) < 18"
    and "d_tab st = tab\<lparr>dt_worker := worker_process task wk'\<rparr>" and "\<not> g_need_scan st"
    and "find_device (mt_mac task) (g_devs tab) = Some i" and "dv_hostname_src (g_devs tab ! i) = ''pending''"
    and "te_now env - dv_pending_since (g_devs tab ! i) < 1" and "te_now env - dv_last_seen (g_devs tab ! i) \<le> 90" and "te_disk env = None"
  shows "\<exists>dev \<in> set (g_devs (d_tab (tick env st))). dev = g_devs (d_tab (tick env st)) ! i \<and> dv_active dev \<and> dv_mac dev = dv_mac (g_devs tab ! i) \<and>
    dv_hostname dev = h \<and> dv_hostname_src dev = ''mdns'' \<and>
    (g_dirty (tick env st) \<or> (\<exists>bl. devices_json (tick env st) = Some (HotspotdFacts.devices_text bl (g_devs (d_tab (tick env st))))))"
proof -
  let ?ip = "quad_text a b c d" and ?r = "\<lparr>mr_mac = mt_mac task, mr_hostname = h, mr_hostname_src = ''mdns'', mr_success = True\<rparr>"
  have out: "mdns_program unicast multicast [''-t'', ''800'', ?ip] = (h @ [LF], 0)"
    using mdns_program_prints[OF assms(1-6,8,7,9-12)] assms(13,14) by simp
  have "set h \<subseteq> set (dotted hls)" unfolding assms(13) strip_local_suffix_def Let_def
    by (auto dest!: in_set_takeD set_dropWhileD)
  then have nf: "nulfree h" using assms(10) by (auto simp: good_answer_def nulfree_def)
  have "helper_fn child ?ip (mt_mac task) = Some h"
    using helper_name[OF _ inet_pton_quad[OF assms(1-4)] assms(14-16) nf, of "child ?ip" HNC_MDNS_HOSTNAME_LEN] assms(17,18) out
    by (auto simp: helper_fn_def HNC_MDNS_HOSTNAME_LEN_def)
  moreover note tk = take_task_cases[OF assms(19,21)]
  ultimately have "worker_process task wk' = worker_push_result (mt_mac task) h ''mdns'' True wk'"
    using assms(22,23) by (simp add: worker_process_def)
  then have w: "worker_ok (dt_worker (d_tab st))" "results (dt_worker (d_tab st)) = [?r]"
    using push_result_cases[of wk' "mt_mac task" h "''mdns''" True] tk assms(17,20,24,25)
    by (simp_all add: res_stored_def HNC_MDNS_QUEUE_SIZE_def HNC_MDNS_MAC_LEN_def HNC_MDNS_HOSTNAME_LEN_def HNC_MDNS_SRC_LEN_def)
  have not_ready: "\<not> hnc_pending_ready (dv_hostname_src (g_devs tab ! i)) (dv_pending_since (g_devs tab ! i)) (te_now env)"
    using assms(29) by (simp add: hnc_pending_ready_def HNC_PENDING_BREATHING_ROOM_SEC_def)
  have "pick_pending (te_now env) (g_devs (d_tab st)) \<noteq> Some i"
    using pick_pending_ready[of "te_now env" "g_devs (d_tab st)" i] not_ready assms(25) by auto
  from tick_enters_name[OF assms(26) w _ _ _ this _ assms(31)] assms(17,25,27,28,30) show ?thesis by (simp add: HN_LEN_def)
qed

text \<open>A phone at 10.0.0.2 that answers after one foreign packet, and the daemon that waits for it.\<close>

definition phone_query :: query_env where
  "phone_query = \<lparr>qe_socket_ok = True, qe_pton_ok = True, qe_send_ok = True, qe_time = 7,
     qe_events = [(3, Some ''noise''), (20, Some (ptr_response ''ab'' ''123456'' (rev_labels 10 0 0 2) [''Mi-10'', ''local'']))]\<rparr>"

definition phone_child :: "string \<Rightarrow> child_env" where
  "phone_child ip = \<lparr>ce_exec_ok = True, ce_pipe_ok = True, ce_fork_ok = True,
     ce_reads = [Rd_data ''Mi-'', Rd_eintr, Rd_data (''10'' @ [LF]), Rd_eof], ce_waits = [Cw_eintr, Cw_exit 0]\<rparr>"

definition phone_worker :: worker_state where
  "phone_worker = snd (hnc_mdns_worker_enqueue ''02:00:00:00:00:01'' ''10.0.0.2''
     (snd (hnc_mdns_worker_start 0 (hnc_mdns_worker_set_resolve_fn (Some (helper_fn phone_child)) worker_init))))"

definition phone_tab :: dtab where
  "phone_tab = dtab0\<lparr>g_devs := (replicate MAX_DEVICES dev_zero)[0 :=
     dev_zero\<lparr>dv_mac := ''02:00:00:00:00:01'', dv_active := True, dv_last_seen := 990, dv_hostname_src := ''pending'', dv_pending_since := 1000\<rparr>]\<rparr>"

definition phone_daemon :: "pinned_maps bpf_world daemon" where
  "phone_daemon = (daemon0 demo_sys0 None)\<lparr>g_need_scan := False,
     d_tab := phone_tab\<lparr>dt_worker := worker_process \<lparr>mt_mac = ''02:00:00:00:00:01'', mt_ip = ''10.0.0.2''\<rparr> (snd (worker_take phone_worker))\<rparr>\<rparr>"

lemma phone_answer: "good_answer 10 0 0 2 (rev_labels 10 0 0 2) [''Mi-10'', ''local'']"
proof -
  have "list_all label_ok (rev_labels 10 0 0 2)" "nulfree (dotted (rev_labels 10 0 0 2))"
    using rev_labels_ok[of 10 0 0 2] by simp code_simp
  then show ?thesis by (simp add: good_answer_def rev_name_dotted label_ok_def strcasecmp_eq_def nulfree_def)
qed

lemma phone_program: "mdns_program phone_query multicast [''-t'', ''800'', quad_text 10 0 0 2] = (''Mi-10'' @ [LF], 0)"
proof -
  have "strip_local_suffix (dotted [''Mi-10'', ''local'']) = ''Mi-10''" by code_simp
  then show ?thesis
    using phone_answer mdns_program_prints[of 10 0 0 2 phone_query "[(3, Some ''noise'')]" 20 "''ab''" "''123456''" "rev_labels 10 0 0 2" "[''Mi-10'', ''local'']" "[]" multicast]
    by (simp add: phone_query_def passed_over_def)
qed

lemma phone_worker_facts:
  "worker_ok phone_worker" "results phone_worker = []" "g_resolve_fn phone_worker = Some (helper_fn phone_child)"
  "worker_take phone_worker = (Take_task \<lparr>mt_mac = ''02:00:00:00:00:01'', mt_ip = ''10.0.0.2''\<rparr>, snd (worker_take phone_worker))"
  by (simp_all add: phone_worker_def hnc_mdns_worker_enqueue_def hnc_mdns_worker_start_def hnc_mdns_worker_set_resolve_fn_def worker_init_def
      worker_ok_def ring_ok_def results_def ring_list_def worker_take_def HNC_MDNS_QUEUE_SIZE_def HNC_MDNS_MAC_LEN_def HNC_MDNS_IP_LEN_def)

theorem mdns_answer_reaches_table_witness:
  "\<exists>dev \<in> set (g_devs (d_tab (tick (demo_tick 1000 None) phone_daemon))). dev = g_devs (d_tab (tick (demo_tick 1000 None) phone_daemon)) ! 0 \<and>
     dv_active dev \<and> dv_mac dev = dv_mac (g_devs phone_tab ! 0) \<and> dv_hostname dev = ''Mi-10'' \<and> dv_hostname_src dev = ''mdns'' \<and>
     (g_dirty (tick (demo_tick 1000 None) phone_daemon) \<or>
      (\<exists>bl. devices_json (tick (demo_tick 1000 None) phone_daemon) = Some (HotspotdFacts.devices_text bl (g_devs (d_tab (tick (demo_tick 1000 None) phone_daemon))))))"
proof (rule mdns_answer_reaches_table[where a = 10 and b = 0 and c = 0 and d = 2 and unicast = phone_query and t = 20 and noise = "[(3, Some ''noise'')]"
      and txid = "''ab''" and class_ttl = "''123456''" and rls = "rev_labels 10 0 0 2" and hls = "[''Mi-10'', ''local'']" and evs = "[]"
      and multicast = phone_query and child = phone_child and wk = phone_worker and wk' = "snd (worker_take phone_worker)"
      and task = "\<lparr>mt_mac = ''02:00:00:00:00:01'', mt_ip = ''10.0.0.2''\<rparr>" and tab = phone_tab])
  show "''Mi-10'' = strip_local_suffix (dotted [''Mi-10'', ''local''])" by code_simp
  show "child_run (mdns_program phone_query phone_query [''-t'', ''800'', quad_text 10 0 0 2]) (phone_child (quad_text 10 0 0 2))"
    unfolding phone_program child_run_def phone_child_def
    by (auto intro!: exI[of _ "[Rd_data ''Mi-'', Rd_eintr, Rd_data (''10'' @ [LF])]"] exI[of _ "Suc 0"])
  show "mt_ip \<lparr>mt_mac = ''02:00:00:00:00:01'', mt_ip = ''10.0.0.2''\<rparr> = quad_text 10 0 0 2" by code_simp
  show "find_device (mt_mac \<lparr>mt_mac = ''02:00:00:00:00:01'', mt_ip = ''10.0.0.2''\<rparr>) (g_devs phone_tab) = Some 0"
    by (simp add: phone_tab_def find_device_def dev_hit_def MAX_DEVICES_def numeral_eq_Suc strcasecmp_eq_def)
qed (rule phone_worker_facts phone_answer | simp add: phone_query_def passed_over_def phone_daemon_def phone_tab_def demo_tick_def MAX_DEVICES_def)+

end
