(* ===== verification/HotspotdMain.thy ===== *)
theory HotspotdMain
  imports HotspotdLoop
begin

text \<open>
  The outermost layer of \<^verbatim>\<open>daemon/hotspotd/hotspotd.c\<close>: going into the background, opening the netlink
  socket and the control socket, and the complete \<^verbatim>\<open>main\<close> with everything it takes from the
  system and gives back: descriptors, the socket file and the PID file.
\<close>

section \<open>What the process holds\<close>

datatype main_fd = Log_fd | Netlink_fd | Server_fd

text \<open>The file of the control socket: access mode, whether it belongs to root, and whether it takes connections.\<close>

record sock_file =
  sf_mode :: nat
  sf_root :: bool
  sf_listening :: bool

text \<open>
  Of the descriptors of the process, those that the main function itself holds for its whole life are counted: the log, the netlink socket and the server
  socket.  Those of files, accepted connections and pipes live within one call; the pipes are in the theory of the child processes.  \<open>os_seen\<close> is
  the history of the socket file: what other processes could find there.
\<close>

record main_os =
  os_fds :: "main_fd list"
  os_sock :: "sock_file option"
  os_seen :: "sock_file option list"

definition open_fd :: "main_fd \<Rightarrow> main_os \<Rightarrow> main_os" where
  "open_fd fd os = os\<lparr>os_fds := fd # os_fds os\<rparr>"

definition close_fd :: "main_fd \<Rightarrow> main_os \<Rightarrow> main_os" where
  "close_fd fd os = os\<lparr>os_fds := remove1 fd (os_fds os)\<rparr>"

definition set_sock :: "sock_file option \<Rightarrow> main_os \<Rightarrow> main_os" where
  "set_sock f os = os\<lparr>os_sock := f, os_seen := os_seen os @ [f]\<rparr>"

section \<open>Sockets\<close>

record sock_env =
  so_nl_socket :: bool
  so_nl_bind :: bool
  so_un_socket :: bool
  so_un_bind :: bool
  so_umask_mode :: nat
  so_is_root :: bool
  so_chmod :: bool
  so_chown :: bool
  so_listen :: bool

text \<open>Whether there is a descriptor; the size of the receive buffer is a wish only.\<close>

definition nl_open :: "sock_env \<Rightarrow> main_os \<Rightarrow> bool \<times> main_os" where
  "nl_open env os =
     (if \<not> so_nl_socket env then (False, os)
      else let os1 = open_fd Netlink_fd os
           in if \<not> so_nl_bind env then (False, close_fd Netlink_fd os1) else (True, os1))"

text \<open>The result of \<^verbatim>\<open>chmod\<close> and that of \<^verbatim>\<open>listen\<close> are not looked at, that of \<^verbatim>\<open>chown\<close> is only logged.\<close>

definition unix_server_open :: "sock_env \<Rightarrow> main_os \<Rightarrow> bool \<times> main_os" where
  "unix_server_open env os =
     (let os0 = set_sock None os in
      if \<not> so_un_socket env then (False, os0)
      else let os1 = open_fd Server_fd os0 in
      if \<not> so_un_bind env then (False, close_fd Server_fd os1)
      else let f2 = \<lparr>sf_mode = so_umask_mode env, sf_root = so_is_root env, sf_listening = False\<rparr>;
               os2 = set_sock (Some f2) os1;
               f3 = (if so_chmod env then f2\<lparr>sf_mode := 0x180\<rparr> else f2);
               os3 = set_sock (Some f3) os2;
               f4 = (if so_chown env then f3\<lparr>sf_root := True\<rparr> else f3);
               os4 = set_sock (Some f4) os3;
               f5 = f4\<lparr>sf_listening := so_listen env\<rparr>
           in (True, set_sock (Some f5) os4))"

section \<open>The background\<close>

text \<open>What the standard descriptors of the process lead to.\<close>

record stdio =
  std_in :: string
  std_out :: string
  std_err :: string

text \<open>
  \<open>fork1\<close> and \<open>fork2\<close> are what the two calls of \<^verbatim>\<open>fork\<close> return in this process; \<^const>\<open>None\<close> is the
  \<^verbatim>\<open>exit(0)\<close> of a parent.
\<close>

definition go_background :: "bool \<Rightarrow> int \<Rightarrow> int \<Rightarrow> bool \<Rightarrow> bool \<Rightarrow> string \<Rightarrow> stdio \<Rightarrow> stdio option" where
  "go_background daemonize fork1 fork2 devnull_ok log_ok logpath io =
     (if \<not> daemonize then Some io
      else if fork1 > 0 then None
      else if fork2 > 0 then None
      else let io1 = (if devnull_ok then io\<lparr>std_in := ''/dev/null'', std_out := ''/dev/null''\<rparr> else io)
           in Some (if log_ok then io1\<lparr>std_err := logpath\<rparr> else io1))"

section \<open>The whole program\<close>

record run_env =
  re_args :: "string list"
  re_fork1 :: int
  re_fork2 :: int
  re_devnull_ok :: bool
  re_errlog_ok :: bool
  re_log_ok :: bool
  re_pid :: int
  re_alive :: "int \<Rightarrow> bool"
  re_created :: "nat option"
  re_sock :: sock_env
  re_boot :: boot_env
  re_rounds :: "(tick_env \<times> sel_env \<times> sel_result) list"
  re_last :: tick_env

text \<open>
  The end of \<^verbatim>\<open>main\<close>: the JSON file, the cache, the threads, then the descriptors, the socket file, the
  PID file and the log.
\<close>

definition main_cleanup :: "run_env \<Rightarrow> bool \<Rightarrow> bool \<Rightarrow> 'w daemon \<Rightarrow> string option \<Rightarrow> main_os \<Rightarrow> 'w daemon \<times> string option \<times> main_os" where
  "main_cleanup re nl srv st pf os =
     (let st1 = hotspotd_cleanup (re_last re) st;
          os1 = (if nl then close_fd Netlink_fd os else os);
          os2 = (if srv then set_sock None (close_fd Server_fd os1) else os1);
          pf1 = cleanup_pid (re_pid re) pf
      in (st1, pf1, if re_log_ok re then close_fd Log_fd os2 else os2))"

text \<open>
  The state in which the daemon ends (\<^const>\<open>None\<close>: it exits at once and leaves everything to another
  process or instance), the PID file, and what the process holds.
\<close>

definition main_run ::
  "run_env \<Rightarrow> 'w offload_adapter_t list \<Rightarrow> 'w sched_sys \<Rightarrow> string option \<Rightarrow> string option \<Rightarrow> main_os \<Rightarrow> 'w daemon option \<times> string option \<times> main_os" where
  "main_run re adapters y json pidfile os =
     (case main_args (re_args re) False LOG_FILE of (daemonize, logpath) \<Rightarrow>
      case go_background daemonize (re_fork1 re) (re_fork2 re) (re_devnull_ok re) (re_errlog_ok re) logpath \<lparr>std_in = [], std_out = [], std_err = []\<rparr> of
        None \<Rightarrow> (None, pidfile, os)
      | Some _ \<Rightarrow>
          (let os1 = (if re_log_ok re then open_fd Log_fd os else os) in
           case write_pid (re_alive re) (re_created re) (re_pid re) pidfile of (go, pf) \<Rightarrow>
             if \<not> go then (None, pf, if re_log_ok re then close_fd Log_fd os1 else os1)
             else case nl_open (re_sock re) os1 of (nl, os2) \<Rightarrow>
               if \<not> nl then (case main_cleanup re False False (daemon0 y json) pf os2 of (st, pf', os') \<Rightarrow> (Some st, pf', os'))
               else case unix_server_open (re_sock re) os2 of (srv, os3) \<Rightarrow>
                 if \<not> srv then (case main_cleanup re True False (daemon0 y json) pf os3 of (st, pf', os') \<Rightarrow> (Some st, pf', os'))
                 else (case main_cleanup re True True (main_loop (re_rounds re) (hotspotd_boot adapters (re_boot re) y json)) pf os3 of
                         (st, pf', os') \<Rightarrow> (Some st, pf', os'))))"

section \<open>Properties\<close>

lemma fd_simps [simp]:
  "os_fds (open_fd fd os) = fd # os_fds os" "os_sock (open_fd fd os) = os_sock os" "os_seen (open_fd fd os) = os_seen os"
  "os_fds (close_fd fd os) = remove1 fd (os_fds os)" "os_sock (close_fd fd os) = os_sock os" "os_seen (close_fd fd os) = os_seen os"
  "os_fds (set_sock f os) = os_fds os" "os_sock (set_sock f os) = f" "os_seen (set_sock f os) = os_seen os @ [f]"
  by (simp_all add: open_fd_def close_fd_def set_sock_def)

text \<open>Others can talk to the daemon only through a socket that takes connections and that they may open.\<close>

definition exposed :: "sock_file option \<Rightarrow> bool" where
  "exposed f \<longleftrightarrow> (case f of None \<Rightarrow> False | Some s \<Rightarrow> sf_listening s \<and> sf_mode s \<noteq> 0x180)"

lemma nl_open_cases:
  assumes "nl_open env os = (ok, os')"
  shows "os_fds os' = (if ok then Netlink_fd # os_fds os else os_fds os)" and "os_sock os' = os_sock os" and "os_seen os' = os_seen os"
  using assms by (auto simp: nl_open_def Let_def split: if_splits)

lemma server_open_cases:
  assumes "unix_server_open env os = (ok, os')"
  shows "os_fds os' = (if ok then Server_fd # os_fds os else os_fds os)"
    and "\<not> ok \<Longrightarrow> os_sock os' = None"
    and "so_chmod env \<Longrightarrow> \<exists>new. os_seen os' = os_seen os @ new \<and> list_all (\<lambda>f. \<not> exposed f) new"
  using assms by (auto simp: unix_server_open_def Let_def exposed_def split: if_splits)

text \<open>
  C23: The daemon gives back what it takes, on every path through \<^verbatim>\<open>main\<close>: no descriptor stays open, and
  the socket file is gone after a run that opened it or tried to; what it does in between is the
  main loop on the state of the device and scheduler models.  Moreover, as long as \<^verbatim>\<open>chmod\<close> works, at
  no moment is there a control socket that takes connections from anyone but its owner, although
  the file is created under the mask of the process and its mode is set only afterwards.
\<close>

theorem main_gives_back:
  assumes "main_run re adapters y json pidfile os = (st, pf, os')" and "so_chmod (re_sock re)"
  shows "os_fds os' = os_fds os \<and>
    (st \<noteq> None \<longrightarrow> so_nl_socket (re_sock re) \<and> so_nl_bind (re_sock re) \<longrightarrow> os_sock os' = None) \<and>
    (\<exists>new. os_seen os' = os_seen os @ new \<and> list_all (\<lambda>f. \<not> exposed f) new) \<and>
    (st \<noteq> None \<longrightarrow> (st, pf) = hotspotd_main (re_alive re) (re_created re)
       (so_nl_socket (re_sock re) \<and> so_nl_bind (re_sock re) \<and> so_un_socket (re_sock re) \<and> so_un_bind (re_sock re))
       (re_pid re) adapters (re_boot re) (re_rounds re) (re_last re) y json pidfile)"
proof -
  obtain daemonize logpath where args: "main_args (re_args re) False LOG_FILE = (daemonize, logpath)" by (rule prod.exhaust)
  define bg where "bg = go_background daemonize (re_fork1 re) (re_fork2 re) (re_devnull_ok re) (re_errlog_ok re) logpath \<lparr>std_in = [], std_out = [], std_err = []\<rparr>"
  define os1 where "os1 = (if re_log_ok re then open_fd Log_fd os else os)"
  obtain go pf0 where w: "write_pid (re_alive re) (re_created re) (re_pid re) pidfile = (go, pf0)" by (rule prod.exhaust)
  obtain nl os2 where n: "nl_open (re_sock re) os1 = (nl, os2)" by (rule prod.exhaust)
  obtain srv os3 where u: "unix_server_open (re_sock re) os2 = (srv, os3)" by (rule prod.exhaust)
  have nl: "nl \<longleftrightarrow> so_nl_socket (re_sock re) \<and> so_nl_bind (re_sock re)" using n by (auto simp: nl_open_def Let_def split: if_splits)
  have srv: "srv \<longleftrightarrow> so_un_socket (re_sock re) \<and> so_un_bind (re_sock re)" using u by (auto simp: unix_server_open_def Let_def split: if_splits)
  note r = assms(1)[unfolded main_run_def args prod.case bg_def[symmetric] os1_def[symmetric] Let_def w n u]
  note c = nl_open_cases[OF n] server_open_cases(1,2)[OF u] server_open_cases(3)[OF u assms(2)]
  show ?thesis
  proof (cases "bg = None \<or> \<not> go")
    case True
    then show ?thesis using r by (auto simp: os1_def split: option.splits)
  next
    case False
    then obtain io where bg: "bg = Some io" and go by auto
    consider "\<not> nl" | "nl" "\<not> srv" | "nl" "srv" by blast
    then show ?thesis
      using r bg \<open>go\<close> c nl srv w
      by cases (auto simp: main_cleanup_def hotspotd_main_def Let_def os1_def exposed_def)
  qed
qed

definition demo_run :: run_env where
  "demo_run = \<lparr>re_args = [''-d''], re_fork1 = 0, re_fork2 = 0, re_devnull_ok = True, re_errlog_ok = True, re_log_ok = True, re_pid = 42, re_alive = \<lambda>_. False,
     re_created = Some 32, re_sock = \<lparr>so_nl_socket = True, so_nl_bind = True, so_un_socket = True, so_un_bind = True, so_umask_mode = 0x1FF,
       so_is_root = True, so_chmod = True, so_chown = False, so_listen = True\<rparr>,
     re_boot = demo_boot_env, re_rounds = demo_rounds, re_last = demo_tick 1040 None\<rparr>"

definition demo_os :: main_os where
  "demo_os = \<lparr>os_fds = [], os_sock = Some \<lparr>sf_mode = 0x1FF, sf_root = True, sf_listening = False\<rparr>, os_seen = []\<rparr>"

theorem main_gives_back_witness:
  "os_fds (snd (snd (main_run demo_run [] demo_sys0 None None demo_os))) = [] \<and>
   os_sock (snd (snd (main_run demo_run [] demo_sys0 None None demo_os))) = None"
proof -
  obtain st pf os' where r: "main_run demo_run [] demo_sys0 None None demo_os = (st, pf, os')" by (rule prod_cases3)
  have "fst (main_run demo_run [] demo_sys0 None None demo_os) \<noteq> None"
    by (simp add: main_run_def demo_run_def go_background_def write_pid_def Let_def split: prod.split)
  then have "st \<noteq> None" by (simp add: r)
  moreover have s: "so_chmod (re_sock demo_run)" "so_nl_socket (re_sock demo_run)" "so_nl_bind (re_sock demo_run)" by (simp_all add: demo_run_def)
  ultimately show ?thesis unfolding r using main_gives_back[OF r s(1)] by (simp add: demo_os_def)
qed

end
