(* ===== verification/LauncherSignals.thy ===== *)
theory LauncherSignals
  imports Main
begin

text \<open>
  The shutdown protocol of the supervisor \<^verbatim>\<open>src/launcher/hnc_launcher.c\<close>: the handler \<^verbatim>\<open>on_term_signal\<close>
  can run between any two statements of \<^verbatim>\<open>run_supervise_loop\<close>, \<^verbatim>\<open>spawn_dpid\<close> and \<^verbatim>\<open>wait_dpid\<close>, and the child can end at any
  time.  The supervisor is a machine with one place for every point at which the two flags
  \<^verbatim>\<open>g_shutdown\<close> and \<^verbatim>\<open>g_child_pid\<close> or the child make a difference; what the crash window decides is a choice here (the
  theory of the launcher computes it).
\<close>

section \<open>The machine\<close>

text \<open>
  \<open>Forking\<close> is the place between the test of \<^verbatim>\<open>g_shutdown\<close> and \<^verbatim>\<open>fork\<close>, \<open>Forked\<close> the one between \<^verbatim>\<open>fork\<close> and
  the assignment of \<^verbatim>\<open>g_child_pid\<close>, \<open>Reaped\<close> the one between the return of \<^verbatim>\<open>waitpid\<close> and the clearing of \<^verbatim>\<open>g_child_pid\<close>,
  \<open>Pause_soon\<close> the one between the test of \<^verbatim>\<open>g_shutdown\<close> and \<^verbatim>\<open>sleep\<close>, and \<open>Pausing\<close> is inside \<^verbatim>\<open>sleep\<close>.
\<close>

datatype sup_pc = Head | Forking | Fork_failed | Forked | Spawned | In_waitpid | Reaped | Decide | Pause_soon | Pausing | After_loop | Final_wait | Done

text \<open>
  Until \<^verbatim>\<open>execv\<close> the child is a copy of the supervisor and has its handler (\<open>Pre_exec\<close>).  A running child knows whether it has
  been sent \<^verbatim>\<open>SIGTERM\<close>; an ended one waits to be collected.
\<close>

datatype child_state = No_child | Pre_exec | Running bool | Zombie

text \<open>
  \<open>sp_missed\<close> records that a signal arrived when there was, or was about to be, a child that the handler
  did not know, or one that had not reached \<^verbatim>\<open>execv\<close>.
\<close>

record sup =
  sp_pc :: sup_pc
  sp_shutdown :: bool
  sp_child_set :: bool
  sp_child :: child_state
  sp_missed :: bool

definition sup0 :: sup where
  "sup0 = \<lparr>sp_pc = Head, sp_shutdown = False, sp_child_set = False, sp_child = No_child, sp_missed = False\<rparr>"

text \<open>The statements of the supervisor: the states that may follow.  None follows while \<^verbatim>\<open>waitpid\<close> blocks.\<close>

definition sup_next :: "sup \<Rightarrow> sup list" where
  "sup_next s = (case sp_pc s of
       Head \<Rightarrow> if sp_shutdown s then [s\<lparr>sp_pc := After_loop\<rparr>] else [s\<lparr>sp_pc := Forking\<rparr>]
     | Forking \<Rightarrow> [s\<lparr>sp_pc := Forked, sp_child := Pre_exec\<rparr>, s\<lparr>sp_pc := Fork_failed\<rparr>]
     | Fork_failed \<Rightarrow> if sp_shutdown s then [s\<lparr>sp_pc := After_loop\<rparr>] else [s\<lparr>sp_pc := Pause_soon\<rparr>]
     | Forked \<Rightarrow> [s\<lparr>sp_pc := Spawned, sp_child_set := True\<rparr>]
     | Spawned \<Rightarrow> [s\<lparr>sp_pc := In_waitpid\<rparr>]
     | In_waitpid \<Rightarrow> if sp_child s = Zombie then [s\<lparr>sp_pc := Reaped, sp_child := No_child\<rparr>] else []
     | Reaped \<Rightarrow> [s\<lparr>sp_pc := Decide, sp_child_set := False\<rparr>]
     | Decide \<Rightarrow> if sp_shutdown s then [s\<lparr>sp_pc := After_loop\<rparr>]
         else [s\<lparr>sp_pc := After_loop\<rparr>, s\<lparr>sp_pc := Done\<rparr>, s\<lparr>sp_pc := Pause_soon\<rparr>]
     | Pause_soon \<Rightarrow> [s\<lparr>sp_pc := Pausing\<rparr>]
     | Pausing \<Rightarrow> [s\<lparr>sp_pc := Head\<rparr>]
     | After_loop \<Rightarrow> if sp_child_set s then [s\<lparr>sp_pc := Final_wait\<rparr>] else [s\<lparr>sp_pc := Done\<rparr>]
     | Final_wait \<Rightarrow> if sp_child s = Zombie then [s\<lparr>sp_pc := Done, sp_child := No_child\<rparr>] else []
     | Done \<Rightarrow> [])"

text \<open>
  The handler, with what it does to a call that is interrupted: \<^verbatim>\<open>waitpid\<close> in \<^verbatim>\<open>wait_dpid\<close> then leaves
  the loop, \<^verbatim>\<open>sleep\<close> ends early, and the last \<^verbatim>\<open>waitpid\<close> is not repeated.  A child before \<^verbatim>\<open>execv\<close> runs the inherited handler, which
  only sets the flag in its own memory: the \<^verbatim>\<open>SIGTERM\<close> is gone.  A signal before the call of \<^verbatim>\<open>sleep\<close> does not shorten the pause.
\<close>

definition on_term_signal :: "sup \<Rightarrow> sup" where
  "on_term_signal s =
     (let s1 = s\<lparr>sp_shutdown := True,
                 sp_child := (case sp_child s of Running asked \<Rightarrow> Running (asked \<or> sp_child_set s) | c \<Rightarrow> c),
                 sp_missed := sp_missed s \<or> sp_pc s = Forking \<or> sp_pc s = Forked \<or> sp_child s = Pre_exec\<rparr>
      in case sp_pc s of
           In_waitpid \<Rightarrow> if sp_child s = Zombie then s1 else s1\<lparr>sp_pc := After_loop\<rparr>
         | Pausing \<Rightarrow> s1\<lparr>sp_pc := Head\<rparr>
         | Final_wait \<Rightarrow> if sp_child s = Zombie then s1 else s1\<lparr>sp_pc := Done\<rparr>
         | _ \<Rightarrow> s1)"

definition child_ended :: "sup \<Rightarrow> sup" where
  "child_ended s = s\<lparr>sp_child := Zombie\<rparr>"

text \<open>The child's side of \<^verbatim>\<open>spawn_dpid\<close>: \<^verbatim>\<open>execv\<close> resets the handlers, or fails and the child ends with 127.\<close>

definition child_exec :: "bool \<Rightarrow> sup \<Rightarrow> sup" where
  "child_exec ok s = s\<lparr>sp_child := (if ok then Running False else Zombie)\<rparr>"

inductive sup_reach :: "sup \<Rightarrow> bool" where
  start: "sup_reach sup0"
| step: "sup_reach s \<Longrightarrow> s' \<in> set (sup_next s) \<Longrightarrow> sup_reach s'"
| signal: "sup_reach s \<Longrightarrow> sp_pc s \<noteq> Done \<Longrightarrow> sup_reach (on_term_signal s)"
| exec: "sup_reach s \<Longrightarrow> sp_child s = Pre_exec \<Longrightarrow> sup_reach (child_exec ok s)"
| child: "sup_reach s \<Longrightarrow> sp_child s = Running asked \<Longrightarrow> sup_reach (child_ended s)"

text \<open>Runs without a further signal and with a child that ends when it has been told to, not before.\<close>

inductive calm_step :: "sup \<Rightarrow> sup \<Rightarrow> bool" where
  stmt: "s' \<in> set (sup_next s) \<Longrightarrow> calm_step s s'"
| execs: "sp_child s = Pre_exec \<Longrightarrow> calm_step s (child_exec ok s)"
| obeys: "sp_child s = Running True \<Longrightarrow> calm_step s (child_ended s)"

inductive_cases calm_stepE: "calm_step s s'"

section \<open>The invariant\<close>

definition sup_inv :: "sup \<Rightarrow> bool" where
  "sup_inv s \<longleftrightarrow>
     (sp_pc s \<in> {Head, Forking, Fork_failed, Decide, Pause_soon, Pausing} \<longrightarrow> sp_child s = No_child \<and> \<not> sp_child_set s) \<and>
     (sp_pc s = Forked \<longrightarrow> sp_child s \<noteq> No_child \<and> \<not> sp_child_set s) \<and>
     (sp_pc s \<in> {Spawned, In_waitpid, Final_wait} \<longrightarrow> sp_child s \<noteq> No_child \<and> sp_child_set s) \<and>
     (sp_pc s = Reaped \<longrightarrow> sp_child s = No_child \<and> sp_child_set s) \<and>
     (sp_pc s = After_loop \<longrightarrow> (sp_child_set s \<longleftrightarrow> sp_child s \<noteq> No_child)) \<and>
     (sp_shutdown s \<and> (sp_pc s \<in> {Forking, Forked} \<or> sp_child s \<in> {Pre_exec, Running False}) \<longrightarrow> sp_missed s)"

lemma sup_next_inv: "sup_inv s \<Longrightarrow> s' \<in> set (sup_next s) \<Longrightarrow> sup_inv s'"
  by (auto simp: sup_inv_def sup_next_def split: sup_pc.splits if_splits)

lemma on_term_signal_inv:
  assumes "sup_inv s" and "sp_pc s \<noteq> Done"
  shows "sup_inv (on_term_signal s)"
  using assms by (cases "sp_pc s"; cases "sp_child s") (auto simp: sup_inv_def on_term_signal_def Let_def)

lemma child_ended_inv: "sup_inv s \<Longrightarrow> sp_child s = Running asked \<Longrightarrow> sup_inv (child_ended s)"
  by (auto simp: sup_inv_def child_ended_def)

lemma child_exec_inv: "sup_inv s \<Longrightarrow> sp_child s = Pre_exec \<Longrightarrow> sup_inv (child_exec ok s)"
  by (auto simp: sup_inv_def child_exec_def)

lemma sup_reach_inv: "sup_reach s \<Longrightarrow> sup_inv s"
proof (induction rule: sup_reach.induct)
  case start
  show ?case by (simp add: sup_inv_def sup0_def)
qed (simp_all add: sup_next_inv on_term_signal_inv child_ended_inv child_exec_inv)

section \<open>Shutdown\<close>

text \<open>What a supervisor that has been told to stop keeps until it has stopped.\<close>

definition stopping :: "sup \<Rightarrow> bool" where
  "stopping s \<longleftrightarrow> sup_inv s \<and> sp_shutdown s \<and> \<not> sp_missed s \<and> (sp_pc s = Done \<longrightarrow> sp_child s = No_child)"

fun stop_rank :: "sup_pc \<Rightarrow> nat" where
  "stop_rank Done = 0"
| "stop_rank Final_wait = 1"
| "stop_rank After_loop = 2"
| "stop_rank Head = 3"
| "stop_rank Fork_failed = 3"
| "stop_rank Decide = 3"
| "stop_rank Pausing = 4"
| "stop_rank Pause_soon = 5"
| "stop_rank Reaped = 4"
| "stop_rank In_waitpid = 5"
| "stop_rank Spawned = 6"
| "stop_rank _ = 0"

definition stop_measure :: "sup \<Rightarrow> nat" where
  "stop_measure s = stop_rank (sp_pc s) + (case sp_child s of Running _ \<Rightarrow> 1 | _ \<Rightarrow> 0)"

lemma calm_stopping:
  assumes "calm_step s s'" and "stopping s"
  shows "stopping s' \<and> stop_measure s' < stop_measure s"
proof -
  have "sup_inv s'" using assms by (auto simp: stopping_def elim!: calm_stepE intro: sup_next_inv child_ended_inv child_exec_inv)
  then show ?thesis using assms
    by (auto elim!: calm_stepE simp: stopping_def stop_measure_def child_ended_def child_exec_def)
       (auto simp: sup_next_def sup_inv_def split: sup_pc.splits if_splits child_state.splits)
qed

lemma stopping_progress:
  assumes "stopping s" and "sp_pc s \<noteq> Done"
  shows "\<exists>s'. calm_step s s'"
proof (cases "sp_child s = Running True")
  case False
  then have "sup_next s \<noteq> []" using assms
    by (cases "sp_child s") (auto simp: stopping_def sup_inv_def sup_next_def split: sup_pc.splits)
  then show ?thesis by (metis calm_step.stmt list.set_sel(1))
qed (use calm_step.obeys in blast)

lemma calm_runs:
  assumes "(calm_step ^^ n) s s'" and "stopping s"
  shows "stopping s' \<and> stop_measure s' + n \<le> stop_measure s"
  using assms
proof (induction n arbitrary: s')
  case (Suc n)
  then obtain u where u: "(calm_step ^^ n) s u" "calm_step u s'" by auto
  show ?case using calm_stopping[OF u(2)] Suc.IH[OF u(1)] Suc.prems(2) by auto
qed simp


lemma forked_reachable: "sup_reach (sup0\<lparr>sp_pc := Forked, sp_child := Pre_exec\<rparr>)"
proof -
  have "sup_reach (sup0\<lparr>sp_pc := Forking\<rparr>)" by (rule sup_reach.step[OF sup_reach.start]) (simp add: sup0_def sup_next_def)
  then show ?thesis by (rule sup_reach.step) (simp add: sup0_def sup_next_def)
qed

lemma spawned_reachable: "sup_reach (sup0\<lparr>sp_pc := Spawned, sp_child := Pre_exec, sp_child_set := True\<rparr>)"
  by (rule sup_reach.step[OF forked_reachable]) (simp add: sup0_def sup_next_def)

lemma waiting_child_reachable: "sup_reach (sup0\<lparr>sp_pc := In_waitpid, sp_child := Pre_exec, sp_child_set := True\<rparr>)"
  by (rule sup_reach.step[OF spawned_reachable]) (simp add: sup0_def sup_next_def)

definition waiting_sup :: sup where
  "waiting_sup = \<lparr>sp_pc = In_waitpid, sp_shutdown = False, sp_child_set = True, sp_child = Running False, sp_missed = False\<rparr>"

lemma waiting_reachable: "sup_reach waiting_sup"
  using sup_reach.exec[OF waiting_child_reachable, of True] by (simp add: sup0_def child_exec_def waiting_sup_def)


text \<open>
  In that window a shutdown signal can be lost.  Before \<^verbatim>\<open>g_child_pid\<close> is set the handler has no child to tell; after it, the child
  that has not reached \<^verbatim>\<open>execv\<close> swallows the \<^verbatim>\<open>SIGTERM\<close> in its copy of the handler.  Either way the
  supervisor reaches a \<^verbatim>\<open>waitpid\<close> in which it has been told to stop, the running child has not, and nothing happens any more until the
  child ends by itself or a second signal comes.
\<close>

lemma calm_reach: "calm_step\<^sup>*\<^sup>* s s' \<Longrightarrow> sup_reach s \<Longrightarrow> sup_reach s'"
  by (induction rule: rtranclp_induct) (auto elim!: calm_stepE intro: sup_reach.intros)

lemma lost_signal:
  assumes "sup_reach s" and "sp_pc s \<noteq> Done" and "calm_step\<^sup>*\<^sup>* (on_term_signal s) u"
    and "sp_pc u \<in> {In_waitpid, Final_wait}" and "sp_child u = Running False"
  shows "sup_reach u \<and> (\<nexists>u'. calm_step u u')"
  using calm_reach[OF assms(3)] sup_reach.signal[OF assms(1,2)] assms(4,5) by (auto elim!: calm_stepE simp: sup_next_def)

lemma shutdown_signal_lost:
  assumes "p \<in> {Forked, Spawned, In_waitpid}"
  shows "\<exists>s s'. sup_reach s \<and> sp_pc s = p \<and> sp_child s = Pre_exec \<and> calm_step\<^sup>*\<^sup>* (on_term_signal s) s' \<and> sup_reach s' \<and> sp_shutdown s' \<and>
    sp_pc s' \<in> {In_waitpid, Final_wait} \<and> sp_child s' = Running False \<and> (\<nexists>s''. calm_step s' s'')"
proof -
  let ?l = "\<lambda>q c. \<lparr>sp_pc = q, sp_shutdown = True, sp_child_set = True, sp_child = c, sp_missed = True\<rparr>"
  let ?f = "sup0\<lparr>sp_pc := Forked, sp_child := Pre_exec\<rparr>" and ?s = "sup0\<lparr>sp_pc := Spawned, sp_child := Pre_exec, sp_child_set := True\<rparr>"
  let ?w = "sup0\<lparr>sp_pc := In_waitpid, sp_child := Pre_exec, sp_child_set := True\<rparr>"
  have x: "calm_step (?l q Pre_exec) (?l q (Running False))" for q using calm_step.execs[of "?l q Pre_exec" True] by (simp add: child_exec_def)
  have e: "calm_step\<^sup>*\<^sup>* (?l In_waitpid Pre_exec) (?l In_waitpid (Running False))" using x by blast
  have s: "calm_step (?l Spawned Pre_exec) (?l In_waitpid Pre_exec)" by (rule calm_step.stmt) (simp add: sup_next_def)
  have S: "calm_step\<^sup>*\<^sup>* (on_term_signal ?s) (?l In_waitpid (Running False))"
    using converse_rtranclp_into_rtranclp[OF s e] by (simp add: on_term_signal_def sup0_def)
  have "calm_step (on_term_signal ?f) (?l Spawned Pre_exec)" by (rule calm_step.stmt) (simp add: sup_next_def on_term_signal_def sup0_def)
  from converse_rtranclp_into_rtranclp[OF this converse_rtranclp_into_rtranclp[OF s e]]
  have F: "calm_step\<^sup>*\<^sup>* (on_term_signal ?f) (?l In_waitpid (Running False))" .
  have "calm_step (?l After_loop Pre_exec) (?l Final_wait Pre_exec)" by (rule calm_step.stmt) (simp add: sup_next_def)
  from converse_rtranclp_into_rtranclp[OF this r_into_rtranclp[of calm_step, OF x]]
  have W: "calm_step\<^sup>*\<^sup>* (on_term_signal ?w) (?l Final_wait (Running False))" by (simp add: on_term_signal_def sup0_def)
  consider "p = Forked" | "p = Spawned" | "p = In_waitpid" using assms by blast
  then show ?thesis
  proof cases
    case 1
    then show ?thesis using lost_signal[OF forked_reachable _ F] F forked_reachable by (intro exI[of _ ?f] exI[of _ "?l In_waitpid (Running False)"]) simp
  next
    case 2
    then show ?thesis using lost_signal[OF spawned_reachable _ S] S spawned_reachable by (intro exI[of _ ?s] exI[of _ "?l In_waitpid (Running False)"]) simp
  next
    case 3
    then show ?thesis using lost_signal[OF waiting_child_reachable _ W] W waiting_child_reachable by (intro exI[of _ ?w] exI[of _ "?l Final_wait (Running False)"]) simp
  qed
qed

end
