(* ===== verification/Spec2Isabelle.thy ===== *)
theory Spec2Isabelle
  imports HNC_Prelude Helpers OuiLookup HostnameCache MdnsWorker MdnsResolve SchedulerFacts SchedRules HotspotdLoop Launcher JsonTool TcIngress Upstream Platform DevicesJson IpcTool OffloadCtl MdnsPath HotspotdMain LauncherSignals
begin

text \<open>
  This is a verification library for the C code of HNC, a hotspot controller for rooted Android
  phones.  All paths are relative to the root of the repository.

  \<^bold>\<open>The program.\<close>  The daemon \<^verbatim>\<open>daemon/hotspotd/hotspotd.c\<close> watches the neighbours of the phone's hotspot
  (netlink messages and \<^verbatim>\<open>/proc/net/arp\<close>), gives every device a name and writes the list to
  \<^verbatim>\<open>devices.json\<close>.  Names come from a chain: the user's own names, the DHCP events of
  \<^verbatim>\<open>dumpsys\<close>, mDNS (a separate program \<^verbatim>\<open>mdns_resolve\<close>, run by a worker thread), a persistent
  cache, the vendor of the address, and the address itself.  Traffic limits only work when the
  kernel does not forward packets past the traffic control, so a scheduler (\<^verbatim>\<open>scheduler.c\<close>) keeps the
  set of limited devices, and while it is not empty an adapter (\<^verbatim>\<open>offload/\<close>) sets the entry of the upstream
  interface in a kernel map to zero; a kernel probe (\<^verbatim>\<open>lsm/\<close>) reports foreign writes to that entry.
  The upstream is found by \<^verbatim>\<open>upstream.c\<close>, the platform by \<^verbatim>\<open>platform.c\<close>.  Scripts talk to the daemon through
  \<^verbatim>\<open>tools/hnc_ipc.c\<close>, edit files with \<^verbatim>\<open>tools/hnc_json.c\<close>, install packet filters with
  \<^verbatim>\<open>daemon/tc_netlink/hnc_tc_ingress.c\<close> and, when the daemon is not running, drive the adapters with \<^verbatim>\<open>tools/offload_ctl.c\<close>.
  The DPI daemon is supervised by \<^verbatim>\<open>src/launcher/hnc_launcher.c\<close>.

  \<^bold>\<open>How code becomes definitions.\<close>  A structure is a record, an enumeration a datatype, the static
  variables of a file are one state record, and every function is a definition of the same name
  that takes and returns that state.  A C string is a \<^typ>\<open>string\<close> without its terminator, and a
  copy into a buffer of \<open>n\<close> bytes is \<^const>\<open>cbuf\<close>; numbers that are parsed are cut to the width the
  code gives them (\<^const>\<open>c_int\<close>, \<^const>\<open>clamp_long\<close>), entries of the limit map are 64-bit words.  What the kernel, a
  child process or a file gives is an argument: a file is an optional text, a system call that can
  fail has its outcome in an environment record, and a loop over system calls runs on the list of
  their results.  When such a list ends the call has not returned (\<^const>\<open>None\<close>) or its time limit
  has passed, as the text at the definition says, so a claim that a loop ends is a claim about
  the length of the list.  A critical section is one step; threads, signals and the child processes are
  interleavings of steps.

  \<^bold>\<open>Theories,\<close> in the order in which they build on each other:

  \<^item> \<open>HNC_Prelude\<close>, \<open>CText\<close>: the C library as far as it is used (strings, numbers, \<^verbatim>\<open>strcasecmp\<close>,
    \<^verbatim>\<open>fgets\<close>, \<^verbatim>\<open>sscanf\<close>, \<^verbatim>\<open>strtok_r\<close>) and the generic lemmas.
  \<^item> \<open>Helpers\<close>: \<^verbatim>\<open>hnc_helpers.c\<close>.  JSON escaping is correct, cut only between characters; the
    lookup of manual names; the rules for asking again.
  \<^item> \<open>OuiTable\<close>, \<open>OuiOverride\<close>, \<open>OuiLookup\<close>: the vendor table of \<^verbatim>\<open>hnc_helpers.c\<close> and \<^verbatim>\<open>oui_override.c\<close>.  The
    locale \<open>bsearch_table\<close> proves binary search equal to map lookup, and the table meets it.
  \<^item> \<open>HostnameCache\<close>: \<^verbatim>\<open>hostname_cache.c\<close>.  The cache behaves as a finite map with eviction of the
    entry used least recently, and its file reads back what was saved.
  \<^item> \<open>MdnsWorker\<close>: \<^verbatim>\<open>mdns_worker.c\<close>.  Both rings meet the locale \<open>bounded_fifo\<close>; under every interleaving of
    the two threads each accepted lookup is answered in order.
  \<^item> \<open>MdnsResolve\<close>: \<^verbatim>\<open>mdns_resolve.c\<close>.  Names round-trip, hostile packets neither loop nor leave the
    buffers, and only answers for the queried name count.
  \<^item> \<open>BoundedSet\<close>: the locale \<open>bounded_set\<close> of the two array sets of the code.
  \<^item> \<open>Adapter\<close>, \<open>AdapterBpf\<close>, \<open>LsmGuard\<close>: \<^verbatim>\<open>offload/adapter.c\<close>, \<^verbatim>\<open>adapter_null.c\<close>, \<^verbatim>\<open>adapter_bpf.c\<close> and \<^verbatim>\<open>lsm/\<close>.  The
    locale \<open>offload_contract\<close> states what an adapter promises its clients, and both adapters are
    interpretations of it; the system call is the record \<open>bpf_kernel\<close>, and what is assumed of it is the
    documented behaviour of the map operations, met by a concrete kernel in the witnesses.
  \<^item> \<open>Scheduler\<close>, \<open>SchedulerFacts\<close>, \<open>SchedRules\<close>: \<^verbatim>\<open>scheduler.c\<close>.  The locale \<open>offload_startup\<close> extends the
    contract by the start; proved in it: while a device is limited and the upstream is known, the
    upstream is blocked.  Also the rebuild of the set from \<^verbatim>\<open>rules.json\<close>.
  \<^item> \<open>DeviceTable\<close>, \<open>Hotspotd\<close>, \<open>HotspotdFacts\<close>, \<open>HotspotdLoop\<close>: the table and the main loop of \<^verbatim>\<open>hotspotd.c\<close>.  The
    table refines a finite map with eviction; \<open>daemon_reach\<close> is everything that can happen to the
    daemon, and its invariants are that all strings fit and that \<^verbatim>\<open>devices.json\<close> is current whenever no
    write is outstanding; writes are not starved, silent devices expire, and one instance runs at a
    time.
  \<^item> \<open>HotspotdMain\<close>: options, background mode, sockets and the complete \<^verbatim>\<open>main\<close> of \<^verbatim>\<open>hotspotd.c\<close>; descriptors
    and the socket file are given back on every path.
  \<^item> \<open>ChildIo\<close>, \<open>MdnsPath\<close>: the child processes of the name chain with their pipes, time limits and exit codes;
    and the way of an mDNS answer from the packet to the device table.
  \<^item> \<open>JsonTool\<close>, \<open>JsonFacts\<close>, \<open>DevicesJson\<close>: \<^verbatim>\<open>tools/hnc_json.c\<close>, and its structural check run over the files the
    daemon prints.
  \<^item> \<open>Upstream\<close>, \<open>Platform\<close>, \<open>TcIngress\<close>, \<open>IpcTool\<close>, \<open>OffloadCtl\<close>: \<^verbatim>\<open>upstream.c\<close>, \<^verbatim>\<open>platform.c\<close> with
    \<^verbatim>\<open>tools/platform_probe.c\<close>, \<^verbatim>\<open>hnc_tc_ingress.c\<close>, \<^verbatim>\<open>tools/hnc_ipc.c\<close> and \<^verbatim>\<open>tools/offload_ctl.c\<close>.
  \<^item> \<open>Launcher\<close>, \<open>LauncherSignals\<close>: \<^verbatim>\<open>hnc_launcher.c\<close> and \<^verbatim>\<open>fork_probe.c\<close>; the crash window against its
    specification, and the shutdown signal in every interleaving with the loop.
  \<^item> This theory: the properties that go through the whole system.  A limit command given to
    \<^verbatim>\<open>hnc_ipc\<close> passes the control socket, the scheduler, the detection of the upstream and the adapter, and ends as a zero
    in the kernel's map; and what \<^verbatim>\<open>hnc_ipc GET_DEVICES\<close> prints is the device table, as valid JSON.

  \<^bold>\<open>Bounds.\<close>  The capacities are those of the source: 128 devices, 1024 cache entries, 256 overrides, 16 slots in a ring,
  16 compression jumps in a name, 16 keys of the limit map in the fourth tier, buffers of 512 bytes for most \<^verbatim>\<open>fgets\<close>
  loops, 32 KiB for the DHCP dump, 64 KiB for an answer in the client.  No definition needs artificial
  fuel: loops over data recurse over the data or have a measure, and \<open>decode_turns\<close>
  counts the turns of the name decoder to prove that \<open>MAX_NAME_JUMPS\<close> plus the size of the
  output plus one are enough.

  \<^bold>\<open>Not modelled.\<close>  Output for people only: the logs (\<^verbatim>\<open>hlog\<close>, \<^verbatim>\<open>log_msg\<close>), the handler that prints a line when the
  daemon crashes, usage texts.  The socket option of the receive time limit (\<^verbatim>\<open>set_socket_timeout\<close>); the
  time limit itself is in the receive loop.  The wrappers that only fill the argument of the \<^verbatim>\<open>bpf\<close> system call; they are
  the parameter \<open>bpf_kernel\<close>.  The manual test driver \<^verbatim>\<open>tools/sched_test.c\<close> and the unit tests under \<^verbatim>\<open>test/\<close>; the parts in
  Go, shell and JavaScript; the generated \<^verbatim>\<open>lsm/vmlinux.h\<close> and the headers of prebuilt libraries.  The memory of the
  process is not modelled, so allocation does not fail except where the code handles it, and the clock
  stands still within one round of the main loop.
\<close>

section \<open>From the control socket to the kernel's limit map\<close>

text \<open>
  The runs of the whole daemon in which no adapter call failed and every detected upstream had
  a positive index: the start, rounds of the main loop, neighbour messages, commands, signals,
  the mDNS thread and the scheduler's thread, in any order, with writes of other processes to the limit map in between.  The set is, as
  for the scheduler alone, the upstreams that such a write has opened and nothing has shut since.
\<close>

definition still_open :: "'k bpf_view \<Rightarrow> int set \<Rightarrow> 'k bpf_world daemon \<Rightarrow> int set" where
  "still_open V ov st = {i \<in> ov. \<not> bpf_blocked V (sy_world (d_sched st)) i}"

inductive clean_reach :: "'k bpf_kernel \<Rightarrow> 'k bpf_view \<Rightarrow> 'k bpf_world \<Rightarrow> int set \<Rightarrow> 'k bpf_world daemon \<Rightarrow> bool" for K V w0 where
  boot: "sy_sched y = sched0 \<Longrightarrow> sy_world y = w0 \<Longrightarrow> hnc_scheduler_init (g_adapters [adapter_bpf K]) (be_sched be) y = (0, r, y1) \<Longrightarrow>
     detect_ok (se_detect1 (be_sched be)) \<Longrightarrow> detect_ok (se_detect2 (be_sched be)) \<Longrightarrow> call_ok r \<Longrightarrow>
     clean_reach K V w0 {} (hotspotd_boot (g_adapters [adapter_bpf K]) be y json)"
| round: "clean_reach K V w0 ov st \<Longrightarrow> clean_reach K V w0 ov (tick env st)"
| netlink: "clean_reach K V w0 ov st \<Longrightarrow> clean_reach K V w0 ov (nl_process io ifname rs st)"
| client: "clean_reach K V w0 ov st \<Longrightarrow> handle_client now pid detect received st = (answer, st') \<Longrightarrow> detect_ok detect \<Longrightarrow>
     (\<forall>mac b. call_ok (fst (hnc_scheduler_notify_device_limit_changed detect mac b (d_sched st)))) \<Longrightarrow> clean_reach K V w0 (still_open V ov st') st'"
| signal: "clean_reach K V w0 ov st \<Longrightarrow> clean_reach K V w0 ov (sig_usr1 st)"
| mdns: "clean_reach K V w0 ov st \<Longrightarrow> clean_reach K V w0 ov (st\<lparr>d_tab := (d_tab st)\<lparr>dt_worker := wk\<rparr>\<rparr>)"
| scheduler: "clean_reach K V w0 ov st \<Longrightarrow> worker_iteration detect lsm_ok now (d_sched st) = Some (r, y) \<Longrightarrow> detect_ok detect \<Longrightarrow> call_ok r \<Longrightarrow>
     st' = st\<lparr>d_sched := y\<rparr> \<Longrightarrow> clean_reach K V w0 (still_open V ov st') st'"
| overwrite: "clean_reach K V w0 ov st \<Longrightarrow> foreign_write V (sy_world (d_sched st)) i w' \<Longrightarrow>
     clean_reach K V w0 (if bpf_blocked V w' i then ov - {i} else insert i ov) (st\<lparr>d_sched := (d_sched st)\<lparr>sy_world := w'\<rparr>\<rparr>)"

text \<open>A command is a step of the scheduler or leaves it alone.\<close>

lemma client_sched_step:
  assumes "handle_client now pid detect received st = (answer, st')" and "detect_ok detect"
    and "\<forall>mac b. call_ok (fst (hnc_scheduler_notify_device_limit_changed detect mac b (d_sched st)))"
  shows "d_sched st' = d_sched st \<or> sched_step (d_sched st) (d_sched st')"
proof -
  have n: "sched_step (d_sched st) (snd (hnc_scheduler_notify_device_limit_changed detect mac b (d_sched st)))" for mac b
    using assms(2,3) by (intro sched_step.notify[of detect mac b "d_sched st" "fst (hnc_scheduler_notify_device_limit_changed detect mac b (d_sched st))"]) simp_all
  show ?thesis using assms(1) n
    by (auto simp: handle_client_def cmd_refresh_def Let_def intro: sched_step.refresh sched_step.force_disable sched_step.force_restore
        split: if_splits option.splits prod.splits)
qed

lemma boot_sched: "d_sched (hotspotd_boot adapters be y json) = snd (snd (hnc_scheduler_init adapters (be_sched be) y))"
  by (simp add: hotspotd_boot_def Let_def daemon0_def)

lemma clean_sched_reach:
  "clean_reach K V w0 ov st \<Longrightarrow> sched_reach (g_adapters [adapter_bpf K]) (bpf_blocked V) (foreign_write V) w0 ov (d_sched st)"
proof (induction rule: clean_reach.induct)
  case (boot y be r y1 json)
  then show ?case by (auto simp: boot_sched intro: sched_reach.start)
next
  case (client ov st now pid detect received answer st')
  consider "d_sched st' = d_sched st" | "sched_step (d_sched st) (d_sched st')"
    using client_sched_step[OF client.hyps(2-4)] by blast
  then show ?case
  proof cases
    case 1
    then have "still_open V ov st' = ov" using bpf_start.reach_open[OF client.IH] by (auto simp: still_open_def)
    with 1 client.IH show ?thesis by simp
  next
    case 2
    with client.IH show ?thesis by (auto simp: still_open_def intro: sched_reach.step)
  qed
next
  case (scheduler ov st detect lsm_ok now r y st')
  then show ?case using sched_reach.step[OF scheduler.IH sched_step.worker[OF scheduler.hyps(2-4)]] by (simp add: still_open_def)
next
  case (overwrite ov st i w')
  then show ?case using sched_reach.overwrite[OF overwrite.IH] by simp
qed (simp_all add: sig_usr1_def)

lemma clean_safe:
  assumes "bpf_ok K V w0" and "clean_reach K V w0 ov st"
  shows "sched_safe (adapter_bpf K) (bpf_ok K V) (\<lambda>w i. bpf_blocked V w i \<or> i \<in> ov) (d_sched st)"
  by (rule bpf_start.reach_safe[OF clean_sched_reach[OF assms(2)] assms(1)])

text \<open>A step from a state without limited devices is safe outright: it shuts the upstream itself.\<close>

lemma first_limit_safe:
  assumes "sched_safe (adapter_bpf K) (bpf_ok K V) (\<lambda>w i. bpf_blocked V w i \<or> i \<in> ov) y" and "limited_items (sy_sched y) = []" and "sched_step y y'"
  shows "sched_safe (adapter_bpf K) (bpf_ok K V) (bpf_blocked V) y'"
proof -
  have "limited_count (sy_sched y) = 0" using assms(1,2) by (auto simp: sched_safe_def Let_def limited_ok_def limited_items_def HNC_SCHED_MAX_LIMITED_DEVICES_def)
  then have "sched_safe (adapter_bpf K) (bpf_ok K V) (bpf_blocked V) y" using assms(1) by (simp add: sched_safe_def Let_def)
  with assms(3) show ?thesis by (rule bpf.step_safe)
qed

section \<open>The limit command\<close>

definition limit_command :: "string \<Rightarrow> bool \<Rightarrow> string" where
  "limit_command mac b = ''OFFLOAD_NOTIFY_LIMIT '' @ mac @ (if b then '' 1'' else '' 0'') @ [LF]"

definition word31 :: "string \<Rightarrow> bool" where
  "word31 w \<longleftrightarrow> w \<noteq> [] \<and> length w \<le> 31 \<and> list_all (\<lambda>c. \<not> c_isspace c) w \<and> nulfree w"

lemma request_limit:
  assumes "word31 mac"
  shows "request_text (limit_command mac b) = ''OFFLOAD_NOTIFY_LIMIT '' @ mac @ (if b then '' 1'' else '' 0'')"
proof -
  have "length (limit_command mac b) \<le> 63" using assms by (simp add: limit_command_def word31_def)
  then have "take 63 (limit_command mac b) = limit_command mac b" by simp
  moreover have "nulfree (limit_command mac b)" using assms by (simp add: limit_command_def word31_def nulfree_def)
  ultimately show ?thesis by (simp add: request_text_def) (simp add: limit_command_def rstrip_def)
qed

lemma notify_args_limit:
  assumes "word31 mac"
  shows "notify_args (mac @ (if b then '' 1'' else '' 0'')) = Some (mac, if b then 1 else 0)"
proof -
  have "scan_s 31 ([] @ mac @ (if b then '' 1'' else '' 0'')) = Some (mac, if b then '' 1'' else '' 0'')"
    using assms by (intro scan_s_word) (simp_all add: word31_def c_isspace_def)
  moreover have "scan_d '' 1'' = Some (1, [])" "scan_d '' 0'' = Some (0, [])" by code_simp+
  ultimately show ?thesis by (cases b) (simp_all add: notify_args_def)
qed

lemma client_limit:
  assumes "word31 mac"
  shows "handle_client now pid detect (limit_command mac b) st =
    (Some (''OK'' @ [LF]), st\<lparr>d_sched := snd (hnc_scheduler_notify_device_limit_changed detect mac b (d_sched st))\<rparr>)"
proof -
  have "drop 21 (''OFFLOAD_NOTIFY_LIMIT '' @ mac @ x) = mac @ x" for x by simp
  then show ?thesis using notify_args_limit[OF assms, of b]
    by (simp add: handle_client_def request_limit[OF assms] Let_def) (simp add: limit_command_def)
qed

section \<open>The client and the daemon\<close>

text \<open>The daemon behind its socket, as the control client sees it.\<close>

definition daemon_socket :: "time_t \<Rightarrow> int \<Rightarrow> (int \<times> string) option \<Rightarrow> 'w daemon \<Rightarrow> ipc_env" where
  "daemon_socket now pid detect st =
     \<lparr>ipc_stdin = [], ipc_timeout_var = None, ipc_sock_var = None, ipc_socket_ok = True, ipc_connect_ok = (\<lambda>p. p = DEFAULT_SOCK_PATH), ipc_sent = (\<lambda>c. Some (length c)),
      ipc_replies = (\<lambda>cmd. case fst (handle_client now pid detect cmd st) of Some a \<Rightarrow> [Ir_data a, Ir_eof] | None \<Rightarrow> [Ir_eof])\<rparr>"

lemma ipc_limit:
  assumes "word31 mac"
  shows "hnc_ipc_main (daemon_socket now pid detect st) [''OFFLOAD_NOTIFY_LIMIT'', mac, ''1''] = (0, ''OK'' @ [LF], Some (limit_command mac True))"
proof -
  let ?a = "[''OFFLOAD_NOTIFY_LIMIT'', mac, ''1'']"
  have t: "words_text ?a @ [LF] = limit_command mac True" by (simp add: words_text_def spaced_def limit_command_def)
  have "length (words_text ?a) + 1 < CMD_BUF_SIZE" using assms by (simp add: words_text_def spaced_def CMD_BUF_SIZE_def word31_def)
  then have c: "build_cmd_from_argv ?a CMD_BUF_SIZE = Some (limit_command mac True)" using build_cmd_text[of ?a CMD_BUF_SIZE] t by simp
  have "recv_all [Ir_data (''OK'' @ [LF]), Ir_eof] [] = ''OK'' @ [LF]" by (simp add: RESP_BUF_SIZE_def)
  then show ?thesis using c client_limit[OF assms, of now pid detect True st]
    by (simp add: hnc_ipc_main_def daemon_socket_def ipc_sock_path_def DEFAULT_SOCK_PATH_def Let_def)
qed

lemma detect_primary_ok:
  assumes "if_tables env"
  shows "detect_ok (upstream_detect_primary env HNC_SCHED_IFNAME_LEN)"
  using primary_ok[OF assms, of HNC_SCHED_IFNAME_LEN] by (auto simp: detect_ok_def IFNAMSIZ_def HNC_SCHED_IFNAME_LEN_def split: option.split)

text \<open>
  C1: End to end: when a script runs \<^verbatim>\<open>hnc_ipc OFFLOAD_NOTIFY_LIMIT <mac> 1\<close> against the running
  daemon, in any state reached without a failed adapter call, among writes of other processes to the limit map, and with room in the set
  of limited devices, and the daemon looks for the upstream by its four tiers, the client prints \<^verbatim>\<open>OK\<close> and exits with 0 and the lower-case
  address is in the set.  If then the BPF adapter is active and an upstream is known, the entry of the upstream in the map pinned as the tethering limit
  map is 0 afterwards, so that offloaded traffic falls back to the path that is shaped: always when this is the first limited device, whatever others had
  written before, and with devices limited already unless another process has reopened that upstream and nothing has shut it since.
\<close>

theorem limit_command_blocks:
  assumes "bpf_ok K V w0" and "clean_reach K V w0 ov st" and "if_tables env"
    and "word31 mac" and "normalize_mac mac = Some norm" and "sc_initialized (sy_sched (d_sched st))"
    and "card (set (limited_items (sy_sched (d_sched st)))) < 256"
    and "detect = upstream_detect_primary env HNC_SCHED_IFNAME_LEN"
    and "call_ok (fst (hnc_scheduler_notify_device_limit_changed detect mac True (d_sched st)))"
    and "hnc_ipc_main (daemon_socket now pid detect st) [''OFFLOAD_NOTIFY_LIMIT'', mac, ''1''] = (rc, out, Some cmd)"
    and "handle_client now pid detect cmd st = (answer, st')"
  shows "rc = 0 \<and> out = ''OK'' @ [LF] \<and> norm \<in> set (limited_items (sy_sched (d_sched st'))) \<and>
    (sc_adapter (sy_sched (d_sched st')) = Some (adapter_bpf K) \<and> 0 < primary_upstream_ifindex (sy_sched (d_sched st')) \<and>
     (limited_items (sy_sched (d_sched st)) = [] \<or> primary_upstream_ifindex (sy_sched (d_sched st')) \<notin> ov) \<longrightarrow>
       limit_map V (snd (sy_world (d_sched st'))) (nat (primary_upstream_ifindex (sy_sched (d_sched st')))) = Some 0)"
proof -
  obtain r y where n: "hnc_scheduler_notify_device_limit_changed detect mac True (d_sched st) = (r, y)" by (rule prod.exhaust)
  have c: "rc = 0" "out = ''OK'' @ [LF]" "cmd = limit_command mac True" using assms(10) ipc_limit[OF assms(4), of now pid detect st] by simp_all
  have a: "d_sched st' = y" using assms(11) c(3) client_limit[OF assms(4), of now pid detect True st] n by auto
  have "detect_ok detect" using detect_primary_ok[OF assms(3)] assms(8) by simp
  with n have t: "sched_step (d_sched st) y" using sched_step.notify[OF n] assms(9) by simp
  note S = clean_safe[OF assms(1,2)]
  have y: "sched_safe (adapter_bpf K) (bpf_ok K V) (\<lambda>w i. bpf_blocked V w i \<or> i \<in> {j \<in> ov. \<not> bpf_blocked V (sy_world y) j}) y"
    by (rule bpf_start.relaxed_step_safe[OF S t])
  have f: "limited_items (sy_sched (d_sched st)) = [] \<Longrightarrow> sched_safe (adapter_bpf K) (bpf_ok K V) (bpf_blocked V) y" using first_limit_safe[OF S _ t] .
  have "limited_ok (sy_sched (d_sched st))" using S by (simp add: sched_safe_def Let_def)
  from notify_items[OF assms(6) this n assms(5)] assms(7) have i: "norm \<in> set (limited_items (sy_sched y))" by (simp add: Let_def)
  then have l: "0 < limited_count (sy_sched y)" by (cases "limited_count (sy_sched y)") (simp_all add: limited_items_def)
  have "ad_granularity (adapter_bpf K) = OFFLOAD_GRAN_PER_UPSTREAM" by (simp add: adapter_bpf_def)
  with y f i a c l show ?thesis by (auto simp: sched_safe_def Let_def bpf_blocked_def)
qed

lemma demo_boot_clean_reach: "clean_reach demo_kernel demo_view (sy_world demo_sys0) {} demo_boot"
  unfolding demo_boot_def
  by (rule clean_reach.boot[OF _ refl, where r = None and ?y1.0 = demo_sys1])
     (simp_all add: demo_boot_env_def demo_sys1_fields(1), simp_all add: demo_sys0_def demo_env_def detect_ok_def call_ok_def)

theorem limit_command_blocks_witness:
  "pm_maps (snd (sy_world (d_sched (snd (handle_client 1000 77 (upstream_detect_primary phone HNC_SCHED_IFNAME_LEN) (limit_command ''AA:BB:CC:00:11:22'' True) demo_boot)))))
     BPF_LIMIT_MAP 7 = Some 0"
proof -
  have p: "upstream_detect_primary phone HNC_SCHED_IFNAME_LEN = Some (7, ''rmnet0'')" using phone_detects by (simp add: HNC_SCHED_IFNAME_LEN_def)
  let ?h = "handle_client 1000 77 (Some (7, ''rmnet0'')) (limit_command ''AA:BB:CC:00:11:22'' True) demo_boot"
  have d: "d_sched demo_boot = demo_sys1" by (simp add: demo_boot_def boot_sched demo_boot_env_def demo_sys1_fields(1))
  have w: "word31 ''AA:BB:CC:00:11:22''" "normalize_mac ''AA:BB:CC:00:11:22'' = Some ''aa:bb:cc:00:11:22''" by code_simp+
  have s: "sc_initialized (sy_sched demo_sys1)" "limited_items (sy_sched demo_sys1) = []"
    by (simp_all add: demo_sys1_fields limited_items_def) (simp_all add: sched0_def)
  have k: "bpf_ok demo_kernel demo_view (sy_world demo_sys0)" using demo_bpf_ok by (simp add: demo_sys0_def)
  have "d_sched (snd ?h) = demo_sys2" using client_limit[OF w(1), of 1000 77 "Some (7, ''rmnet0'')" True demo_boot] by (simp add: d demo_sys2_def)
  then show ?thesis
    using limit_command_blocks[OF k demo_boot_clean_reach phone_tables w, of "Some (7, ''rmnet0'')" 1000 77 0 "''OK'' @ [LF]"
        "limit_command ''AA:BB:CC:00:11:22'' True" "fst ?h" "snd ?h"] ipc_limit[OF w(1), of 1000 77 "Some (7, ''rmnet0'')" demo_boot] demo_sys2_fields s
    by (simp add: p d call_ok_def)
qed

section \<open>The device list at the client\<close>

lemma active_none: "count_active ds = 0 \<Longrightarrow> HotspotdFacts.devices_text bl ds = ''{}''"
proof -
  assume "count_active ds = 0"
  then have "filter dv_active ds = []" by (simp add: count_active_def)
  then show ?thesis by (simp add: HotspotdFacts.devices_text_def devices_loop_join)
qed

lemma get_devices_reply:
  "handle_client now pid detect (''GET_DEVICES'' @ [LF]) st = (Some (case devices_json st of None \<Rightarrow> ''{}'' | Some text \<Rightarrow> text), st)"
proof -
  have "request_text (''GET_DEVICES'' @ [LF]) = ''GET_DEVICES''" by code_simp
  then show ?thesis by (simp add: handle_client_def Let_def)
qed

lemma get_devices_answer:
  assumes "daemon_reach adapters y json st" and "\<not> g_dirty st" and "\<not> json_damaged st" and "json = None \<or> filter dv_active (g_devs (d_tab st)) \<noteq> []"
  shows "\<exists>bl. handle_client now pid detect (''GET_DEVICES'' @ [LF]) st = (Some (HotspotdFacts.devices_text bl (g_devs (d_tab st))), st)"
proof -
  consider bl where "devices_json st = Some (HotspotdFacts.devices_text bl (g_devs (d_tab st)))" | "devices_json st = None" "count_active (g_devs (d_tab st)) = 0"
    using reach_sync[OF assms(1)] assms(2-4) by (auto simp: file_sync_def count_active_def)
  then show ?thesis
  proof cases
    case 1
    then show ?thesis using get_devices_reply[of now pid detect st] by auto
  next
    case 2
    then show ?thesis using get_devices_reply[of now pid detect st] active_none[OF 2(2)] by auto
  qed
qed

text \<open>
  Without the last condition the answer may be old: a daemon that is started again while nobody is connected
  has nothing to write, and serves the file of its predecessor.
\<close>

lemma stale_list_served:
  assumes "te_arp (be_tick be) = Some text" and "length (fgets_lines 254 text) \<le> 1"
  shows "fst (handle_client now pid detect (''GET_DEVICES'' @ [LF]) (hotspotd_boot adapters be y (Some old))) = Some old"
proof -
  have "scan_arp_lines io (Some text) t = (t, 0)" for io t
    using assms(2) by (cases "fgets_lines 254 text") (auto simp: scan_arp_lines_def)
  then have "devices_json (hotspotd_boot adapters be y (Some old)) = Some old"
    using assms(1) by (simp add: hotspotd_boot_def scan_arp_def Let_def daemon0_def)
  then show ?thesis using get_devices_reply[of now pid detect "hotspotd_boot adapters be y (Some old)"] by simp
qed

text \<open>
  C8: What a script sees of the devices: take a reachable state of the daemon without an outstanding write, whose last write of the file was whole (the disk
  was not full) and in which either some device is active or no \<^verbatim>\<open>devices.json\<close> of an earlier run was there at the start.  If the fields that are
  printed without escaping (addresses, interface and source of the name, of the active devices) have no quotes,
  backslashes or control characters, \<^verbatim>\<open>hnc_ipc GET_DEVICES\<close> prints the rendering of exactly the active entries of the device table and exits with 0, and what it
  prints passes the structural check of the JSON editor, whatever the host names of the devices; the
  daemon may send the answer in pieces of any size and the client may receive it in others, up to
  the 64 KiB of its buffer.
\<close>

theorem get_devices_prints_table:
  assumes "daemon_reach adapters y json st" and "\<not> g_dirty st" and "\<not> json_damaged st" and "json = None \<or> filter dv_active (g_devs (d_tab st)) \<noteq> []"
    and "list_all plain_active (g_devs (d_tab st))"
    and "handle_client now pid detect (''GET_DEVICES'' @ [LF]) st = (Some answer, st')" and "send_all sends answer = (0, sent_text)"
    and "ipc_socket_ok env" and "ipc_connect_ok env (ipc_sock_path (ipc_sock_var env))" and "ipc_sent env (''GET_DEVICES'' @ [LF]) = Some 12"
    and "ipc_replies env (''GET_DEVICES'' @ [LF]) = rs @ [Ir_eof]" and "list_all piece rs" and "concat (map reply_text rs) = sent_text"
    and "length sent_text \<le> RESP_BUF_SIZE"
  shows "\<exists>bl. hnc_ipc_main env [''GET_DEVICES''] = (0, HotspotdFacts.devices_text bl (g_devs (d_tab st)) @ [LF], Some (''GET_DEVICES'' @ [LF])) \<and>
    valid_json (HotspotdFacts.devices_text bl (g_devs (d_tab st))) = 0"
proof -
  obtain bl where "handle_client now pid detect (''GET_DEVICES'' @ [LF]) st = (Some (HotspotdFacts.devices_text bl (g_devs (d_tab st))), st)"
    using get_devices_answer[OF assms(1-4)] by blast
  then have a: "sent_text = HotspotdFacts.devices_text bl (g_devs (d_tab st))" using assms(6) send_all_prefix[OF assms(7)] by auto
  have "recv_all (rs @ [Ir_eof]) [] = sent_text" using recv_all_complete[OF assms(12), of "[]"] assms(13,14) by simp
  moreover have "build_cmd_from_argv [''GET_DEVICES''] CMD_BUF_SIZE = Some (''GET_DEVICES'' @ [LF])"
    using build_cmd_text[of "[''GET_DEVICES'']" CMD_BUF_SIZE] by (simp add: words_text_def spaced_def CMD_BUF_SIZE_def)
  moreover have "sent_text \<noteq> []" "last sent_text \<noteq> LF" by (simp_all add: a HotspotdFacts.devices_text_def)
  ultimately have "hnc_ipc_main env [''GET_DEVICES''] = (0, sent_text @ [LF], Some (''GET_DEVICES'' @ [LF]))"
    using assms(8-11) by (simp add: hnc_ipc_main_def Let_def)
  moreover have "valid_json (HotspotdFacts.devices_text bl (g_devs (d_tab st))) = 0"
  proof -
    have "list_all dev_ok (g_devs (d_tab st))" using reach_tab_ok[OF assms(1)] by (simp add: tab_ok_def devs_inv_def)
    then have "list_all (\<lambda>d. dv_active d \<longrightarrow> dev_ok d \<and> plain_dev d) (g_devs (d_tab st))" using assms(5) by (auto simp: list_all_iff plain_active_def)
    then show ?thesis unfolding HotspotdFacts.devices_text_def by (rule devices_text_valid)
  qed
  ultimately show ?thesis using a by blast
qed

text \<open>The daemon with the awkward host name, its answer cut into pieces on both sides.\<close>

definition hostile_answer :: string where
  "hostile_answer =
     ''{'' @ qkey ''aa:bb:cc:00:11:22'' @ ''{'' @ qkey ''ip'' @ qstr ''10.0.0.2'' @ '','' @ qkey ''mac'' @ qstr ''aa:bb:cc:00:11:22'' @ '','' @
       qkey ''hostname'' @ qstr (''a'' @ [BSL, DQ, BSL, BSL]) @ '','' @ qkey ''hostname_src'' @ qstr ''manual'' @ '','' @ qkey ''iface'' @ qstr ''wlan2'' @ '','' @
       qkey ''rx_bytes'' @ ''0,'' @ qkey ''tx_bytes'' @ ''0,'' @ qkey ''status'' @ qstr ''allowed'' @ '','' @ qkey ''last_seen'' @ ''1000}}''"

definition hostile_socket :: ipc_env where
  "hostile_socket = (daemon_socket 1000 77 None hostile_boot)\<lparr>ipc_replies := (\<lambda>_. [Ir_data (take 7 hostile_answer), Ir_eintr, Ir_data (drop 7 hostile_answer), Ir_eof])\<rparr>"

lemma hostile_clean: "\<not> g_dirty hostile_boot"
  by code_simp

lemma hostile_whole: "\<not> json_damaged hostile_boot"
  by code_simp

lemma hostile_file: "devices_json hostile_boot = Some hostile_answer"
  by code_simp

lemma hostile_length: "length hostile_answer = 186"
  by (simp add: hostile_answer_def)

theorem get_devices_prints_table_witness:
  "\<exists>bl. hnc_ipc_main hostile_socket [''GET_DEVICES''] = (0, HotspotdFacts.devices_text bl (g_devs (d_tab hostile_boot)) @ [LF], Some (''GET_DEVICES'' @ [LF])) \<and>
     valid_json (HotspotdFacts.devices_text bl (g_devs (d_tab hostile_boot))) = 0"
proof -
  let ?h = "handle_client 1000 77 None (''GET_DEVICES'' @ [LF]) hostile_boot" and ?rs = "[Ir_data (take 7 hostile_answer), Ir_eintr, Ir_data (drop 7 hostile_answer)]"
  have r: "daemon_reach (g_adapters [adapter_bpf demo_kernel]) demo_sys0 None hostile_boot" unfolding hostile_boot_def by (rule daemon_reach.boot)
  have h: "?h = (Some hostile_answer, snd ?h)" using hostile_file get_devices_reply[of 1000 77 None hostile_boot] by (auto simp: hostile_answer_def)
  have t: "take 7 hostile_answer @ take 300 (drop 7 hostile_answer) = hostile_answer" using hostile_length by simp
  have e: "drop 7 hostile_answer \<noteq> []" "drop 300 (drop 7 hostile_answer) = []" using hostile_length by simp_all
  obtain c cs where c: "hostile_answer = c # cs" using hostile_length by (cases hostile_answer) auto
  obtain d ds where d: "drop 7 hostile_answer = d # ds" using e(1) by (cases "drop 7 hostile_answer") auto
  have "send_all [Send_eintr, Sent 300] (drop 7 hostile_answer) = (0, take 300 (drop 7 hostile_answer))" using e(2) unfolding d by (simp del: drop_drop)
  then have "send_all [Sent 7, Send_eintr, Sent 300] hostile_answer = (0, hostile_answer)" using t unfolding c by (simp del: drop_drop drop_Cons_numeral take_Cons_numeral)
  moreover have "list_all piece ?rs" "concat (map reply_text ?rs) = hostile_answer" using hostile_length by (auto simp: piece_def reply_text_def)
  moreover have "length hostile_answer \<le> RESP_BUF_SIZE" using hostile_length by (simp add: RESP_BUF_SIZE_def)
  ultimately show ?thesis
    using get_devices_prints_table[OF r hostile_clean hostile_whole _ hostile_plain h, of "[Sent 7, Send_eintr, Sent 300]" hostile_answer hostile_socket ?rs]
    by (simp add: hostile_socket_def daemon_socket_def ipc_sock_path_def DEFAULT_SOCK_PATH_def)
qed

end
